(* ===== verification/Redis_Prelude.thy ===== *)
theory Redis_Prelude
  imports Main "HOL-Library.Word" "HOL-Library.Multiset" "HOL-Library.Sublist"
begin

text \<open>
  Shared vocabulary of the development: byte strings, machine integers, the two ways a Rust
  function can fail (a \<^verbatim>\<open>Result::Err\<close> and a panic), and list facts used by several components.

  A Rust \<^verbatim>\<open>Vec<u8>\<close>, \<^verbatim>\<open>&[u8]\<close> and the bytes of a \<^verbatim>\<open>String\<close> are \<open>bytes\<close>, that is lists of
  HOL characters, which are exactly the 256 byte values.  \<open>Result<T, E>\<close> is the sum \<open>'e + 't\<close>
  with \<open>Inl\<close> for \<^verbatim>\<open>Err\<close>.  A call that may panic (a slice or an index out of range, a failed
  \<^verbatim>\<open>assert!\<close>, an arithmetic overflow check) has type \<open>'a run\<close>.
\<close>

section \<open>Types\<close>

type_synonym bytes = string
type_synonym u16 = "16 word"
type_synonym u64 = "64 word"
type_synonym i64 = "64 word"
type_synonym usize = "64 word"
type_synonym f64 = "64 word"

datatype 'a run = Panic | Ret 'a

section \<open>Sequencing\<close>

named_theorems monad_simps \<open>evaluation rules of the result and run sequencing operators\<close>

definition res_bind :: "'e + 'a \<Rightarrow> ('a \<Rightarrow> 'e + 'b) \<Rightarrow> 'e + 'b" where
  "res_bind m f = (case m of Inl e \<Rightarrow> Inl e | Inr x \<Rightarrow> f x)"

definition run_bind :: "'a run \<Rightarrow> ('a \<Rightarrow> 'b run) \<Rightarrow> 'b run" where
  "run_bind m f = (case m of Panic \<Rightarrow> Panic | Ret x \<Rightarrow> f x)"

fun map_res :: "('a \<Rightarrow> 'e + 'b) \<Rightarrow> 'a list \<Rightarrow> 'e + 'b list" where
  "map_res f [] = Inr []"
| "map_res f (x # xs) = res_bind (f x) (\<lambda>y. res_bind (map_res f xs) (\<lambda>ys. Inr (y # ys)))"

fun fold_res :: "('b \<Rightarrow> 'a \<Rightarrow> 'e + 'b) \<Rightarrow> 'b \<Rightarrow> 'a list \<Rightarrow> 'e + 'b" where
  "fold_res f acc [] = Inr acc"
| "fold_res f acc (x # xs) = res_bind (f acc x) (\<lambda>acc'. fold_res f acc' xs)"

lemma res_bind_simps [simp, monad_simps]:
  "res_bind (Inl e) f = Inl e" "res_bind (Inr x) f = f x"
  by (simp_all add: res_bind_def)

lemma run_bind_simps [simp, monad_simps]:
  "run_bind Panic f = Panic" "run_bind (Ret x) f = f x"
  by (simp_all add: run_bind_def)

lemma res_bind_eq_Inr [monad_simps]: "res_bind m f = Inr y \<longleftrightarrow> (\<exists>x. m = Inr x \<and> f x = Inr y)"
  by (cases m) auto

lemma res_bind_eq_Inl [monad_simps]:
  "res_bind m f = Inl e \<longleftrightarrow> m = Inl e \<or> (\<exists>x. m = Inr x \<and> f x = Inl e)"
  by (cases m) auto

lemma run_bind_eq_Ret [monad_simps]: "run_bind m f = Ret y \<longleftrightarrow> (\<exists>x. m = Ret x \<and> f x = Ret y)"
  by (cases m) auto

lemma run_bind_eq_Panic [monad_simps]:
  "run_bind m f = Panic \<longleftrightarrow> m = Panic \<or> (\<exists>x. m = Ret x \<and> f x = Panic)"
  by (cases m) auto

lemma map_run_eq [monad_simps]:
  "map_run f m = Ret y \<longleftrightarrow> (\<exists>x. m = Ret x \<and> f x = y)" "map_run f m = Panic \<longleftrightarrow> m = Panic"
  by (cases m; auto)+

lemma res_bind_cong [fundef_cong]:
  "m = m' \<Longrightarrow> (\<And>x. m' = Inr x \<Longrightarrow> f x = g x) \<Longrightarrow> res_bind m f = res_bind m' g"
  by (cases m') auto

lemma run_bind_cong [fundef_cong]:
  "m = m' \<Longrightarrow> (\<And>x. m' = Ret x \<Longrightarrow> f x = g x) \<Longrightarrow> run_bind m f = run_bind m' g"
  by (cases m') auto

lemma map_res_cong [fundef_cong]:
  "xs = ys \<Longrightarrow> (\<And>x. x \<in> set ys \<Longrightarrow> f x = g x) \<Longrightarrow> map_res f xs = map_res g ys"
  by (induction ys arbitrary: xs) (auto intro: res_bind_cong)

lemma map_res_all_Inr: "(\<And>x. x \<in> set xs \<Longrightarrow> f x = Inr (g x)) \<Longrightarrow> map_res f xs = Inr (map g xs)"
  by (induction xs) auto

lemma map_res_Inr_iff:
  "map_res f xs = Inr ys \<longleftrightarrow> list_all2 (\<lambda>x y. f x = Inr y) xs ys"
  by (induction xs arbitrary: ys) (auto simp: res_bind_eq_Inr list_all2_Cons1)

lemma map_res_Inr_length: "map_res f xs = Inr ys \<Longrightarrow> length ys = length xs"
  by (auto simp: map_res_Inr_iff dest: list_all2_lengthD)

lemma fold_res_append:
  "fold_res f acc (xs @ ys) = res_bind (fold_res f acc xs) (\<lambda>a. fold_res f a ys)"
proof (induction xs arbitrary: acc)
  case (Cons x xs)
  then show ?case by (cases "f acc x") auto
qed simp

section \<open>Slices\<close>

text \<open>\<^verbatim>\<open>&xs[a..b]\<close>: panics unless \<open>a \<le> b\<close> and \<open>b\<close> is at most the length.\<close>

definition slice_range :: "'a list \<Rightarrow> nat \<Rightarrow> nat \<Rightarrow> 'a list run" where
  "slice_range xs a b = (if a \<le> b \<and> b \<le> length xs then Ret (take (b - a) (drop a xs)) else Panic)"

text \<open>\<^verbatim>\<open>xs[i] = v\<close>: panics when \<open>i\<close> is out of range.\<close>

definition set_idx :: "'a list \<Rightarrow> nat \<Rightarrow> 'a \<Rightarrow> 'a list run" where
  "set_idx xs i v = (if i < length xs then Ret (xs[i := v]) else Panic)"

text \<open>\<^verbatim>\<open>xs.get(i)\<close>.\<close>

definition get_idx :: "'a list \<Rightarrow> nat \<Rightarrow> 'a option" where
  "get_idx xs i = (if i < length xs then Some (xs ! i) else None)"

text \<open>\<^verbatim>\<open>xs.iter().position(p)\<close>.\<close>

fun position :: "('a \<Rightarrow> bool) \<Rightarrow> 'a list \<Rightarrow> nat option" where
  "position p [] = None"
| "position p (x # xs) = (if p x then Some 0 else map_option Suc (position p xs))"

lemma position_Some:
  "position p xs = Some i \<Longrightarrow> i < length xs \<and> p (xs ! i) \<and> (\<forall>j<i. \<not> p (xs ! j))"
proof (induction xs arbitrary: i)
  case (Cons x xs)
  show ?case
  proof (cases "p x")
    case False
    with Cons.prems obtain k where k: "position p xs = Some k" "i = Suc k" by auto
    with Cons.IH[OF k(1)] False show ?thesis by (auto simp: nth_Cons split: nat.splits)
  qed (use Cons.prems in auto)
qed simp

lemma position_None: "position p xs = None \<longleftrightarrow> (\<forall>x \<in> set xs. \<not> p x)"
  by (induction xs) auto

lemma position_map: "position p (map f xs) = position (p \<circ> f) xs"
  by (induction xs) auto

lemma position_append:
  "position p (xs @ ys) =
     (case position p xs of
        Some i \<Rightarrow> Some i
      | None \<Rightarrow> map_option (\<lambda>k. length xs + k) (position p ys))"
  by (induction xs; cases "position p ys") (auto split: option.splits)

lemma get_idx_map: "get_idx (map f xs) i = map_option f (get_idx xs i)"
  by (simp add: get_idx_def)

lemma get_idx_append:
  "get_idx (xs @ ys) i = (if i < length xs then get_idx xs i else get_idx ys (i - length xs))"
  by (auto simp: get_idx_def nth_append)

lemma slice_range_append: "slice_range (xs @ ys @ zs) (length xs) (length xs + length ys) = Ret ys"
  by (simp add: slice_range_def)

lemma map_filter_append [simp]: "List.map_filter f (xs @ ys) = List.map_filter f xs @ List.map_filter f ys"
  by (simp add: List.map_filter_def)

lemma in_map_filter: "y \<in> set (List.map_filter f xs) \<longleftrightarrow> (\<exists>x \<in> set xs. f x = Some y)"
  by (induction xs) (auto simp: List.map_filter_simps split: option.splits)

lemma map_filter_at:
  assumes "i < length xs"
  shows "mset (List.map_filter f xs) =
           mset (List.map_filter f (take i xs @ drop (Suc i) xs)) + (case f (xs ! i) of None \<Rightarrow> {#} | Some y \<Rightarrow> {#y#})"
proof -
  have "List.map_filter f xs = List.map_filter f (take i xs @ xs ! i # drop (Suc i) xs)"
    using id_take_nth_drop [OF assms] by (rule arg_cong)
  then show ?thesis by (simp add: List.map_filter_simps split: option.splits)
qed

lemma sum_list_at:
  "i < length xs \<Longrightarrow> (\<Sum>x \<leftarrow> xs. f x) = (\<Sum>x \<leftarrow> take i xs @ drop (Suc i) xs. f x) + (f (xs ! i) :: nat)"
proof -
  assume "i < length xs"
  then have "xs = take i xs @ xs ! i # drop (Suc i) xs" by (rule id_take_nth_drop)
  then have "(\<Sum>x \<leftarrow> xs. f x) = (\<Sum>x \<leftarrow> take i xs @ xs ! i # drop (Suc i) xs. f x)" by (rule arg_cong)
  then show ?thesis by simp
qed

lemma sum_list_filter_le: "(\<Sum>x \<leftarrow> filter p xs. f x) \<le> (\<Sum>x \<leftarrow> xs. (f x :: nat))"
  by (induction xs) auto

end
