(* ===== verification/Rust_Std.thy ===== *)
theory Rust_Std
  imports Redis_Prelude
begin

text \<open>
  The parts of the Rust language and standard library the sources rely on, on byte strings:
  ASCII case folding, decimal printing and \<^verbatim>\<open>str::parse\<close> of integers, UTF-8 validation
  (\<^verbatim>\<open>str::from_utf8\<close>) and lossy decoding (\<^verbatim>\<open>String::from_utf8_lossy\<close>), \<^verbatim>\<open>trim\<close>, \<^verbatim>\<open>split\<close> and
  the numeric casts.  None of this is code of the repository; it is what its code calls.
\<close>

section \<open>Bytes\<close>

abbreviation byte_val :: "char \<Rightarrow> nat" where
  "byte_val c \<equiv> of_char c"

definition in_range :: "nat \<Rightarrow> nat \<Rightarrow> char \<Rightarrow> bool" where
  "in_range lo hi c \<longleftrightarrow> lo \<le> byte_val c \<and> byte_val c \<le> hi"

abbreviation CR :: char where "CR \<equiv> CHR 0x0D"
abbreviation LF :: char where "LF \<equiv> CHR 0x0A"
abbreviation CRLF :: bytes where "CRLF \<equiv> [CR, LF]"

definition to_ascii_upper :: "char \<Rightarrow> char" where
  "to_ascii_upper c = (if in_range 97 122 c then char_of (byte_val c - 32) else c)"

definition to_ascii_uppercase :: "bytes \<Rightarrow> bytes" where
  "to_ascii_uppercase = map to_ascii_upper"

definition eq_ignore_ascii_case :: "bytes \<Rightarrow> bytes \<Rightarrow> bool" where
  "eq_ignore_ascii_case a b \<longleftrightarrow> to_ascii_uppercase a = to_ascii_uppercase b"

definition is_ascii :: "bytes \<Rightarrow> bool" where
  "is_ascii bs \<longleftrightarrow> list_all (in_range 0 127) bs"

section \<open>Decimal numbers\<close>

definition digit_char :: "nat \<Rightarrow> char" where
  "digit_char d = char_of (48 + d)"

definition is_digit :: "char \<Rightarrow> bool" where
  "is_digit c \<longleftrightarrow> in_range 48 57 c"

fun show_nat :: "nat \<Rightarrow> bytes" where
  "show_nat n = (if n < 10 then [digit_char n] else show_nat (n div 10) @ [digit_char (n mod 10)])"

declare show_nat.simps [simp del]

definition show_int :: "int \<Rightarrow> bytes" where
  "show_int i = (if i < 0 then ''-'' @ show_nat (nat (- i)) else show_nat (nat i))"

fun digits_val :: "nat \<Rightarrow> bytes \<Rightarrow> nat option" where
  "digits_val acc [] = Some acc"
| "digits_val acc (c # cs) =
     (if is_digit c then digits_val (acc * 10 + (byte_val c - 48)) cs else None)"

text \<open>\<^verbatim>\<open>str::parse\<close> of an integer type with the range \<open>lo..hi\<close>: an optional sign (a minus
  sign only for signed types), at least one digit, and a value in the range.\<close>

definition parse_int :: "int \<Rightarrow> int \<Rightarrow> bytes \<Rightarrow> int option" where
  "parse_int lo hi s =
     (let (neg, ds) =
        (case s of
           c # rest \<Rightarrow>
             (if c = CHR ''+'' then (False, rest)
              else if c = CHR ''-'' \<and> lo < 0 then (True, rest) else (False, s))
         | [] \<Rightarrow> (False, []))
      in if ds = [] then None
         else case digits_val 0 ds of
                None \<Rightarrow> None
              | Some n \<Rightarrow>
                  (let v = (if neg then - int n else int n)
                   in if lo \<le> v \<and> v \<le> hi then Some v else None))"

definition parse_i64 :: "bytes \<Rightarrow> int option" where
  "parse_i64 = parse_int (- (2 ^ 63)) (2 ^ 63 - 1)"

definition parse_unsigned :: "nat \<Rightarrow> bytes \<Rightarrow> nat option" where
  "parse_unsigned w s = map_option nat (parse_int 0 (2 ^ w - 1) s)"

lemma is_digit_digit_char: "d < 10 \<Longrightarrow> is_digit (digit_char d) \<and> byte_val (digit_char d) = 48 + d"
  by (simp add: is_digit_def in_range_def digit_char_def)

lemma digits_val_append:
  "digits_val acc (xs @ ys) = Option.bind (digits_val acc xs) (\<lambda>a. digits_val a ys)"
  by (induction xs arbitrary: acc) auto

lemma digits_val_show_nat: "digits_val 0 (show_nat n) = Some n"
proof (induction n rule: show_nat.induct)
  case (1 n)
  show ?case
  proof (cases "n < 10")
    case True
    then show ?thesis by (simp add: show_nat.simps[of n] is_digit_digit_char)
  next
    case False
    with 1 show ?thesis
      by (simp add: show_nat.simps[of n] digits_val_append is_digit_digit_char)
  qed
qed

lemma show_nat_nonempty [simp]: "show_nat n \<noteq> []"
  by (subst show_nat.simps) simp

lemma show_nat_digits: "c \<in> set (show_nat n) \<Longrightarrow> is_digit c"
proof (induction n rule: show_nat.induct)
  case (1 n)
  then show ?case
    by (cases "n < 10") (auto simp: show_nat.simps[of n] is_digit_digit_char)
qed

lemma is_digit_neq: "is_digit c \<Longrightarrow> c \<noteq> CHR ''+'' \<and> c \<noteq> CHR ''-'' \<and> c \<noteq> CR \<and> c \<noteq> LF"
  by (auto simp: is_digit_def in_range_def)

lemma show_nat_hd: "\<exists>c cs. show_nat n = c # cs \<and> is_digit c"
  using show_nat_nonempty[of n] show_nat_digits[of "hd (show_nat n)" n]
  by (cases "show_nat n") auto

lemma parse_int_show_nat:
  assumes "lo \<le> int n" "int n \<le> hi"
  shows "parse_int lo hi (show_nat n) = Some (int n)"
proof -
  obtain c cs where s: "show_nat n = c # cs" "is_digit c" using show_nat_hd by blast
  have "digits_val 0 (c # cs) = Some n" using digits_val_show_nat[of n] s by simp
  then show ?thesis
    using s assms is_digit_neq[OF s(2)] by (simp add: parse_int_def)
qed

lemma parse_int_show_int:
  assumes "lo \<le> i" "i \<le> hi"
  shows "parse_int lo hi (show_int i) = Some i"
proof (cases "i < 0")
  case True
  with assms show ?thesis
    by (simp add: parse_int_def show_int_def digits_val_show_nat)
next
  case False
  then show ?thesis
    using parse_int_show_nat[of lo "nat i" hi] assms by (simp add: show_int_def)
qed

lemma parse_i64_show_int: "- (2 ^ 63) \<le> i \<Longrightarrow> i \<le> 2 ^ 63 - 1 \<Longrightarrow> parse_i64 (show_int i) = Some i"
  by (simp add: parse_i64_def parse_int_show_int)

lemma parse_unsigned_show_nat: "n < 2 ^ w \<Longrightarrow> parse_unsigned w (show_nat n) = Some n"
proof -
  assume "n < 2 ^ w"
  then have "int n \<le> 2 ^ w - 1" by (simp flip: of_nat_less_iff)
  then show ?thesis by (simp add: parse_unsigned_def parse_int_show_nat)
qed

lemma parse_int_range: "parse_int lo hi s = Some v \<Longrightarrow> lo \<le> v \<and> v \<le> hi"
  by (auto simp: parse_int_def Let_def split: option.splits if_splits list.splits prod.splits)

section \<open>UTF-8\<close>

abbreviation utf8_cont :: "char \<Rightarrow> bool" where
  "utf8_cont \<equiv> in_range 0x80 0xBF"

definition utf8_second3 :: "char \<Rightarrow> char \<Rightarrow> bool" where
  "utf8_second3 c d \<longleftrightarrow>
     (if in_range 0xE0 0xE0 c then in_range 0xA0 0xBF d
      else if in_range 0xED 0xED c then in_range 0x80 0x9F d
      else utf8_cont d)"

definition utf8_second4 :: "char \<Rightarrow> char \<Rightarrow> bool" where
  "utf8_second4 c d \<longleftrightarrow>
     (if in_range 0xF0 0xF0 c then in_range 0x90 0xBF d
      else if in_range 0xF4 0xF4 c then in_range 0x80 0x8F d
      else utf8_cont d)"

text \<open>The scalar value at the head of \<open>c # cs\<close>: \<open>Inr k\<close> when its \<open>k\<close> bytes are a valid
  encoding, \<open>Inl k\<close> when the first \<open>k\<close> bytes are an invalid sequence (the maximal prefix that
  \<^verbatim>\<open>from_utf8_lossy\<close> replaces by one U+FFFD).\<close>

fun utf8_head :: "char \<Rightarrow> bytes \<Rightarrow> nat + nat" where
  "utf8_head c cs =
     (if in_range 0 0x7F c then Inr 1
      else if in_range 0xC2 0xDF c then
        (case cs of d # _ \<Rightarrow> if utf8_cont d then Inr 2 else Inl 1 | [] \<Rightarrow> Inl 1)
      else if in_range 0xE0 0xEF c then
        (case cs of
           d # ds \<Rightarrow>
             if utf8_second3 c d
             then (case ds of e # _ \<Rightarrow> if utf8_cont e then Inr 3 else Inl 2 | [] \<Rightarrow> Inl 2)
             else Inl 1
         | [] \<Rightarrow> Inl 1)
      else if in_range 0xF0 0xF4 c then
        (case cs of
           d # ds \<Rightarrow>
             if utf8_second4 c d
             then (case ds of
                     e # es \<Rightarrow>
                       if utf8_cont e
                       then (case es of f # _ \<Rightarrow> if utf8_cont f then Inr 4 else Inl 3 | [] \<Rightarrow> Inl 3)
                       else Inl 2
                   | [] \<Rightarrow> Inl 2)
             else Inl 1
         | [] \<Rightarrow> Inl 1)
      else Inl 1)"

declare utf8_head.simps [simp del]

function utf8_valid :: "bytes \<Rightarrow> bool" where
  "utf8_valid [] = True"
| "utf8_valid (c # cs) =
     (case utf8_head c cs of Inl _ \<Rightarrow> False | Inr k \<Rightarrow> utf8_valid (drop (k - 1) cs))"
  by pat_completeness auto
termination by (relation "measure length") auto

abbreviation REPLACEMENT :: bytes where
  "REPLACEMENT \<equiv> [CHR 0xEF, CHR 0xBF, CHR 0xBD]"

function from_utf8_lossy :: "bytes \<Rightarrow> bytes" where
  "from_utf8_lossy [] = []"
| "from_utf8_lossy (c # cs) =
     (case utf8_head c cs of
        Inl k \<Rightarrow> REPLACEMENT @ from_utf8_lossy (drop (k - 1) cs)
      | Inr k \<Rightarrow> c # take (k - 1) cs @ from_utf8_lossy (drop (k - 1) cs))"
  by pat_completeness auto
termination by (relation "measure length") auto

definition from_utf8 :: "bytes \<Rightarrow> bytes option" where
  "from_utf8 bs = (if utf8_valid bs then Some bs else None)"

lemma utf8_head_ascii: "in_range 0 127 c \<Longrightarrow> utf8_head c cs = Inr 1"
  by (simp add: utf8_head.simps)

lemma utf8_valid_ascii_append: "is_ascii xs \<Longrightarrow> utf8_valid (xs @ ys) = utf8_valid ys"
  by (induction xs) (auto simp: is_ascii_def utf8_head_ascii)

lemma utf8_valid_ascii: "is_ascii xs \<Longrightarrow> utf8_valid xs"
  using utf8_valid_ascii_append[of xs "[]"] by simp

lemma from_utf8_lossy_valid: "utf8_valid bs \<Longrightarrow> from_utf8_lossy bs = bs"
proof (induction bs rule: utf8_valid.induct)
  case (2 c cs)
  then show ?case by (auto split: sum.splits)
qed simp

lemma is_ascii_append [simp]: "is_ascii (xs @ ys) \<longleftrightarrow> is_ascii xs \<and> is_ascii ys"
  by (simp add: is_ascii_def)

lemma is_ascii_Cons: "is_ascii (x # xs) \<longleftrightarrow> byte_val x \<le> 127 \<and> is_ascii xs"
  by (simp add: is_ascii_def in_range_def)

lemma is_ascii_show_nat [simp]: "is_ascii (show_nat n)"
  by (auto simp: is_ascii_def list_all_iff in_range_def is_digit_def dest!: show_nat_digits)

lemma is_ascii_show_int [simp]: "is_ascii (show_int i)"
  by (simp add: show_int_def is_ascii_Cons)

section \<open>Splitting and trimming\<close>

text \<open>\<^verbatim>\<open>s.splitn(2, c)\<close> as its first piece and its optional second piece (also
  \<^verbatim>\<open>s.split_once(c)\<close>, which is \<^verbatim>\<open>None\<close> when the second piece is missing).\<close>

definition splitn2 :: "char \<Rightarrow> bytes \<Rightarrow> bytes \<times> bytes option" where
  "splitn2 c s = (case position ((=) c) s of
     None \<Rightarrow> (s, None) | Some i \<Rightarrow> (take i s, Some (drop (Suc i) s)))"

definition rsplit_once :: "char \<Rightarrow> bytes \<Rightarrow> (bytes \<times> bytes) option" where
  "rsplit_once c s = (case position ((=) c) (rev s) of
     None \<Rightarrow> None
   | Some i \<Rightarrow> Some (take (length s - Suc i) s, drop (length s - i) s))"

fun split_ascii_whitespace_aux :: "bytes \<Rightarrow> bytes \<Rightarrow> bytes list" where
  "split_ascii_whitespace_aux cur [] = (if cur = [] then [] else [cur])"
| "split_ascii_whitespace_aux cur (c # cs) =
     (if c \<in> {CHR '' '', CHR 0x09, LF, CHR 0x0C, CR}
      then (if cur = [] then split_ascii_whitespace_aux [] cs
            else cur # split_ascii_whitespace_aux [] cs)
      else split_ascii_whitespace_aux (cur @ [c]) cs)"

definition split_ascii_whitespace :: "bytes \<Rightarrow> bytes list" where
  "split_ascii_whitespace = split_ascii_whitespace_aux []"

definition strip_cr :: "bytes \<Rightarrow> bytes" where
  "strip_cr s = (if s \<noteq> [] \<and> last s = CR then butlast s else s)"

fun lines_aux :: "bytes \<Rightarrow> bytes \<Rightarrow> bytes list" where
  "lines_aux cur [] = (if cur = [] then [] else [cur])"
| "lines_aux cur (c # cs) =
     (if c = LF then strip_cr cur # lines_aux [] cs else lines_aux (cur @ [c]) cs)"

definition str_lines :: "bytes \<Rightarrow> bytes list" where
  "str_lines = lines_aux []"

text \<open>The encodings of the characters with the Unicode property \<^verbatim>\<open>White_Space\<close>.\<close>

definition white_space :: "bytes list" where
  "white_space =
     [[CHR 0x09], [CHR 0x0A], [CHR 0x0B], [CHR 0x0C], [CHR 0x0D], [CHR 0x20],
      [CHR 0xC2, CHR 0x85], [CHR 0xC2, CHR 0xA0], [CHR 0xE1, CHR 0x9A, CHR 0x80]]
     @ map (\<lambda>k. [CHR 0xE2, CHR 0x80, char_of (0x80 + k :: nat)]) [0..<11]
     @ [[CHR 0xE2, CHR 0x80, CHR 0xA8], [CHR 0xE2, CHR 0x80, CHR 0xA9],
        [CHR 0xE2, CHR 0x80, CHR 0xAF], [CHR 0xE2, CHR 0x81, CHR 0x9F],
        [CHR 0xE3, CHR 0x80, CHR 0x80]]"

function strip_prefixes :: "bytes list \<Rightarrow> bytes \<Rightarrow> bytes" where
  "strip_prefixes ws s =
     (case find (\<lambda>w. w \<noteq> [] \<and> take (length w) s = w) ws of
        None \<Rightarrow> s
      | Some w \<Rightarrow> strip_prefixes ws (drop (length w) s))"
  by pat_completeness auto
termination
proof (relation "measure (\<lambda>(ws, s). length s)", goal_cases)
  case (2 ws s w)
  then have "w \<noteq> []" "take (length w) s = w" by (auto simp: find_Some_iff)
  then show ?case by (cases s) auto
qed simp

declare strip_prefixes.simps [simp del]

definition trim :: "bytes \<Rightarrow> bytes" where
  "trim s = rev (strip_prefixes (map rev white_space) (rev (strip_prefixes white_space s)))"

lemma splitn2_append: "c \<notin> set a \<Longrightarrow> splitn2 c (a @ c # b) = (a, Some b)"
proof -
  assume "c \<notin> set a"
  then have "position ((=) c) (a @ c # b) = Some (length a)"
    by (simp add: position_append position_None[THEN iffD2] split: option.splits)
       (metis option.simps(3) position_None)
  then show ?thesis by (simp add: splitn2_def)
qed

lemma splitn2_none: "c \<notin> set a \<Longrightarrow> splitn2 c a = (a, None)"
  using position_None[of "(=) c" a] by (auto simp: splitn2_def split: option.splits)

lemma rsplit_once_append: "c \<notin> set b \<Longrightarrow> rsplit_once c (a @ c # b) = Some (a, b)"
proof -
  assume "c \<notin> set b"
  then have "position ((=) c) (rev b) = None" by (auto simp: position_None)
  then have "position ((=) c) (rev (a @ c # b)) = Some (length b)"
    by (simp add: position_append)
  then show ?thesis by (simp add: rsplit_once_def)
qed

lemma rsplit_once_None: "rsplit_once c s = None \<longleftrightarrow> c \<notin> set s"
  using position_None[of "(=) c" "rev s"] by (auto simp: rsplit_once_def split: option.splits)

lemma strip_prefixes_id:
  assumes "\<And>w. w \<in> set ws \<Longrightarrow> w \<noteq> [] \<Longrightarrow> hd w \<noteq> hd s" "s \<noteq> []"
  shows "strip_prefixes ws s = s"
proof -
  have "find (\<lambda>w. w \<noteq> [] \<and> take (length w) s = w) ws = None"
    using assms by (fastforce simp: find_None_iff neq_Nil_conv take_Cons split: nat.splits)
  then show ?thesis by (simp add: strip_prefixes.simps)
qed

definition graphic :: "char \<Rightarrow> bool" where
  "graphic c \<longleftrightarrow> in_range 33 126 c"

lemma white_space_ends:
  assumes "w \<in> set white_space"
  shows "\<not> graphic (hd w) \<and> \<not> graphic (last w) \<and> w \<noteq> []"
  using assms by (auto simp: white_space_def graphic_def in_range_def upt_rec)

lemma trim_graphic: "s \<noteq> [] \<Longrightarrow> graphic (hd s) \<Longrightarrow> graphic (last s) \<Longrightarrow> trim s = s"
proof -
  assume s: "s \<noteq> []" "graphic (hd s)" "graphic (last s)"
  have 1: "strip_prefixes white_space s = s"
    by (rule strip_prefixes_id) (metis s(2) white_space_ends, rule s(1))
  have 2: "strip_prefixes (map rev white_space) (rev s) = rev s"
  proof (rule strip_prefixes_id)
    fix w
    assume "w \<in> set (map rev white_space)"
    then obtain v where "v \<in> set white_space" "w = rev v" by auto
    with s white_space_ends[of v] show "hd w \<noteq> hd (rev s)" by (auto simp: hd_rev)
  qed (use s in simp)
  show "trim s = s" by (simp add: trim_def 1 2)
qed

lemma is_digit_graphic: "is_digit c \<Longrightarrow> graphic c"
  by (auto simp: is_digit_def graphic_def in_range_def)

lemma trim_show_int [simp]: "trim (show_int i) = show_int i"
proof (rule trim_graphic)
  have d: "is_digit (last (show_nat n)) \<and> is_digit (hd (show_nat n))" for n
    using show_nat_digits[of "last (show_nat n)" n] show_nat_digits[of "hd (show_nat n)" n] by simp
  show "show_int i \<noteq> []" by (simp add: show_int_def)
  show "graphic (hd (show_int i))"
    using d is_digit_graphic by (auto simp: show_int_def graphic_def in_range_def)
  show "graphic (last (show_int i))"
    using d is_digit_graphic by (auto simp: show_int_def)
qed

lemma split_ascii_whitespace_aux_word:
  assumes "\<forall>c \<in> set w. graphic c" "cur @ w \<noteq> []"
  shows "split_ascii_whitespace_aux cur (w @ CHR '' '' # rest) =
           (cur @ w) # split_ascii_whitespace_aux [] rest"
  using assms
proof (induction w arbitrary: cur)
  case (Cons c w)
  then have "c \<notin> {CHR '' '', CHR 0x09, LF, CHR 0x0C, CR}"
    by (auto simp: graphic_def in_range_def)
  with Cons show ?case by simp
qed simp

lemma split_ascii_whitespace_aux_last:
  assumes "\<forall>c \<in> set w. graphic c" "cur @ w \<noteq> []"
  shows "split_ascii_whitespace_aux cur w = [cur @ w]"
  using assms
proof (induction w arbitrary: cur)
  case (Cons c w)
  then have "c \<notin> {CHR '' '', CHR 0x09, LF, CHR 0x0C, CR}"
    by (auto simp: graphic_def in_range_def)
  with Cons show ?case by simp
qed simp

section \<open>Numeric casts\<close>

text \<open>\<^verbatim>\<open>x as iN\<close> / \<^verbatim>\<open>x as uN\<close> of a 64-bit float, given by its IEEE 754 bit pattern: truncation
  towards zero, saturating at the bounds of the target, zero for NaN.\<close>

definition f64_to_int :: "int \<Rightarrow> int \<Rightarrow> f64 \<Rightarrow> int" where
  "f64_to_int lo hi w =
     (let neg = bit w 63;
          e = unat (drop_bit 52 w) mod 2048;
          m = unat (take_bit 52 w);
          mant = (if e = 0 then m else m + 2 ^ 52);
          mag = (if 1075 \<le> e then int mant * 2 ^ (e - 1075) else int (mant div 2 ^ (1075 - e)))
      in if e = 2047 then (if m \<noteq> 0 then 0 else if neg then lo else hi)
         else max lo (min hi (if neg then - mag else mag)))"

text \<open>\<^verbatim>\<open>x as iN\<close> of an integer: the value modulo \<open>2 ^ w\<close>, read in two's complement for the
  signed targets.\<close>

definition int_cast :: "bool \<Rightarrow> nat \<Rightarrow> int \<Rightarrow> int" where
  "int_cast sgnd w i =
     (let u = i mod 2 ^ w in if sgnd \<and> 2 ^ (w - 1) \<le> u then u - 2 ^ w else u)"

lemma int_cast_unsigned_id: "0 \<le> i \<Longrightarrow> i < 2 ^ w \<Longrightarrow> int_cast False w i = i"
  by (simp add: int_cast_def)

lemma int_cast_signed_id:
  assumes "0 < w" "- (2 ^ (w - 1)) \<le> i" "i < 2 ^ (w - 1)"
  shows "int_cast True w i = i"
proof -
  obtain v where w: "w = Suc v" using assms(1) by (cases w) auto
  show ?thesis
  proof (cases "0 \<le> i")
    case True
    with assms w show ?thesis by (simp add: int_cast_def)
  next
    case False
    have "i mod 2 ^ w = (i + 2 ^ w) mod 2 ^ w" by simp
    also have "\<dots> = i + 2 ^ w"
      using assms w False by (intro mod_pos_pos_trivial) auto
    finally have "i mod 2 ^ w = i + 2 ^ w" .
    with False assms w show ?thesis by (simp add: int_cast_def)
  qed
qed

end
