(* ===== verification/Server_Error.thy ===== *)
theory Server_Error
  imports Rust_Std
begin

text \<open>
  Errors reported by the server: \<^verbatim>\<open>errors/server_error.rs\<close> (kinds, their protocol codes, the
  retry method of each kind) and the classification \<^verbatim>\<open>RetryMethod\<close> of \<^verbatim>\<open>errors/redis_error.rs\<close>.
\<close>

datatype RetryMethod =
    Reconnect
  | NoRetry
  | RetryImmediately
  | WaitAndRetry
  | AskRedirect
  | MovedRedirect
  | ReconnectFromInitialConnections
  | RefreshSlotsAndRetry

datatype ServerErrorKind =
    ResponseError
  | ExecAbort
  | BusyLoading
  | NoScript
  | Moved
  | Ask
  | TryAgain
  | ClusterDown
  | CrossSlot
  | MasterDown
  | ReadOnly
  | NotBusy
  | NoSub
  | NoPerm

fun kind_code :: "ServerErrorKind \<Rightarrow> bytes" where
  "kind_code ResponseError = ''ERR''"
| "kind_code ExecAbort = ''EXECABORT''"
| "kind_code BusyLoading = ''LOADING''"
| "kind_code NoScript = ''NOSCRIPT''"
| "kind_code Moved = ''MOVED''"
| "kind_code Ask = ''ASK''"
| "kind_code TryAgain = ''TRYAGAIN''"
| "kind_code ClusterDown = ''CLUSTERDOWN''"
| "kind_code CrossSlot = ''CROSSSLOT''"
| "kind_code MasterDown = ''MASTERDOWN''"
| "kind_code ReadOnly = ''READONLY''"
| "kind_code NotBusy = ''NOTBUSY''"
| "kind_code NoSub = ''NOSUB''"
| "kind_code NoPerm = ''NOPERM''"

definition kind_retry_method :: "ServerErrorKind \<Rightarrow> RetryMethod" where
  "kind_retry_method k = (case k of
     Moved \<Rightarrow> MovedRedirect
   | Ask \<Rightarrow> AskRedirect
   | TryAgain \<Rightarrow> WaitAndRetry
   | MasterDown \<Rightarrow> WaitAndRetry
   | ClusterDown \<Rightarrow> WaitAndRetry
   | BusyLoading \<Rightarrow> WaitAndRetry
   | ReadOnly \<Rightarrow> RefreshSlotsAndRetry
   | ResponseError \<Rightarrow> NoRetry
   | ExecAbort \<Rightarrow> NoRetry
   | NoScript \<Rightarrow> NoRetry
   | CrossSlot \<Rightarrow> NoRetry
   | NotBusy \<Rightarrow> NoRetry
   | NoSub \<Rightarrow> NoRetry
   | NoPerm \<Rightarrow> NoRetry)"

datatype ServerError =
    Extension bytes "bytes option"
  | Known ServerErrorKind "bytes option"

definition se_kind :: "ServerError \<Rightarrow> ServerErrorKind option" where
  "se_kind e = (case e of Extension _ _ \<Rightarrow> None | Known k _ \<Rightarrow> Some k)"

definition se_code :: "ServerError \<Rightarrow> bytes" where
  "se_code e = (case e of Extension c _ \<Rightarrow> c | Known k _ \<Rightarrow> kind_code k)"

definition se_details :: "ServerError \<Rightarrow> bytes option" where
  "se_details e = (case e of Extension _ d \<Rightarrow> d | Known _ d \<Rightarrow> d)"

definition requires_action :: "ServerError \<Rightarrow> bool" where
  "requires_action e \<longleftrightarrow>
     (case map_option kind_retry_method (se_kind e) of
        None \<Rightarrow> NoRetry | Some m \<Rightarrow> m) \<noteq> NoRetry"

lemma kind_code_inj: "kind_code k = kind_code k' \<longleftrightarrow> k = k'"
  by (cases k; cases k') simp_all

lemma kind_code_no_space: "CHR '' '' \<notin> set (kind_code k)"
  by (cases k) simp_all

lemma requires_action_iff:
  "requires_action e \<longleftrightarrow>
     se_kind e \<in> Some ` {Moved, Ask, TryAgain, MasterDown, ClusterDown, BusyLoading, ReadOnly}"
  by (cases e; rename_tac a b; case_tac a)
     (auto simp: requires_action_def se_kind_def kind_retry_method_def)

end
