(* ===== verification/Redis_Value.thy ===== *)
theory Redis_Value
  imports Server_Error
begin

text \<open>
  The reply values of \<^verbatim>\<open>types.rs\<close>: the \<^verbatim>\<open>Value\<close> enumeration with its push kinds and verbatim
  formats, their textual forms, and the structural queries of \<^verbatim>\<open>impl Value\<close>.  The build without
  the \<^verbatim>\<open>num-bigint\<close> feature is modelled, where a big number is its bytes.
\<close>

datatype VerbatimFormat = UnknownFormat bytes | Markdown | TextFormat

datatype PushKind =
    Disconnection
  | OtherPush bytes
  | Invalidate
  | Message
  | PMessage
  | SMessage
  | Unsubscribe
  | PUnsubscribe
  | SUnsubscribe
  | Subscribe
  | PSubscribe
  | SSubscribe

datatype Value =
    VNil
  | VInt i64
  | BulkString bytes
  | VArray "Value list"
  | SimpleString bytes
  | Okay
  | VMap "(Value \<times> Value) list"
  | VAttribute Value "(Value \<times> Value) list"
  | VSet "Value list"
  | VDouble f64
  | VBoolean bool
  | VerbatimString VerbatimFormat bytes
  | BigNumber bytes
  | VPush PushKind "Value list"
  | VServerError ServerError

definition has_reply :: "PushKind \<Rightarrow> bool" where
  "has_reply k \<longleftrightarrow>
     k \<in> {Unsubscribe, PUnsubscribe, SUnsubscribe, Subscribe, PSubscribe, SSubscribe}"

fun verbatim_format_text :: "VerbatimFormat \<Rightarrow> bytes" where
  "verbatim_format_text Markdown = ''mkd''"
| "verbatim_format_text (UnknownFormat v) = v"
| "verbatim_format_text TextFormat = ''txt''"

fun push_kind_text :: "PushKind \<Rightarrow> bytes" where
  "push_kind_text (OtherPush kind) = kind"
| "push_kind_text Invalidate = ''invalidate''"
| "push_kind_text Message = ''message''"
| "push_kind_text PMessage = ''pmessage''"
| "push_kind_text SMessage = ''smessage''"
| "push_kind_text Unsubscribe = ''unsubscribe''"
| "push_kind_text PUnsubscribe = ''punsubscribe''"
| "push_kind_text SUnsubscribe = ''sunsubscribe''"
| "push_kind_text Subscribe = ''subscribe''"
| "push_kind_text PSubscribe = ''psubscribe''"
| "push_kind_text SSubscribe = ''ssubscribe''"
| "push_kind_text Disconnection = ''disconnection''"

section \<open>Structural queries\<close>

definition looks_like_cursor :: "Value \<Rightarrow> bool" where
  "looks_like_cursor v = (case v of
     VArray items \<Rightarrow>
       (if length items \<noteq> 2 then False
        else (case items ! 0 of BulkString _ \<Rightarrow> True | _ \<Rightarrow> False) \<and>
             (case items ! 1 of VArray _ \<Rightarrow> True | _ \<Rightarrow> False))
   | _ \<Rightarrow> False)"

definition as_sequence :: "Value \<Rightarrow> Value list option" where
  "as_sequence v = (case v of
     VArray items \<Rightarrow> Some items | VSet items \<Rightarrow> Some items | VNil \<Rightarrow> Some [] | _ \<Rightarrow> None)"

definition into_sequence :: "Value \<Rightarrow> Value + Value list" where
  "into_sequence v = (case v of
     VArray items \<Rightarrow> Inr items | VSet items \<Rightarrow> Inr items | VNil \<Rightarrow> Inr [] | _ \<Rightarrow> Inl v)"

text \<open>The pairs a \<^verbatim>\<open>MapIter\<close>/\<^verbatim>\<open>OwnedMapIter\<close> over a flat array yields: two elements per step,
  ending at the first incomplete pair.\<close>

fun array_pairs :: "'a list \<Rightarrow> ('a \<times> 'a) list" where
  "array_pairs (k # v # rest) = (k, v) # array_pairs rest"
| "array_pairs _ = []"

definition as_map_iter :: "Value \<Rightarrow> (Value \<times> Value) list option" where
  "as_map_iter v = (case v of
     VArray items \<Rightarrow> (if length items mod 2 = 0 then Some (array_pairs items) else None)
   | VMap items \<Rightarrow> Some items
   | _ \<Rightarrow> None)"

definition into_map_iter :: "Value \<Rightarrow> Value + (Value \<times> Value) list" where
  "into_map_iter v = (case v of
     VArray items \<Rightarrow> (if length items mod 2 = 0 then Inr (array_pairs items) else Inl (VArray items))
   | VMap items \<Rightarrow> Inr items
   | _ \<Rightarrow> Inl v)"

definition is_collection_of_len :: "Value \<Rightarrow> nat \<Rightarrow> bool" where
  "is_collection_of_len v len = (case v of
     VArray values \<Rightarrow> length values = len
   | VSet values \<Rightarrow> length values = len
   | VMap items \<Rightarrow> length items * 2 = len
   | _ \<Rightarrow> False)"

definition is_error_that_requires_action :: "Value \<Rightarrow> bool" where
  "is_error_that_requires_action v = (case v of VServerError e \<Rightarrow> requires_action e | _ \<Rightarrow> False)"

text \<open>\<^verbatim>\<open>get_inner_value\<close> and \<^verbatim>\<open>get_owned_inner_value\<close>: the data of an attribute.\<close>

definition get_inner_value :: "Value \<Rightarrow> Value" where
  "get_inner_value v = (case v of VAttribute d _ \<Rightarrow> d | _ \<Rightarrow> v)"

section \<open>Shared facts\<close>

fun flatten_pairs :: "('a \<times> 'a) list \<Rightarrow> 'a list" where
  "flatten_pairs [] = []"
| "flatten_pairs ((k, v) # ps) = k # v # flatten_pairs ps"

lemma length_flatten_pairs [simp]: "length (flatten_pairs ps) = 2 * length ps"
  by (induction ps rule: flatten_pairs.induct) auto

lemma array_pairs_flatten [simp]: "array_pairs (flatten_pairs ps) = ps"
  by (induction ps rule: flatten_pairs.induct) auto

lemma flatten_array_pairs: "even (length xs) \<Longrightarrow> flatten_pairs (array_pairs xs) = xs"
  by (induction xs rule: array_pairs.induct) auto

lemma into_sequence_as_sequence:
  "as_sequence v = (case into_sequence v of Inl _ \<Rightarrow> None | Inr xs \<Rightarrow> Some xs)"
  by (cases v) (auto simp: as_sequence_def into_sequence_def)

lemma into_map_iter_as_map_iter:
  "as_map_iter v = (case into_map_iter v of Inl _ \<Rightarrow> None | Inr xs \<Rightarrow> Some xs)"
  by (cases v) (auto simp: as_map_iter_def into_map_iter_def)

lemma into_map_iter_Inl: "into_map_iter v = Inl w \<Longrightarrow> w = v"
  by (cases v) (auto simp: into_map_iter_def split: if_splits)

end
