(* ===== verification/To_Args.thy ===== *)
theory To_Args
  imports Redis_Value
begin

text \<open>
  Argument serialisation of \<^verbatim>\<open>types.rs\<close>: the \<^verbatim>\<open>RedisWrite\<close> sink and the \<^verbatim>\<open>ToRedisArgs\<close> trait.

  A trait is modelled by dictionary passing.  An \<^verbatim>\<open>impl ToRedisArgs for T\<close> is a record of the
  trait's methods, the impls that are generic in an element type are functions between such
  records, and each takes the sink's \<^verbatim>\<open>write_arg\<close> as its first argument, as the source is generic
  in \<^verbatim>\<open>W: RedisWrite\<close>.  The locale \<open>redis_write\<close> is the contract of a sink; it is interpreted
  here for \<^verbatim>\<open>Vec<Vec<u8>>\<close> and in the theory of commands for \<^verbatim>\<open>Cmd\<close>.  Writing can panic: the
  \<^verbatim>\<open>assert!\<close> in the map impls.
\<close>

datatype NumericBehavior = NonNumeric | NumberIsInteger | NumberIsFloat

record ('a, 'w) to_redis_args =
  write_redis_args :: "'a \<Rightarrow> 'w \<Rightarrow> 'w run"
  describe_numeric_behavior :: "'a \<Rightarrow> NumericBehavior"
  num_of_args :: "'a \<Rightarrow> nat"
  write_args_from_slice :: "'a list \<Rightarrow> 'w \<Rightarrow> 'w run"
  is_single_vec_arg :: "'a list \<Rightarrow> bool"

text \<open>The methods a trait impl inherits when it does not override them.\<close>

fun make_arg_iter_ref :: "('a \<Rightarrow> 'w \<Rightarrow> 'w run) \<Rightarrow> 'a list \<Rightarrow> 'w \<Rightarrow> 'w run" where
  "make_arg_iter_ref wr [] out = Ret out"
| "make_arg_iter_ref wr (item # items) out = run_bind (wr item out) (make_arg_iter_ref wr items)"

definition default_is_single_vec_arg :: "('a \<Rightarrow> nat) \<Rightarrow> 'a list \<Rightarrow> bool" where
  "default_is_single_vec_arg n items \<longleftrightarrow> length items = 1 \<and> n (items ! 0) \<le> 1"

definition to_redis_args_impl ::
    "('a \<Rightarrow> 'w \<Rightarrow> 'w run) \<Rightarrow> ('a \<Rightarrow> NumericBehavior) \<Rightarrow> ('a \<Rightarrow> nat) \<Rightarrow> ('a, 'w) to_redis_args" where
  "to_redis_args_impl wr num n =
     \<lparr>write_redis_args = wr, describe_numeric_behavior = num, num_of_args = n,
      write_args_from_slice = make_arg_iter_ref wr,
      is_single_vec_arg = default_is_single_vec_arg n\<rparr>"

section \<open>Implementations\<close>

text \<open>Integers other than \<^verbatim>\<open>u8\<close> are printed by the \<^verbatim>\<open>itoa\<close> crate, a parameter here; the value
  stands for any of the integer types, the \<^verbatim>\<open>NonZero\<close> ones included.  Floats are printed by
  \<^verbatim>\<open>ryu\<close>.\<close>

definition to_args_int :: "(int \<Rightarrow> bytes) \<Rightarrow> ('w \<Rightarrow> bytes \<Rightarrow> 'w) \<Rightarrow> (int, 'w) to_redis_args" where
  "to_args_int itoa write_arg =
     to_redis_args_impl (\<lambda>x out. Ret (write_arg out (itoa x))) (\<lambda>_. NumberIsInteger) (\<lambda>_. 1)"

definition to_args_float :: "(f64 \<Rightarrow> bytes) \<Rightarrow> ('w \<Rightarrow> bytes \<Rightarrow> 'w) \<Rightarrow> (f64, 'w) to_redis_args" where
  "to_args_float ryu write_arg =
     to_redis_args_impl (\<lambda>x out. Ret (write_arg out (ryu x))) (\<lambda>_. NumberIsFloat) (\<lambda>_. 1)"

definition to_args_u8 :: "(int \<Rightarrow> bytes) \<Rightarrow> ('w \<Rightarrow> bytes \<Rightarrow> 'w) \<Rightarrow> (char, 'w) to_redis_args" where
  "to_args_u8 itoa write_arg =
     \<lparr>write_redis_args = (\<lambda>x out. Ret (write_arg out (itoa (int (byte_val x))))),
      describe_numeric_behavior = (\<lambda>_. NonNumeric), num_of_args = (\<lambda>_. 1),
      write_args_from_slice = (\<lambda>items out. Ret (write_arg out items)),
      is_single_vec_arg = (\<lambda>_. True)\<rparr>"

definition to_args_bool :: "('w \<Rightarrow> bytes \<Rightarrow> 'w) \<Rightarrow> (bool, 'w) to_redis_args" where
  "to_args_bool write_arg =
     to_redis_args_impl (\<lambda>b out. Ret (write_arg out (if b then ''1'' else ''0'')))
       (\<lambda>_. NonNumeric) (\<lambda>_. 1)"

definition to_args_string :: "('w \<Rightarrow> bytes \<Rightarrow> 'w) \<Rightarrow> (bytes, 'w) to_redis_args" where
  "to_args_string write_arg =
     to_redis_args_impl (\<lambda>s out. Ret (write_arg out s)) (\<lambda>_. NonNumeric) (\<lambda>_. 1)"

definition to_args_option :: "('a, 'w) to_redis_args \<Rightarrow> ('a option, 'w) to_redis_args" where
  "to_args_option d =
     to_redis_args_impl
       (\<lambda>v out. case v of Some x \<Rightarrow> write_redis_args d x out | None \<Rightarrow> Ret out)
       (\<lambda>v. case v of Some x \<Rightarrow> describe_numeric_behavior d x | None \<Rightarrow> NonNumeric)
       (\<lambda>v. case v of Some x \<Rightarrow> num_of_args d x | None \<Rightarrow> 0)"

text \<open>Slices, vectors, boxed and shared slices, and references to arrays.\<close>

definition to_args_vec :: "('a, 'w) to_redis_args \<Rightarrow> ('a list, 'w) to_redis_args" where
  "to_args_vec d =
     to_redis_args_impl (write_args_from_slice d) (\<lambda>_. NonNumeric)
       (\<lambda>items. if is_single_vec_arg d items then 1
                else if length items = 1 then num_of_args d (items ! 0)
                else length items)"

text \<open>Sets and maps are given as the sequence their iterator yields.\<close>

definition to_args_set :: "('a, 'w) to_redis_args \<Rightarrow> ('a list, 'w) to_redis_args" where
  "to_args_set d =
     to_redis_args_impl (make_arg_iter_ref (write_redis_args d)) (\<lambda>_. NonNumeric) length"

definition to_args_map ::
    "('k, 'w) to_redis_args \<Rightarrow> ('v, 'w) to_redis_args \<Rightarrow> (('k \<times> 'v) list, 'w) to_redis_args" where
  "to_args_map dk dv =
     to_redis_args_impl
       (make_arg_iter_ref (\<lambda>(key, value) out.
          if num_of_args dk key \<le> 1 \<and> num_of_args dv value \<le> 1
          then run_bind (write_redis_args dk key out) (write_redis_args dv value)
          else Panic))
       (\<lambda>_. NonNumeric) length"

text \<open>The tuple macro at two and three components.\<close>

definition to_args_pair ::
    "('a, 'w) to_redis_args \<Rightarrow> ('b, 'w) to_redis_args \<Rightarrow> ('a \<times> 'b, 'w) to_redis_args" where
  "to_args_pair d1 d2 =
     to_redis_args_impl
       (\<lambda>(t1, t2) out. run_bind (write_redis_args d1 t1 out) (write_redis_args d2 t2))
       (\<lambda>_. NonNumeric) (\<lambda>_. 2)"

definition to_args_triple ::
    "('a, 'w) to_redis_args \<Rightarrow> ('b, 'w) to_redis_args \<Rightarrow> ('c, 'w) to_redis_args \<Rightarrow>
     ('a \<times> 'b \<times> 'c, 'w) to_redis_args" where
  "to_args_triple d1 d2 d3 =
     to_redis_args_impl
       (\<lambda>(t1, t2, t3) out.
          run_bind (write_redis_args d1 t1 out) (\<lambda>out1.
          run_bind (write_redis_args d2 t2 out1) (write_redis_args d3 t3)))
       (\<lambda>_. NonNumeric) (\<lambda>_. 3)"

section \<open>The sink for \<^verbatim>\<open>Vec<Vec<u8>>\<close>\<close>

definition vec_write_arg :: "bytes list \<Rightarrow> bytes \<Rightarrow> bytes list" where
  "vec_write_arg out arg = out @ [arg]"

text \<open>\<^verbatim>\<open>write_arg_fmt\<close> receives the text the argument's \<^verbatim>\<open>Display\<close> impl produces.\<close>

definition vec_write_arg_fmt :: "bytes list \<Rightarrow> bytes \<Rightarrow> bytes list" where
  "vec_write_arg_fmt out text = out @ [text]"

text \<open>\<^verbatim>\<open>writer_for_next_arg\<close> with the buffers that are written to the returned writer: an empty
  vector is pushed, and each \<^verbatim>\<open>write\<close> extends the last vector.\<close>

definition vec_writer_for_next_arg :: "bytes list \<Rightarrow> bytes list \<Rightarrow> bytes list" where
  "vec_writer_for_next_arg out bufs =
     foldl (\<lambda>o' buf. butlast o' @ [last o' @ buf]) (out @ [[]]) bufs"

definition to_redis_args_of :: "('a, bytes list) to_redis_args \<Rightarrow> 'a \<Rightarrow> bytes list run" where
  "to_redis_args_of d x = write_redis_args d x []"

section \<open>Contract of a sink\<close>

lemma map_run_eq_Ret: "map_run f m = Ret y \<longleftrightarrow> (\<exists>x. m = Ret x \<and> f x = y)"
  by (cases m) auto

lemma map_run_eq_Panic: "map_run f m = Panic \<longleftrightarrow> m = Panic"
  by (cases m) auto

fun concat_run :: "'a list run list \<Rightarrow> 'a list run" where
  "concat_run [] = Ret []"
| "concat_run (m # ms) = run_bind m (\<lambda>xs. map_run (\<lambda>ys. xs @ ys) (concat_run ms))"

lemma concat_run_Ret: "concat_run (map (\<lambda>x. Ret (f x)) xs) = Ret (concat (map f xs))"
  by (induction xs) auto

locale redis_write =
  fixes write_arg :: "'w \<Rightarrow> bytes \<Rightarrow> 'w"
    and write_arg_fmt :: "'w \<Rightarrow> bytes \<Rightarrow> 'w"
    and writer_for_next_arg :: "'w \<Rightarrow> bytes list \<Rightarrow> 'w"
    and inv :: "'w \<Rightarrow> bool"
    and args_of :: "'w \<Rightarrow> 'b list"
    and simple :: "bytes \<Rightarrow> 'b"
  assumes inv_write_arg: "inv w \<Longrightarrow> inv (write_arg w a)"
    and inv_write_arg_fmt: "inv w \<Longrightarrow> inv (write_arg_fmt w a)"
    and inv_writer: "inv w \<Longrightarrow> inv (writer_for_next_arg w bufs)"
    and args_write_arg: "inv w \<Longrightarrow> args_of (write_arg w a) = args_of w @ [simple a]"
    and args_write_arg_fmt: "inv w \<Longrightarrow> args_of (write_arg_fmt w a) = args_of w @ [simple a]"
    and args_writer:
      "inv w \<Longrightarrow> args_of (writer_for_next_arg w bufs) = args_of w @ [simple (concat bufs)]"
begin

text \<open>\<open>writes wr f\<close>: the writing method \<open>wr\<close> appends the arguments \<open>f x\<close> of a value \<open>x\<close> to any
  sink, keeps the sink well formed, and panics exactly when \<open>f x\<close> does.\<close>

definition writes :: "('a \<Rightarrow> 'w \<Rightarrow> 'w run) \<Rightarrow> ('a \<Rightarrow> bytes list run) \<Rightarrow> bool" where
  "writes wr f \<longleftrightarrow>
     (\<forall>x w. inv w \<longrightarrow>
        (case f x of
           Panic \<Rightarrow> wr x w = Panic
         | Ret as \<Rightarrow> (\<exists>w'. wr x w = Ret w' \<and> inv w' \<and> args_of w' = args_of w @ map simple as)))"

lemma writesI [intro?]:
  assumes "\<And>x w. inv w \<Longrightarrow> f x = Panic \<Longrightarrow> wr x w = Panic"
    and "\<And>x w as. inv w \<Longrightarrow> f x = Ret as \<Longrightarrow>
           \<exists>w'. wr x w = Ret w' \<and> inv w' \<and> args_of w' = args_of w @ map simple as"
  shows "writes wr f"
  unfolding writes_def using assms by (auto split: run.split)

lemma writesD_Ret:
  "writes wr f \<Longrightarrow> inv w \<Longrightarrow> f x = Ret as \<Longrightarrow>
     \<exists>w'. wr x w = Ret w' \<and> inv w' \<and> args_of w' = args_of w @ map simple as"
  unfolding writes_def by (drule spec [of _ x], drule spec [of _ w]) simp

lemma writesD_Panic: "writes wr f \<Longrightarrow> inv w \<Longrightarrow> f x = Panic \<Longrightarrow> wr x w = Panic"
  unfolding writes_def by (drule spec [of _ x], drule spec [of _ w]) simp

lemma writes_one: "writes (\<lambda>x out. Ret (write_arg out (t x))) (\<lambda>x. Ret [t x])"
  by (rule writesI) (auto simp: inv_write_arg args_write_arg)

lemma writes_none: "writes (\<lambda>x out. Ret out) (\<lambda>x. Ret [])"
  by (rule writesI) auto

lemma writes_seq:
  assumes "writes wr1 f1" "writes wr2 f2"
  shows "writes (\<lambda>x out. run_bind (wr1 (p x) out) (wr2 (q x))) (\<lambda>x. concat_run [f1 (p x), f2 (q x)])"
proof (rule writesI)
  fix x w assume w: "inv w" and p: "concat_run [f1 (p x), f2 (q x)] = Panic"
  show "run_bind (wr1 (p x) w) (wr2 (q x)) = Panic"
  proof (cases "f1 (p x)")
    case Panic
    then show ?thesis by (simp add: writesD_Panic [OF assms(1) w])
  next
    case (Ret as)
    with p have "f2 (q x) = Panic" by (cases "f2 (q x)") auto
    moreover obtain w' where "wr1 (p x) w = Ret w'" "inv w'"
      using writesD_Ret [OF assms(1) w Ret] by blast
    ultimately show ?thesis by (simp add: writesD_Panic [OF assms(2)])
  qed
next
  fix x w as assume w: "inv w" and p: "concat_run [f1 (p x), f2 (q x)] = Ret as"
  then obtain as1 as2 where f: "f1 (p x) = Ret as1" "f2 (q x) = Ret as2" "as = as1 @ as2"
    by (auto simp: run_bind_eq_Ret map_run_eq_Ret)
  obtain w1 where w1: "wr1 (p x) w = Ret w1" "inv w1" "args_of w1 = args_of w @ map simple as1"
    using writesD_Ret [OF assms(1) w f(1)] by blast
  obtain w2 where "wr2 (q x) w1 = Ret w2" "inv w2" "args_of w2 = args_of w1 @ map simple as2"
    using writesD_Ret [OF assms(2) w1(2) f(2)] by blast
  then show "\<exists>w'. run_bind (wr1 (p x) w) (wr2 (q x)) = Ret w' \<and> inv w' \<and>
               args_of w' = args_of w @ map simple as"
    by (simp add: w1 f(3))
qed

lemma writes_iter:
  assumes "writes wr f"
  shows "writes (make_arg_iter_ref wr) (\<lambda>xs. concat_run (map f xs))"
proof -
  have "case concat_run (map f xs) of
          Panic \<Rightarrow> make_arg_iter_ref wr xs w = Panic
        | Ret as \<Rightarrow> \<exists>w'. make_arg_iter_ref wr xs w = Ret w' \<and> inv w' \<and>
                       args_of w' = args_of w @ map simple as" if "inv w" for xs w
    using that
  proof (induction xs arbitrary: w)
    case Nil
    then show ?case by simp
  next
    case (Cons x xs)
    show ?case
    proof (cases "f x")
      case Panic
      then show ?thesis by (simp add: writesD_Panic [OF assms Cons.prems])
    next
      case (Ret as)
      then obtain w1 where w1: "wr x w = Ret w1" "inv w1" "args_of w1 = args_of w @ map simple as"
        using writesD_Ret [OF assms Cons.prems] by blast
      from Cons.IH [OF w1(2)] show ?thesis
        by (auto simp: Ret w1 split: run.splits simp: map_run_eq_Panic map_run_eq_Ret)
    qed
  qed
  then show ?thesis by (simp add: writes_def)
qed

lemma writes_if:
  assumes "writes wr f"
  shows "writes (\<lambda>x out. if c x then wr x out else Panic) (\<lambda>x. if c x then f x else Panic)"
  using assms by (auto simp: writes_def)

lemma writes_option:
  assumes "writes wr f"
  shows "writes (\<lambda>v out. case v of Some x \<Rightarrow> wr x out | None \<Rightarrow> Ret out)
           (\<lambda>v. case v of Some x \<Rightarrow> f x | None \<Rightarrow> Ret [])"
  using assms by (auto simp: writes_def split: option.split)

lemmas writes_intros = writes_one writes_none writes_iter writes_option writes_seq writes_if

end

lemma vec_writer_for_next_arg_eq: "vec_writer_for_next_arg out bufs = out @ [concat bufs]"
proof -
  have "foldl (\<lambda>o' buf. butlast o' @ [last o' @ buf]) (out @ [a]) bufs = out @ [a @ concat bufs]" for a
    by (induction bufs arbitrary: a) auto
  from this [of "[]"] show ?thesis by (simp add: vec_writer_for_next_arg_def)
qed

interpretation vec_sink: redis_write vec_write_arg vec_write_arg_fmt vec_writer_for_next_arg
    "\<lambda>_. True" "\<lambda>w. w" "\<lambda>a. a"
  by unfold_locales
     (simp_all add: vec_write_arg_def vec_write_arg_fmt_def vec_writer_for_next_arg_eq)

lemma vec_sink_writes_iff:
  "vec_sink.writes wr f \<longleftrightarrow> (\<forall>x w. wr x w = map_run (\<lambda>as. w @ as) (f x))"
proof -
  have "(case f x of Panic \<Rightarrow> wr x w = Panic
         | Ret as \<Rightarrow> \<exists>w'. wr x w = Ret w' \<and> True \<and> w' = w @ map (\<lambda>a. a) as) \<longleftrightarrow>
        wr x w = map_run (\<lambda>as. w @ as) (f x)" for x w
    by (cases "f x") simp_all
  then show ?thesis unfolding vec_sink.writes_def by (simp only: True_implies_equals simp_thms)
qed

end
