(* ===== verification/Redis_Error.thy ===== *)
theory Redis_Error
  imports Redis_Value
begin

text \<open>
  Client-side errors: \<^verbatim>\<open>errors/parsing_error.rs\<close> and \<^verbatim>\<open>errors/redis_error.rs\<close>, and the extraction
  of server errors out of a reply (\<^verbatim>\<open>Value::extract_error\<close> of \<^verbatim>\<open>types.rs\<close>).

  The text of a \<^verbatim>\<open>ParsingError\<close> is kept as the format arguments it is built from
  (\<open>InvalidType\<close> is \<^verbatim>\<open>invalid_type_error!(value, detail)\<close>, \<open>CannotConvertUtf8\<close> and
  \<open>InteriorNul\<close> leave out the position the standard library adds, \<open>ShownServerError\<close> is the
  \<^verbatim>\<open>to_string\<close> of a server error); how the text is laid out is
  not modelled.  \<^verbatim>\<open>Arc<dyn Error>\<close> is \<open>dyn_error\<close>: what \<^verbatim>\<open>downcast_ref::<io::Error>\<close> can tell apart.
\<close>

datatype io_kind =
    NotFound | PermissionDenied | ConnectionRefused | ConnectionReset | ConnectionAborted
  | NotConnected | AddrInUse | AddrNotAvailable | BrokenPipe | AlreadyExists | WouldBlock
  | InvalidInput | InvalidData | TimedOut | WriteZero | Interrupted | Unsupported
  | UnexpectedEof | OutOfMemory | OtherIo

datatype dyn_error = IoError io_kind bytes | OtherError bytes

datatype debugged = DebugValue Value | DebugValues "Value list"

datatype ParsingError =
    Described bytes
  | InvalidType debugged bytes
  | InvalidUtf8
  | CannotConvertUtf8
  | InteriorNul
  | StreamParse bytes
  | ShownServerError ServerError

datatype ErrorKind =
    Parse
  | AuthenticationFailed
  | UnexpectedReturnType
  | InvalidClientConfig
  | Io
  | Client
  | ExtensionKind
  | MasterNameNotFoundBySentinel
  | NoValidReplicasFoundBySentinel
  | EmptySentinelList
  | ClusterConnectionNotFound
  | Server ServerErrorKind
  | Serialize
  | RESP3NotSupported

datatype RedisError =
    General ErrorKind bytes "bytes option"
  | Internal ErrorKind dyn_error
  | Parsing ParsingError
  | ServerErr ServerError
  | PipelineErr "(nat \<times> ServerError) list"
  | TransactionAborted "(nat \<times> ServerError) list"

type_synonym 'a redis_result = "RedisError + 'a"
type_synonym 'a parse_result = "ParsingError + 'a"

abbreviation error_of :: "ErrorKind \<Rightarrow> bytes \<Rightarrow> RedisError" where
  "error_of k desc \<equiv> General k desc None"

definition io_error :: "io_kind \<Rightarrow> RedisError" where
  "io_error k = Internal Io (IoError k [])"

definition closed_connection_error :: RedisError where
  "closed_connection_error = io_error BrokenPipe"

definition redis_error_eq :: "RedisError \<Rightarrow> RedisError \<Rightarrow> bool" where
  "redis_error_eq x y = (case (x, y) of
     (General ka _ _, General kb _ _) \<Rightarrow> ka = kb
   | (Parsing a, Parsing b) \<Rightarrow> a = b
   | (ServerErr a, ServerErr b) \<Rightarrow> a = b
   | (PipelineErr a, PipelineErr b) \<Rightarrow> a = b
   | _ \<Rightarrow> False)"

definition error_kind :: "RedisError \<Rightarrow> ErrorKind" where
  "error_kind e = (case e of
     General k _ _ \<Rightarrow> k
   | Internal k _ \<Rightarrow> k
   | Parsing _ \<Rightarrow> Parse
   | ServerErr err \<Rightarrow> (case se_kind err of Some k \<Rightarrow> Server k | None \<Rightarrow> ExtensionKind)
   | PipelineErr items \<Rightarrow>
       (case items of
          [] \<Rightarrow> ExtensionKind
        | (_, err) # _ \<Rightarrow> (case se_kind err of Some k \<Rightarrow> Server k | None \<Rightarrow> ExtensionKind))
   | TransactionAborted _ \<Rightarrow> Server ExecAbort)"

fun parsing_description :: "ParsingError \<Rightarrow> bytes" where
  "parsing_description (Described d) = d"
| "parsing_description (InvalidType _ d) = d"
| "parsing_description InvalidUtf8 = ''Invalid UTF-8''"
| "parsing_description CannotConvertUtf8 = ''Cannot convert from UTF-8''"
| "parsing_description InteriorNul = ''Value contains interior nul terminator''"
| "parsing_description (StreamParse d) = d"
| "parsing_description (ShownServerError e) = se_code e"

definition error_detail :: "RedisError \<Rightarrow> bytes option" where
  "error_detail e = (case e of
     General _ _ d \<Rightarrow> d
   | Parsing err \<Rightarrow> Some (parsing_description err)
   | ServerErr err \<Rightarrow> se_details err
   | _ \<Rightarrow> None)"

definition error_code :: "RedisError \<Rightarrow> bytes option" where
  "error_code e = (case error_kind e of
     Server k \<Rightarrow> Some (kind_code k)
   | _ \<Rightarrow> (case e of ServerErr err \<Rightarrow> Some (se_code err) | _ \<Rightarrow> None))"

fun category :: "ErrorKind \<Rightarrow> bytes" where
  "category (Server ResponseError) = ''response error''"
| "category AuthenticationFailed = ''authentication failed''"
| "category UnexpectedReturnType = ''type error''"
| "category (Server ExecAbort) = ''script execution aborted''"
| "category (Server BusyLoading) = ''busy loading''"
| "category (Server NoScript) = ''no script''"
| "category InvalidClientConfig = ''invalid client config''"
| "category (Server Moved) = ''key moved''"
| "category (Server Ask) = ''key moved (ask)''"
| "category (Server TryAgain) = ''try again''"
| "category (Server ClusterDown) = ''cluster down''"
| "category (Server CrossSlot) = ''cross-slot''"
| "category (Server MasterDown) = ''master down''"
| "category Io = ''I/O error''"
| "category ExtensionKind = ''extension error''"
| "category Client = ''client error''"
| "category (Server ReadOnly) = ''read-only''"
| "category MasterNameNotFoundBySentinel = ''master name not found by sentinel''"
| "category NoValidReplicasFoundBySentinel = ''no valid replicas found by sentinel''"
| "category EmptySentinelList = ''empty sentinel list''"
| "category (Server NotBusy) = ''not busy''"
| "category ClusterConnectionNotFound = ''connection to node in cluster not found''"
| "category Serialize = ''serializing''"
| "category RESP3NotSupported = ''resp3 is not supported by server''"
| "category Parse = ''parse error''"
| "category (Server NoSub) =
     ''Server declined unsubscribe related command in non-subscribed mode''"
| "category (Server NoPerm) = ''''"

definition error_category :: "RedisError \<Rightarrow> bytes" where
  "error_category e = category (error_kind e)"

definition is_io_error :: "RedisError \<Rightarrow> bool" where
  "is_io_error e \<longleftrightarrow> error_kind e = Io"

definition as_io_error :: "RedisError \<Rightarrow> io_kind option" where
  "as_io_error e = (case e of Internal _ (IoError k _) \<Rightarrow> Some k | _ \<Rightarrow> None)"

definition is_cluster_error :: "RedisError \<Rightarrow> bool" where
  "is_cluster_error e \<longleftrightarrow>
     error_kind e \<in> {Server Moved, Server Ask, Server TryAgain, Server ClusterDown}"

text \<open>\<open>unix\<close> is the compile-time condition \<^verbatim>\<open>cfg!(unix)\<close>.\<close>

definition is_connection_refusal :: "bool \<Rightarrow> RedisError \<Rightarrow> bool" where
  "is_connection_refusal unix e = (case as_io_error e of
     Some ConnectionRefused \<Rightarrow> True
   | Some NotFound \<Rightarrow> unix
   | _ \<Rightarrow> False)"

definition is_timeout :: "RedisError \<Rightarrow> bool" where
  "is_timeout e \<longleftrightarrow> as_io_error e \<in> {Some TimedOut, Some WouldBlock}"

definition is_connection_dropped :: "RedisError \<Rightarrow> bool" where
  "is_connection_dropped e = (case e of
     General k _ _ \<Rightarrow> k = Io
   | Internal _ _ \<Rightarrow>
       as_io_error e \<in> Some ` {BrokenPipe, ConnectionReset, ConnectionRefused, ConnectionAborted,
                                UnexpectedEof, NotConnected, NotFound}
   | _ \<Rightarrow> False)"

definition retry_method :: "RedisError \<Rightarrow> RetryMethod" where
  "retry_method e = (case error_kind e of
     Server k \<Rightarrow> kind_retry_method k
   | MasterNameNotFoundBySentinel \<Rightarrow> WaitAndRetry
   | NoValidReplicasFoundBySentinel \<Rightarrow> WaitAndRetry
   | ExtensionKind \<Rightarrow> NoRetry
   | UnexpectedReturnType \<Rightarrow> NoRetry
   | InvalidClientConfig \<Rightarrow> NoRetry
   | Client \<Rightarrow> NoRetry
   | EmptySentinelList \<Rightarrow> NoRetry
   | Serialize \<Rightarrow> NoRetry
   | RESP3NotSupported \<Rightarrow> NoRetry
   | Parse \<Rightarrow> Reconnect
   | AuthenticationFailed \<Rightarrow> Reconnect
   | ClusterConnectionNotFound \<Rightarrow> ReconnectFromInitialConnections
   | Io \<Rightarrow>
       (if is_connection_dropped e then Reconnect
        else (case as_io_error e of
                None \<Rightarrow> NoRetry
              | Some k \<Rightarrow>
                  (if k \<in> {PermissionDenied, Unsupported} then NoRetry else RetryImmediately))))"

definition is_unrecoverable_error :: "RedisError \<Rightarrow> bool" where
  "is_unrecoverable_error e = (case retry_method e of
     Reconnect \<Rightarrow> True
   | ReconnectFromInitialConnections \<Rightarrow> True
   | _ \<Rightarrow> False)"

definition redirect_node :: "RedisError \<Rightarrow> (bytes \<times> nat) option" where
  "redirect_node e =
     (if error_kind e \<notin> {Server Ask, Server Moved} then None
      else Option.bind (error_detail e) (\<lambda>d.
        case split_ascii_whitespace d of
          [] \<Rightarrow> None
        | s # rest \<Rightarrow> Option.bind (parse_unsigned 16 s) (\<lambda>slot_id.
            case rest of [] \<Rightarrow> None | addr # _ \<Rightarrow> Some (addr, slot_id))))"

definition into_server_errors :: "RedisError \<Rightarrow> (nat \<times> ServerError) list option" where
  "into_server_errors e = (case e of
     PipelineErr items \<Rightarrow> Some items
   | TransactionAborted errs \<Rightarrow> Some errs
   | ServerErr err \<Rightarrow> Some [(0, err)]
   | _ \<Rightarrow> None)"

definition make_empty_command :: RedisError where
  "make_empty_command = General Client ''empty command'' None"

definition try_into_server_error :: "RedisError \<Rightarrow> RedisError + ServerError" where
  "try_into_server_error e = (case e of ServerErr err \<Rightarrow> Inr err | _ \<Rightarrow> Inl e)"

section \<open>Extracting server errors from a reply\<close>

function (sequential) extract_error :: "Value \<Rightarrow> Value redis_result"
and extract_error_vec :: "Value list \<Rightarrow> Value list redis_result"
and extract_error_map :: "(Value \<times> Value) list \<Rightarrow> (Value \<times> Value) list redis_result" where
  "extract_error (VArray val) = res_bind (extract_error_vec val) (\<lambda>xs. Inr (VArray xs))"
| "extract_error (VMap m) = res_bind (extract_error_map m) (\<lambda>xs. Inr (VMap xs))"
| "extract_error (VAttribute data attributes) =
     res_bind (extract_error data) (\<lambda>d.
     res_bind (extract_error_map attributes) (\<lambda>a. Inr (VAttribute d a)))"
| "extract_error (VSet s) = res_bind (extract_error_vec s) (\<lambda>xs. Inr (VSet xs))"
| "extract_error (VPush kind data) = res_bind (extract_error_vec data) (\<lambda>xs. Inr (VPush kind xs))"
| "extract_error (VServerError err) = Inl (ServerErr err)"
| "extract_error v = Inr v"
| "extract_error_vec [] = Inr []"
| "extract_error_vec (v # vs) =
     res_bind (extract_error v) (\<lambda>x. res_bind (extract_error_vec vs) (\<lambda>xs. Inr (x # xs)))"
| "extract_error_map [] = Inr []"
| "extract_error_map ((k, v) # m) =
     res_bind (extract_error k) (\<lambda>k'.
     res_bind (extract_error v) (\<lambda>v'.
     res_bind (extract_error_map m) (\<lambda>m'. Inr ((k', v') # m'))))"
  by pat_completeness auto

termination
  by (relation "measure (case_sum size (case_sum (size_list size) (size_list (size_prod size size))))")
     auto

text \<open>Reference: the server errors inside a reply, in the order the code visits them.\<close>

function (sequential) server_errors :: "Value \<Rightarrow> ServerError list"
and server_errors_vec :: "Value list \<Rightarrow> ServerError list"
and server_errors_map :: "(Value \<times> Value) list \<Rightarrow> ServerError list" where
  "server_errors (VArray xs) = server_errors_vec xs"
| "server_errors (VMap m) = server_errors_map m"
| "server_errors (VAttribute d a) = server_errors d @ server_errors_map a"
| "server_errors (VSet xs) = server_errors_vec xs"
| "server_errors (VPush _ xs) = server_errors_vec xs"
| "server_errors (VServerError e) = [e]"
| "server_errors _ = []"
| "server_errors_vec [] = []"
| "server_errors_vec (v # vs) = server_errors v @ server_errors_vec vs"
| "server_errors_map [] = []"
| "server_errors_map ((k, v) # m) = server_errors k @ server_errors v @ server_errors_map m"
  by pat_completeness auto

termination
  by (relation "measure (case_sum size (case_sum (size_list size) (size_list (size_prod size size))))")
     auto

definition first_error_or :: "'a \<Rightarrow> ServerError list \<Rightarrow> 'a redis_result" where
  "first_error_or v es = (case es of [] \<Rightarrow> Inr v | e # _ \<Rightarrow> Inl (ServerErr e))"

lemma extract_error_spec:
  "extract_error v = first_error_or v (server_errors v)"
  "extract_error_vec vs = first_error_or vs (server_errors_vec vs)"
  "extract_error_map m = first_error_or m (server_errors_map m)"
  by (induction v and vs and m rule: extract_error_extract_error_vec_extract_error_map.induct)
     (auto simp: first_error_or_def split: list.splits)

lemma retry_method_ServerErr:
  "retry_method (ServerErr e) = (case se_kind e of Some k \<Rightarrow> kind_retry_method k | None \<Rightarrow> NoRetry)"
  by (auto simp: retry_method_def error_kind_def split: option.splits)

lemma requires_action_retry: "requires_action e \<longleftrightarrow> retry_method (ServerErr e) \<noteq> NoRetry"
  by (auto simp: requires_action_def retry_method_ServerErr split: option.splits)

lemma closed_connection_error_facts:
  "is_connection_dropped closed_connection_error"
  "is_unrecoverable_error closed_connection_error"
  "is_io_error closed_connection_error"
  by (simp_all add: closed_connection_error_def io_error_def is_connection_dropped_def
      as_io_error_def is_unrecoverable_error_def retry_method_def error_kind_def is_io_error_def)

end
