(* ===== verification/Command.thy ===== *)
theory Command
  imports To_Args Redis_Error
begin

text \<open>
  Commands of \<^verbatim>\<open>cmd.rs\<close>: the \<^verbatim>\<open>Cmd\<close> builder, which keeps the bytes of all arguments in one buffer
  with the end offset of each, the iteration over its arguments, and the RESP encoding of a
  command.  A \<^verbatim>\<open>Vec\<close> that is extended through a mutable reference is passed and returned.
  Reserving capacity has no effect on contents and is left out, but the length that is reserved
  (\<open>args_len\<close>) is modelled and proved exact.
\<close>

datatype 'd Arg = Simple 'd | Cursor

record CommandCacheConfig =
  enable_cache :: bool
  client_side_ttl :: "nat option"

definition new_cache_config :: CommandCacheConfig where
  "new_cache_config = \<lparr>enable_cache = True, client_side_ttl = None\<rparr>"

definition set_enable_cache :: "CommandCacheConfig \<Rightarrow> bool \<Rightarrow> CommandCacheConfig" where
  "set_enable_cache c b = c\<lparr>enable_cache := b\<rparr>"

definition set_client_side_ttl :: "CommandCacheConfig \<Rightarrow> nat \<Rightarrow> CommandCacheConfig" where
  "set_client_side_ttl c ttl = c\<lparr>client_side_ttl := Some ttl\<rparr>"

record Cmd =
  cdata :: bytes
  cargs :: "nat Arg list"
  ccursor :: "u64 option"
  cno_response :: bool
  cskip_concurrency_limit :: bool
  ccache :: "CommandCacheConfig option"

definition cmd_new :: Cmd where
  "cmd_new = \<lparr>cdata = [], cargs = [], ccursor = None, cno_response = False,
              cskip_concurrency_limit = False, ccache = None\<rparr>"

definition cmd_with_capacity :: "nat \<Rightarrow> nat \<Rightarrow> Cmd" where
  "cmd_with_capacity arg_count size_of_data =
     \<lparr>cdata = [], cargs = [], ccursor = None, cno_response = False,
      cskip_concurrency_limit = False, ccache = None\<rparr>"

definition cmd_clear :: "Cmd \<Rightarrow> Cmd" where
  "cmd_clear c = c\<lparr>cdata := [], cargs := [], ccursor := None, cno_response := False,
                   cskip_concurrency_limit := False, ccache := None\<rparr>"

section \<open>Writing arguments\<close>

definition cmd_write_arg :: "Cmd \<Rightarrow> bytes \<Rightarrow> Cmd" where
  "cmd_write_arg c arg =
     (let c1 = c\<lparr>cdata := cdata c @ arg\<rparr>
      in c1\<lparr>cargs := cargs c1 @ [Simple (length (cdata c1))]\<rparr>)"

definition cmd_write_arg_fmt :: "Cmd \<Rightarrow> bytes \<Rightarrow> Cmd" where
  "cmd_write_arg_fmt c text =
     (let c1 = c\<lparr>cdata := cdata c @ text\<rparr>
      in c1\<lparr>cargs := cargs c1 @ [Simple (length (cdata c1))]\<rparr>)"

text \<open>\<^verbatim>\<open>CmdBufferedArgGuard\<close>: each \<^verbatim>\<open>write\<close> extends the buffer, dropping the guard closes the
  argument.\<close>

definition arg_guard_write :: "Cmd \<Rightarrow> bytes \<Rightarrow> Cmd" where
  "arg_guard_write c buf = c\<lparr>cdata := cdata c @ buf\<rparr>"

definition arg_guard_drop :: "Cmd \<Rightarrow> Cmd" where
  "arg_guard_drop c = c\<lparr>cargs := cargs c @ [Simple (length (cdata c))]\<rparr>"

definition cmd_writer_for_next_arg :: "Cmd \<Rightarrow> bytes list \<Rightarrow> Cmd" where
  "cmd_writer_for_next_arg c bufs = arg_guard_drop (foldl arg_guard_write c bufs)"

definition cmd_arg :: "('a, Cmd) to_redis_args \<Rightarrow> 'a \<Rightarrow> Cmd \<Rightarrow> Cmd run" where
  "cmd_arg d x c = write_redis_args d x c"

definition cmd_take :: "Cmd \<Rightarrow> Cmd \<times> Cmd" where
  "cmd_take c = (c, cmd_new)"

definition cursor_arg :: "Cmd \<Rightarrow> u64 \<Rightarrow> Cmd" where
  "cursor_arg c cursor = c\<lparr>ccursor := Some cursor, cargs := cargs c @ [Cursor]\<rparr>"

definition in_scan_mode :: "Cmd \<Rightarrow> bool" where
  "in_scan_mode c \<longleftrightarrow> ccursor c \<noteq> None"

definition set_no_response :: "Cmd \<Rightarrow> bool \<Rightarrow> Cmd" where
  "set_no_response c nr = c\<lparr>cno_response := nr\<rparr>"

definition is_no_response :: "Cmd \<Rightarrow> bool" where
  "is_no_response c = cno_response c"

definition set_cache_config :: "Cmd \<Rightarrow> CommandCacheConfig \<Rightarrow> Cmd" where
  "set_cache_config c cfg = c\<lparr>ccache := Some cfg\<rparr>"

definition cmd_is_empty :: "Cmd \<Rightarrow> bool" where
  "cmd_is_empty c \<longleftrightarrow> cargs c = []"

definition cmd :: "bytes \<Rightarrow> Cmd" where
  "cmd name = cmd_write_arg cmd_new name"

section \<open>Reading arguments\<close>

fun args_iter_from :: "bytes \<Rightarrow> nat \<Rightarrow> nat Arg list \<Rightarrow> bytes Arg list run" where
  "args_iter_from data prev [] = Ret []"
| "args_iter_from data prev (Simple i # rest) =
     run_bind (slice_range data prev i) (\<lambda>arg.
     run_bind (args_iter_from data i rest) (\<lambda>args. Ret (Simple arg # args)))"
| "args_iter_from data prev (Cursor # rest) =
     run_bind (args_iter_from data prev rest) (\<lambda>args. Ret (Cursor # args))"

definition args_iter :: "Cmd \<Rightarrow> bytes Arg list run" where
  "args_iter c = args_iter_from (cdata c) 0 (cargs c)"

definition arg_idx :: "Cmd \<Rightarrow> nat \<Rightarrow> bytes option run" where
  "arg_idx c idx =
     (if idx \<ge> length (cargs c) then Ret None
      else
        (let start = (if idx = 0 then 0
                      else (case cargs c ! (idx - 1) of Simple n \<Rightarrow> n | Cursor \<Rightarrow> 0));
             end' = (case cargs c ! idx of Simple n \<Rightarrow> n | Cursor \<Rightarrow> 0)
         in if start = 0 \<and> end' = 0 then Ret None
            else map_run Some (slice_range (cdata c) start end')))"

section \<open>Encoding\<close>

function countdigits_loop :: "nat \<Rightarrow> nat \<Rightarrow> nat" where
  "countdigits_loop v result =
     (if v < 10 then result
      else if v < 100 then result + 1
      else if v < 1000 then result + 2
      else if v < 10000 then result + 3
      else countdigits_loop (v div 10000) (result + 4))"
  by pat_completeness auto

termination
  by (relation "measure fst") auto

declare countdigits_loop.simps [simp del]

definition countdigits :: "nat \<Rightarrow> nat" where
  "countdigits v = countdigits_loop v 1"

definition bulklen :: "nat \<Rightarrow> nat" where
  "bulklen len = 1 + countdigits len + 2 + len + 2"

definition args_len :: "bytes Arg list \<Rightarrow> u64 \<Rightarrow> nat" where
  "args_len args cursor =
     foldl (\<lambda>totlen item.
              totlen + bulklen (case item of
                                  Cursor \<Rightarrow> countdigits (unat cursor)
                                | Simple val \<Rightarrow> length val))
       (1 + countdigits (length args) + 2) args"

definition cursor_or_0 :: "Cmd \<Rightarrow> u64" where
  "cursor_or_0 c = (case ccursor c of Some n \<Rightarrow> n | None \<Rightarrow> 0)"

definition cmd_len :: "Cmd \<Rightarrow> nat run" where
  "cmd_len c = map_run (\<lambda>args. args_len args (cursor_or_0 c)) (args_iter c)"

fun write_command_args :: "(int \<Rightarrow> bytes) \<Rightarrow> bytes \<Rightarrow> bytes Arg list \<Rightarrow> u64 \<Rightarrow> bytes" where
  "write_command_args itoa out [] cursor = out"
| "write_command_args itoa out (item # items) cursor =
     (let bytes = (case item of Cursor \<Rightarrow> itoa (uint cursor) | Simple val \<Rightarrow> val)
      in write_command_args itoa
           (out @ ''$'' @ itoa (int (length bytes)) @ CRLF @ bytes @ CRLF) items cursor)"

definition write_command :: "(int \<Rightarrow> bytes) \<Rightarrow> bytes \<Rightarrow> bytes Arg list \<Rightarrow> u64 \<Rightarrow> bytes" where
  "write_command itoa out args cursor =
     write_command_args itoa (out @ ''*'' @ itoa (int (length args)) @ CRLF) args cursor"

definition write_command_to_vec :: "(int \<Rightarrow> bytes) \<Rightarrow> bytes \<Rightarrow> bytes Arg list \<Rightarrow> u64 \<Rightarrow> bytes" where
  "write_command_to_vec itoa out args cursor = write_command itoa out args cursor"

definition encode_command :: "(int \<Rightarrow> bytes) \<Rightarrow> bytes Arg list \<Rightarrow> u64 \<Rightarrow> bytes" where
  "encode_command itoa args cursor = write_command_to_vec itoa [] args cursor"

definition write_packed_command :: "(int \<Rightarrow> bytes) \<Rightarrow> Cmd \<Rightarrow> bytes \<Rightarrow> bytes run" where
  "write_packed_command itoa c dst =
     map_run (\<lambda>args. write_command_to_vec itoa dst args (cursor_or_0 c)) (args_iter c)"

definition write_packed_command_preallocated :: "(int \<Rightarrow> bytes) \<Rightarrow> Cmd \<Rightarrow> bytes \<Rightarrow> bytes run" where
  "write_packed_command_preallocated itoa c dst =
     map_run (\<lambda>args. write_command itoa dst args (cursor_or_0 c)) (args_iter c)"

definition get_packed_command :: "(int \<Rightarrow> bytes) \<Rightarrow> Cmd \<Rightarrow> bytes run" where
  "get_packed_command itoa c =
     (if cmd_is_empty c then Ret [] else write_packed_command itoa c [])"

text \<open>\<^verbatim>\<open>pack_command\<close>: the bytes of plain arguments.\<close>

definition pack_command :: "(int \<Rightarrow> bytes) \<Rightarrow> bytes list \<Rightarrow> bytes" where
  "pack_command itoa args = encode_command itoa (map Simple args) 0"

text \<open>Documented behaviour of the \<^verbatim>\<open>itoa\<close> crate: it prints an integer in decimal.\<close>

definition itoa_ok :: "(int \<Rightarrow> bytes) \<Rightarrow> bool" where
  "itoa_ok itoa \<longleftrightarrow> (\<forall>n. itoa n = show_int n)"

lemma itoa_ok_show_int [simp]: "itoa_ok show_int"
  by (simp add: itoa_ok_def)

section \<open>Well-formed commands\<close>

text \<open>The end offsets never decrease and the last one is the end of the buffer.\<close>

fun offsets_ok :: "nat \<Rightarrow> nat Arg list \<Rightarrow> nat \<Rightarrow> bool" where
  "offsets_ok p [] n \<longleftrightarrow> p = n"
| "offsets_ok p (Simple i # xs) n \<longleftrightarrow> p \<le> i \<and> offsets_ok i xs n"
| "offsets_ok p (Cursor # xs) n \<longleftrightarrow> offsets_ok p xs n"

definition wf_cmd :: "Cmd \<Rightarrow> bool" where
  "wf_cmd c \<longleftrightarrow> offsets_ok 0 (cargs c) (length (cdata c))"

definition cmd_args_of :: "Cmd \<Rightarrow> bytes Arg list" where
  "cmd_args_of c = (case args_iter c of Ret as \<Rightarrow> as | Panic \<Rightarrow> [])"

lemma offsets_ok_le: "offsets_ok p xs n \<Longrightarrow> p \<le> n"
  by (induction p xs n rule: offsets_ok.induct) auto

lemma offsets_ok_snoc:
  "offsets_ok p xs n \<Longrightarrow> n \<le> m \<Longrightarrow> offsets_ok p (xs @ [Simple m]) m"
  "offsets_ok p xs n \<Longrightarrow> offsets_ok p (xs @ [Cursor]) n"
  by (induction p xs n rule: offsets_ok.induct) auto

lemma args_iter_from_total:
  "offsets_ok p xs n \<Longrightarrow> n \<le> length d \<Longrightarrow> \<exists>as. args_iter_from d p xs = Ret as \<and> length as = length xs"
proof (induction p xs n rule: offsets_ok.induct)
  case (2 p i xs n)
  then obtain as where "args_iter_from d i xs = Ret as" "length as = length xs" by auto
  moreover have "i \<le> length d" using offsets_ok_le [of i xs n] 2 by auto
  ultimately show ?case using 2 by (simp add: slice_range_def)
qed auto

lemma args_iter_from_snoc:
  "offsets_ok p xs (length d) \<Longrightarrow>
     args_iter_from (d @ a) p (xs @ [Simple (length (d @ a))]) =
     map_run (\<lambda>as. as @ [Simple a]) (args_iter_from d p xs)"
proof (induction p xs "length d" rule: offsets_ok.induct)
  case (1 p)
  then show ?case by (simp add: slice_range_def)
next
  case (2 p i xs)
  then have i: "offsets_ok i xs (length d)" by simp
  then obtain as where "args_iter_from d i xs = Ret as" using args_iter_from_total by blast
  with 2 offsets_ok_le [OF i] show ?case by (simp add: slice_range_def)
next
  case (3 p xs)
  then obtain as where "args_iter_from d p xs = Ret as" using args_iter_from_total by fastforce
  with 3 show ?case by simp
qed

lemma args_iter_from_cursor:
  "args_iter_from d p (xs @ [Cursor]) = map_run (\<lambda>as. as @ [Cursor]) (args_iter_from d p xs)"
proof (induction d p xs rule: args_iter_from.induct)
  case (2 data prev i rest)
  then show ?case
    by (cases "slice_range data prev i"; cases "args_iter_from data i rest") auto
next
  case (3 data prev rest)
  then show ?case by (cases "args_iter_from data prev rest") auto
qed simp

lemma wf_cmd_args_iter: "wf_cmd c \<Longrightarrow> args_iter c = Ret (cmd_args_of c)"
  using args_iter_from_total [of 0 "cargs c" "length (cdata c)" "cdata c"]
  by (auto simp: wf_cmd_def cmd_args_of_def args_iter_def)

lemma wf_cmd_length_args: "wf_cmd c \<Longrightarrow> length (cmd_args_of c) = length (cargs c)"
  using args_iter_from_total [of 0 "cargs c" "length (cdata c)" "cdata c"]
  by (auto simp: wf_cmd_def cmd_args_of_def args_iter_def)

lemma cmd_write_arg_fmt_eq: "cmd_write_arg_fmt c a = cmd_write_arg c a"
  by (simp add: cmd_write_arg_fmt_def cmd_write_arg_def)

lemma cmd_writer_eq: "cmd_writer_for_next_arg c bufs = cmd_write_arg c (concat bufs)"
proof -
  have "foldl arg_guard_write c bufs = c\<lparr>cdata := cdata c @ concat bufs\<rparr>"
    by (induction bufs arbitrary: c) (auto simp: arg_guard_write_def)
  then show ?thesis by (simp add: cmd_writer_for_next_arg_def arg_guard_drop_def cmd_write_arg_def)
qed

lemma wf_cmd_write_arg: "wf_cmd c \<Longrightarrow> wf_cmd (cmd_write_arg c a)"
  by (simp add: wf_cmd_def cmd_write_arg_def offsets_ok_snoc)

lemma cmd_args_of_write_arg:
  assumes "wf_cmd c"
  shows "cmd_args_of (cmd_write_arg c a) = cmd_args_of c @ [Simple a]"
proof -
  have "args_iter (cmd_write_arg c a) = map_run (\<lambda>as. as @ [Simple a]) (args_iter c)"
    using args_iter_from_snoc [of 0 "cargs c" "cdata c" a] assms
    by (simp add: args_iter_def cmd_write_arg_def wf_cmd_def)
  then have "args_iter (cmd_write_arg c a) = Ret (cmd_args_of c @ [Simple a])"
    by (simp add: wf_cmd_args_iter [OF assms])
  then show ?thesis by (simp add: cmd_args_of_def [of "cmd_write_arg c a"])
qed

lemma wf_cmd_cursor_arg: "wf_cmd c \<Longrightarrow> wf_cmd (cursor_arg c n)"
  by (simp add: wf_cmd_def cursor_arg_def offsets_ok_snoc)

lemma cmd_args_of_cursor_arg:
  assumes "wf_cmd c"
  shows "cmd_args_of (cursor_arg c n) = cmd_args_of c @ [Cursor]"
proof -
  have "args_iter (cursor_arg c n) = map_run (\<lambda>as. as @ [Cursor]) (args_iter c)"
    by (simp add: args_iter_def cursor_arg_def args_iter_from_cursor)
  then have "args_iter (cursor_arg c n) = Ret (cmd_args_of c @ [Cursor])"
    by (simp add: wf_cmd_args_iter [OF assms])
  then show ?thesis by (simp add: cmd_args_of_def [of "cursor_arg c n"])
qed

lemma wf_cmd_new [simp]: "wf_cmd cmd_new" "cmd_args_of cmd_new = []"
  by (simp_all add: wf_cmd_def cmd_new_def cmd_args_of_def args_iter_def)

lemma wf_cmd_cmd [simp]: "wf_cmd (cmd name)" "cmd_args_of (cmd name) = [Simple name]"
  by (simp_all add: cmd_def wf_cmd_write_arg cmd_args_of_write_arg)

interpretation cmd_sink: redis_write cmd_write_arg cmd_write_arg_fmt cmd_writer_for_next_arg
    wf_cmd cmd_args_of Simple
  by unfold_locales
     (simp_all add: cmd_write_arg_fmt_eq cmd_writer_eq wf_cmd_write_arg cmd_args_of_write_arg)

lemma cmd_write_arg_fields [simp]:
  "ccursor (cmd_write_arg c a) = ccursor c"
  "cno_response (cmd_write_arg c a) = cno_response c"
  "ccache (cmd_write_arg c a) = ccache c"
  "cdata (cmd_write_arg c a) = cdata c @ a"
  "length (cargs (cmd_write_arg c a)) = Suc (length (cargs c))"
  by (simp_all add: cmd_write_arg_def)

section \<open>Arguments by index\<close>

fun end_off :: "nat \<Rightarrow> nat Arg list \<Rightarrow> nat" where
  "end_off p [] = p"
| "end_off p (Simple i # xs) = end_off i xs"
| "end_off p (Cursor # xs) = end_off p xs"

lemma end_off_snoc: "end_off p (xs @ [Simple n]) = n"
  by (induction p xs rule: end_off.induct) auto

lemma args_iter_from_nth:
  "args_iter_from d p xs = Ret as \<Longrightarrow> k < length xs \<Longrightarrow> xs ! k = Simple e \<Longrightarrow>
     \<exists>a. as ! k = Simple a \<and> slice_range d (end_off p (take k xs)) e = Ret a"
proof (induction d p xs arbitrary: as k rule: args_iter_from.induct)
  case (2 data prev i rest)
  then obtain a as' where s: "slice_range data prev i = Ret a" "args_iter_from data i rest = Ret as'"
      "as = Simple a # as'"
    by (auto simp: run_bind_eq_Ret)
  show ?case
  proof (cases k)
    case 0
    with 2 s show ?thesis by auto
  next
    case (Suc m)
    with 2 s show ?thesis by auto
  qed
next
  case (3 data prev rest)
  then obtain as' where s: "args_iter_from data prev rest = Ret as'" "as = Cursor # as'"
    by (auto simp: run_bind_eq_Ret)
  with 3 show ?case by (cases k) auto
qed simp

lemma args_iter_from_kinds:
  "args_iter_from d p xs = Ret as \<Longrightarrow> map (\<lambda>a. a = Cursor) as = map (\<lambda>a. a = Cursor) xs"
  by (induction d p xs arbitrary: as rule: args_iter_from.induct) (auto simp: run_bind_eq_Ret)

lemma args_iter_from_Simple_iff:
  assumes "args_iter_from d p xs = Ret as" and "k < length xs"
  shows "(\<exists>a. as ! k = Simple a) \<longleftrightarrow> (\<exists>e. xs ! k = Simple e)"
proof -
  have m: "map (\<lambda>a. a = Cursor) as = map (\<lambda>a. a = Cursor) xs"
    using args_iter_from_kinds [OF assms(1)] .
  then have "length as = length xs" by (rule map_eq_imp_length_eq)
  with arg_cong [OF m, of "\<lambda>l. l ! k"] assms(2) have "(as ! k = Cursor) = (xs ! k = Cursor)" by simp
  then show ?thesis by (cases "as ! k"; cases "xs ! k") auto
qed

lemma arg_idx_correct:
  assumes wf: "wf_cmd c" and k: "k < length (cargs c)"
    and a: "cmd_args_of c ! k = Simple a"
    and prev: "k > 0 \<Longrightarrow> cmd_args_of c ! (k - 1) \<noteq> Cursor"
    and ne: "a \<noteq> [] \<or> k > 0 \<and> cargs c ! (k - 1) \<noteq> Simple 0"
  shows "arg_idx c k = Ret (Some a)"
proof -
  have it: "args_iter_from (cdata c) 0 (cargs c) = Ret (cmd_args_of c)"
    using wf_cmd_args_iter [OF wf] by (simp add: args_iter_def)
  obtain e where e: "cargs c ! k = Simple e"
    using args_iter_from_Simple_iff [OF it k] a by blast
  have sl: "slice_range (cdata c) (end_off 0 (take k (cargs c))) e = Ret a"
    using args_iter_from_nth [OF it k e] a by auto
  have start: "(if k = 0 then 0 else (case cargs c ! (k - 1) of Simple n \<Rightarrow> n | Cursor \<Rightarrow> 0)) =
               end_off 0 (take k (cargs c))"
  proof (cases k)
    case (Suc m)
    then have m: "m < length (cargs c)" using k by simp
    have "cmd_args_of c ! m \<noteq> Cursor" using prev Suc by simp
    then obtain b where "cmd_args_of c ! m = Simple b" by (cases "cmd_args_of c ! m") auto
    then obtain n where n: "cargs c ! m = Simple n"
      using args_iter_from_Simple_iff [OF it m] by auto
    then show ?thesis using Suc m by (simp add: take_Suc_conv_app_nth end_off_snoc)
  qed simp
  have "\<not> (end_off 0 (take k (cargs c)) = 0 \<and> e = 0)"
  proof
    assume z: "end_off 0 (take k (cargs c)) = 0 \<and> e = 0"
    then have "a = []" using sl by (auto simp: slice_range_def split: if_splits)
    with ne have k0: "k > 0" "cargs c ! (k - 1) \<noteq> Simple 0" by auto
    moreover have "cargs c ! (k - 1) \<noteq> Cursor"
      using args_iter_from_Simple_iff [OF it less_imp_diff_less [OF k, of 1]] prev k0
      by (cases "cmd_args_of c ! (k - 1)") auto
    ultimately show False using start z by (cases "cargs c ! (k - 1)") auto
  qed
  then show ?thesis using k e sl start by (simp add: arg_idx_def Let_def)
qed

section \<open>The encoding against the protocol\<close>

text \<open>A command on the wire is an array of bulk strings.\<close>

definition resp_bulk :: "bytes \<Rightarrow> bytes" where
  "resp_bulk s = ''$'' @ show_nat (length s) @ CRLF @ s @ CRLF"

definition resp_command :: "bytes list \<Rightarrow> bytes" where
  "resp_command args = ''*'' @ show_nat (length args) @ CRLF @ concat (map resp_bulk args)"

definition arg_bytes :: "u64 \<Rightarrow> bytes Arg \<Rightarrow> bytes" where
  "arg_bytes cursor a = (case a of Cursor \<Rightarrow> show_nat (unat cursor) | Simple v \<Rightarrow> v)"

lemma arg_bytes_simps [simp]:
  "arg_bytes n (Simple v) = v" "arg_bytes n Cursor = show_nat (unat n)"
  by (simp_all add: arg_bytes_def)

lemma length_show_nat: "length (show_nat n) = (if n < 10 then 1 else Suc (length (show_nat (n div 10))))"
  by (subst show_nat.simps) simp

lemma countdigits_loop_eq: "countdigits_loop v r = r + length (show_nat v) - 1"
proof (induction v r rule: countdigits_loop.induct)
  case (1 v r)
  show ?case
  proof (cases "v < 10000")
    case True
    then show ?thesis
      using length_show_nat [of v] length_show_nat [of "v div 10"]
        length_show_nat [of "v div 10 div 10"] length_show_nat [of "v div 10 div 10 div 10"]
      by (subst countdigits_loop.simps) (auto simp: div_mult2_eq [symmetric] div_less_iff_less_mult)
  next
    case False
    then have "length (show_nat v) = 4 + length (show_nat (v div 10000))"
      using length_show_nat [of v] length_show_nat [of "v div 10"]
        length_show_nat [of "v div 10 div 10"] length_show_nat [of "v div 10 div 10 div 10"]
      by (simp add: div_mult2_eq [symmetric] div_less_iff_less_mult)
    moreover have "countdigits_loop v r = countdigits_loop (v div 10000) (r + 4)"
      using False by (subst countdigits_loop.simps) simp
    ultimately show ?thesis using 1 False by simp
  qed
qed

lemma countdigits_show_nat: "countdigits v = length (show_nat v)"
  by (simp add: countdigits_def countdigits_loop_eq)

lemma bulklen_resp_bulk: "bulklen (length s) = length (resp_bulk s)"
  by (simp add: bulklen_def resp_bulk_def countdigits_show_nat)

lemma itoa_okD: "itoa_ok itoa \<Longrightarrow> itoa (int n) = show_nat n"
  by (simp add: itoa_ok_def show_int_def)

lemma itoa_ok_uint: "itoa_ok itoa \<Longrightarrow> itoa (uint w) = show_nat (unat w)"
  using itoa_okD [of itoa "unat w"] by simp

lemma write_command_args_eq:
  "itoa_ok itoa \<Longrightarrow>
     write_command_args itoa out args cursor = out @ concat (map (resp_bulk \<circ> arg_bytes cursor) args)"
  by (induction itoa out args cursor rule: write_command_args.induct)
     (auto simp: resp_bulk_def itoa_okD itoa_ok_uint Let_def split: Arg.split)

lemma write_command_eq:
  "itoa_ok itoa \<Longrightarrow> write_command itoa out args cursor = out @ resp_command (map (arg_bytes cursor) args)"
  by (simp add: write_command_def write_command_args_eq resp_command_def itoa_okD)

lemma args_len_eq: "args_len args cursor = length (resp_command (map (arg_bytes cursor) args))"
proof -
  have "foldl (\<lambda>totlen item. totlen + bulklen (case item of
            Cursor \<Rightarrow> countdigits (unat cursor) | Simple val \<Rightarrow> length val)) n xs =
        n + length (concat (map resp_bulk (map (arg_bytes cursor) xs)))" for n and xs :: "bytes Arg list"
    by (induction xs arbitrary: n)
       (auto simp: countdigits_show_nat bulklen_resp_bulk split: Arg.split)
  then show ?thesis by (simp add: args_len_def resp_command_def countdigits_show_nat)
qed

definition cmd_wire_args :: "Cmd \<Rightarrow> bytes list" where
  "cmd_wire_args c = map (arg_bytes (cursor_or_0 c)) (cmd_args_of c)"

lemma write_packed_command_wf:
  "itoa_ok itoa \<Longrightarrow> wf_cmd c \<Longrightarrow> write_packed_command itoa c dst = Ret (dst @ resp_command (cmd_wire_args c))"
  by (simp add: write_packed_command_def wf_cmd_args_iter write_command_to_vec_def write_command_eq
      cmd_wire_args_def)

lemma write_packed_command_preallocated_wf:
  "itoa_ok itoa \<Longrightarrow> wf_cmd c \<Longrightarrow>
     write_packed_command_preallocated itoa c dst = Ret (dst @ resp_command (cmd_wire_args c))"
  by (simp add: write_packed_command_preallocated_def wf_cmd_args_iter write_command_eq
      cmd_wire_args_def)

lemma cmd_len_wf: "wf_cmd c \<Longrightarrow> cmd_len c = Ret (length (resp_command (cmd_wire_args c)))"
  by (simp add: cmd_len_def wf_cmd_args_iter args_len_eq cmd_wire_args_def)

lemma cmd_is_empty_wf: "wf_cmd c \<Longrightarrow> cmd_is_empty c \<longleftrightarrow> cmd_args_of c = []"
  using wf_cmd_length_args [of c] by (auto simp: cmd_is_empty_def)

section \<open>The builder against its abstraction\<close>

text \<open>Every way to change a command: the three sink methods, a cursor argument, the setters,
  \<^verbatim>\<open>clear\<close>, and the cursor update that iteration makes.  The abstract command is its argument
  list with the cursor.\<close>

datatype cmd_op =
    WriteArg bytes | WriteArgFmt bytes | WriterForNextArg "bytes list" | CursorArg u64
  | SetNoResponse bool | SetCacheConfig CommandCacheConfig | SetCursor u64 | Clear

fun apply_cmd_op :: "Cmd \<Rightarrow> cmd_op \<Rightarrow> Cmd" where
  "apply_cmd_op c (WriteArg a) = cmd_write_arg c a"
| "apply_cmd_op c (WriteArgFmt t) = cmd_write_arg_fmt c t"
| "apply_cmd_op c (WriterForNextArg bufs) = cmd_writer_for_next_arg c bufs"
| "apply_cmd_op c (CursorArg n) = cursor_arg c n"
| "apply_cmd_op c (SetNoResponse b) = set_no_response c b"
| "apply_cmd_op c (SetCacheConfig cfg) = set_cache_config c cfg"
| "apply_cmd_op c (SetCursor n) = c\<lparr>ccursor := Some n\<rparr>"
| "apply_cmd_op c Clear = cmd_clear c"

fun abs_cmd_op :: "bytes Arg list \<times> u64 option \<Rightarrow> cmd_op \<Rightarrow> bytes Arg list \<times> u64 option" where
  "abs_cmd_op (as, cur) (WriteArg a) = (as @ [Simple a], cur)"
| "abs_cmd_op (as, cur) (WriteArgFmt t) = (as @ [Simple t], cur)"
| "abs_cmd_op (as, cur) (WriterForNextArg bufs) = (as @ [Simple (concat bufs)], cur)"
| "abs_cmd_op (as, cur) (CursorArg n) = (as @ [Cursor], Some n)"
| "abs_cmd_op (as, cur) (SetNoResponse b) = (as, cur)"
| "abs_cmd_op (as, cur) (SetCacheConfig cfg) = (as, cur)"
| "abs_cmd_op (as, cur) (SetCursor n) = (as, Some n)"
| "abs_cmd_op (as, cur) Clear = ([], None)"

lemma wf_cmd_cong: "cdata c = cdata c' \<Longrightarrow> cargs c = cargs c' \<Longrightarrow> wf_cmd c \<longleftrightarrow> wf_cmd c'"
  by (simp add: wf_cmd_def)

lemma cmd_args_of_cong:
  "cdata c = cdata c' \<Longrightarrow> cargs c = cargs c' \<Longrightarrow> cmd_args_of c = cmd_args_of c'"
  by (simp add: cmd_args_of_def args_iter_def)

lemma apply_cmd_op_refines:
  assumes "wf_cmd c"
  shows "wf_cmd (apply_cmd_op c p) \<and>
     (cmd_args_of (apply_cmd_op c p), ccursor (apply_cmd_op c p)) = abs_cmd_op (cmd_args_of c, ccursor c) p"
proof (cases p)
  case (SetNoResponse b)
  then show ?thesis
    using wf_cmd_cong [of c "set_no_response c b"] cmd_args_of_cong [of c "set_no_response c b"] assms
    by (simp add: set_no_response_def)
next
  case (SetCacheConfig cfg)
  then show ?thesis
    using wf_cmd_cong [of c "set_cache_config c cfg"] cmd_args_of_cong [of c "set_cache_config c cfg"] assms
    by (simp add: set_cache_config_def)
next
  case (SetCursor n)
  then show ?thesis
    using wf_cmd_cong [of c "c\<lparr>ccursor := Some n\<rparr>"] cmd_args_of_cong [of c "c\<lparr>ccursor := Some n\<rparr>"] assms
    by simp
next
  case Clear
  have e: "wf_cmd (cmd_clear c)" "cmd_args_of (cmd_clear c) = []"
    by (simp_all add: wf_cmd_def cmd_clear_def cmd_args_of_def args_iter_def)
  show ?thesis by (simp add: Clear e) (simp add: cmd_clear_def)
next
  case (CursorArg n)
  then show ?thesis
    by (simp add: wf_cmd_cursor_arg cmd_args_of_cursor_arg assms) (simp add: cursor_arg_def)
qed (simp_all add: cmd_write_arg_fmt_eq cmd_writer_eq wf_cmd_write_arg cmd_args_of_write_arg assms)

lemma cmd_ops_wf:
  "wf_cmd c \<Longrightarrow> wf_cmd (foldl apply_cmd_op c ops) \<and>
     (cmd_args_of (foldl apply_cmd_op c ops), ccursor (foldl apply_cmd_op c ops)) =
       foldl abs_cmd_op (cmd_args_of c, ccursor c) ops"
proof (induction ops arbitrary: c)
  case (Cons p ops)
  from apply_cmd_op_refines [OF Cons.prems, of p] Cons.IH [of "apply_cmd_op c p"]
  show ?case by simp
qed simp

text \<open>C8.  The offset representation of a command implements a plain argument list: after any
  sequence of builder operations starting from an empty command, iterating over the arguments
  does not panic and yields exactly the arguments that were written, in order, with the cursor
  last set.\<close>

theorem cmd_builder_refines_arg_list:
  "args_iter (foldl apply_cmd_op cmd_new ops) = Ret (fst (foldl abs_cmd_op ([], None) ops)) \<and>
   ccursor (foldl apply_cmd_op cmd_new ops) = snd (foldl abs_cmd_op ([], None) ops)"
proof -
  have "ccursor cmd_new = None" by (simp add: cmd_new_def)
  then have w: "wf_cmd (foldl apply_cmd_op cmd_new ops)"
    and e: "foldl abs_cmd_op ([], None) ops =
       (cmd_args_of (foldl apply_cmd_op cmd_new ops), ccursor (foldl apply_cmd_op cmd_new ops))"
    using cmd_ops_wf [of cmd_new ops] by simp_all
  show ?thesis by (simp add: e wf_cmd_args_iter [OF w])
qed

text \<open>The bytes of a well-formed command are those of the protocol, an array of bulk strings
  with the cursor in its place, and the length that is computed in advance to reserve the buffer
  is exactly the number of bytes written.\<close>

theorem packed_command_bytes_and_length:
  assumes "itoa_ok itoa" and "wf_cmd c" and "\<not> cmd_is_empty c"
  shows "get_packed_command itoa c = Ret (resp_command (cmd_wire_args c)) \<and>
         cmd_len c = map_run length (get_packed_command itoa c)"
  using assms by (simp add: get_packed_command_def write_packed_command_wf cmd_len_wf)

text \<open>Looking an argument up by its index agrees with iterating over the arguments, for every
  argument that is not directly after a cursor and is not part of an empty prefix of the buffer.\<close>

theorem arg_idx_agrees_with_args_iter:
  assumes "wf_cmd c" and "k < length (cargs c)" and "args_iter c = Ret as"
    and "as ! k = Simple a" and "k > 0 \<Longrightarrow> as ! (k - 1) \<noteq> Cursor"
    and "a \<noteq> [] \<or> k > 0 \<and> cargs c ! (k - 1) \<noteq> Simple 0"
  shows "arg_idx c k = Ret (Some a)"
  using arg_idx_correct [of c k a] assms by (simp add: cmd_args_of_def)

end
