(* ===== verification/Rust_Float.thy ===== *)
theory Rust_Float
  imports Rust_Std
begin

text \<open>
  The 64-bit floats of the standard library, as IEEE 754 bit patterns: \<^verbatim>\<open>str::parse::<f64>\<close>
  (decimal text to the nearest float, ties to even) and \<^verbatim>\<open>Display for f64\<close> (the shortest decimal
  that reads back as the same float, without an exponent).
\<close>

section \<open>Rounding a positive rational\<close>

fun bit_length :: "nat \<Rightarrow> nat" where
  "bit_length n = (if n = 0 then 0 else Suc (bit_length (n div 2)))"

declare bit_length.simps [simp del]

text \<open>\<open>p / q\<close> divided by \<open>2 ^ e\<close>, as a fraction of naturals.\<close>

definition scale2 :: "nat \<Rightarrow> nat \<Rightarrow> int \<Rightarrow> nat \<times> nat" where
  "scale2 p q e = (if 0 \<le> e then (p, q * 2 ^ nat e) else (p * 2 ^ nat (- e), q))"

definition round_half_even :: "nat \<Rightarrow> nat \<Rightarrow> nat" where
  "round_half_even p q =
     (let d = p div q; r = p mod q
      in if 2 * r < q then d else if q < 2 * r then d + 1 else if even d then d else d + 1)"

definition f64_inf :: nat where
  "f64_inf = 2047 * 2 ^ 52"

text \<open>The bits (without the sign) of the float nearest to \<open>p / q\<close>.\<close>

definition round_f64 :: "nat \<Rightarrow> nat \<Rightarrow> nat" where
  "round_f64 p q =
     (if p = 0 then 0
      else
        (let e0 = int (bit_length p) - int (bit_length q) - 53;
             (a, b) = scale2 p q e0;
             e1 = (if a < b * 2 ^ 53 then e0 else e0 + 1);
             e = max (- 1074) e1;
             (a', b') = scale2 p q e;
             bits = int (round_half_even a' b') + (e + 1074) * 2 ^ 52
         in min f64_inf (nat bits)))"

section \<open>Parsing\<close>

definition f64_sign :: "bool \<Rightarrow> nat \<Rightarrow> f64" where
  "f64_sign neg bits = of_nat (if neg then bits + 2 ^ 63 else bits)"

definition decimal_f64 :: "nat \<Rightarrow> int \<Rightarrow> nat" where
  "decimal_f64 m e = (if 0 \<le> e then round_f64 (m * 10 ^ nat e) 1 else round_f64 m (10 ^ nat (- e)))"

definition split_sign :: "bytes \<Rightarrow> bool \<times> bytes" where
  "split_sign s = (case s of
     c # r \<Rightarrow> (if c = CHR ''-'' then (True, r) else if c = CHR ''+'' then (False, r) else (False, s))
   | [] \<Rightarrow> (False, []))"

definition parse_exponent :: "bytes \<Rightarrow> int option" where
  "parse_exponent s = (case s of
     [] \<Rightarrow> Some 0
   | c # r \<Rightarrow>
       (if c \<in> {CHR ''e'', CHR ''E''} then
          (let (neg, ds) = split_sign r
           in if ds = [] then None
              else map_option (\<lambda>n. if neg then - int n else int n) (digits_val 0 ds))
        else None))"

definition parse_decimal :: "bytes \<Rightarrow> (nat \<times> int) option" where
  "parse_decimal s =
     (let ip = takeWhile is_digit s; r = dropWhile is_digit s;
          (fp, r') = (case r of
                        c # r1 \<Rightarrow> if c = CHR ''.'' then (takeWhile is_digit r1, dropWhile is_digit r1)
                                  else ([], r)
                      | [] \<Rightarrow> ([], []))
      in if ip @ fp = [] then None
         else Option.bind (digits_val 0 (ip @ fp)) (\<lambda>m.
              map_option (\<lambda>e. (m, e - int (length fp))) (parse_exponent r')))"

definition parse_f64 :: "bytes \<Rightarrow> f64 option" where
  "parse_f64 s =
     (let (neg, r) = split_sign s
      in if eq_ignore_ascii_case r ''inf'' \<or> eq_ignore_ascii_case r ''infinity''
         then Some (f64_sign neg f64_inf)
         else if eq_ignore_ascii_case r ''nan'' then Some (f64_sign neg (f64_inf + 2 ^ 51))
         else map_option (\<lambda>(m, e). f64_sign neg (decimal_f64 m e)) (parse_decimal r))"

section \<open>Printing\<close>

text \<open>The magnitude of a finite float as a fraction \<open>p / q\<close>.\<close>

definition f64_frac :: "nat \<Rightarrow> nat \<times> nat" where
  "f64_frac bits =
     (let e = bits div 2 ^ 52; m = bits mod 2 ^ 52;
          mant = (if e = 0 then m else m + 2 ^ 52); x = int (max e 1) - 1075
      in if 0 \<le> x then (mant * 2 ^ nat x, 1) else (mant, 2 ^ nat (- x)))"

text \<open>Candidates \<open>m * 10 ^ e\<close> next to \<open>p / q\<close> on a grid of \<open>10 ^ e\<close>: the two neighbours, the
  nearer first.\<close>

definition decimal_neighbours :: "nat \<Rightarrow> nat \<Rightarrow> int \<Rightarrow> nat list" where
  "decimal_neighbours p q e =
     (let (a, b) = (if 0 \<le> e then (p, q * 10 ^ nat e) else (p * 10 ^ nat (- e), q));
          d = a div b; r = a mod b
      in if 2 * r < b \<or> 2 * r = b \<and> even d then [d, d + 1] else [d + 1, d])"

text \<open>Search from a grid coarser than the magnitude down to finer ones for a decimal that rounds back
  to \<open>bits\<close>; 17 significant digits always do, and the first grid is at most two powers of ten too
  coarse.\<close>

fun shortest_decimal :: "nat \<Rightarrow> nat \<Rightarrow> nat \<Rightarrow> nat \<Rightarrow> int \<Rightarrow> nat \<times> int" where
  "shortest_decimal 0 bits p q e = (hd (decimal_neighbours p q e), e)"
| "shortest_decimal (Suc n) bits p q e =
     (case filter (\<lambda>m. decimal_f64 m e = bits) (decimal_neighbours p q e) of
        m # _ \<Rightarrow> (m, e)
      | [] \<Rightarrow> shortest_decimal n bits p q (e - 1))"

definition show_decimal :: "nat \<Rightarrow> int \<Rightarrow> bytes" where
  "show_decimal m e =
     (if 0 \<le> e then show_nat m @ replicate (nat e) CHR ''0''
      else
        (let k = nat (- e); ds = show_nat m;
             padded = replicate (k + 1 - length ds) CHR ''0'' @ ds
         in take (length padded - k) padded @ ''.'' @ drop (length padded - k) padded))"

definition show_f64 :: "f64 \<Rightarrow> bytes" where
  "show_f64 w =
     (let neg = bit w 63; bits = unat w mod 2 ^ 63
      in if f64_inf < bits then ''NaN''
         else (if neg then ''-'' else []) @
           (if bits = f64_inf then ''inf''
            else if bits = 0 then ''0''
            else
              (let (p, q) = f64_frac bits;
                   e = int (length (show_nat p)) - int (length (show_nat q)) + 1;
                   (m, x) = shortest_decimal 25 bits p q e
               in show_decimal m x)))"

end
