(* ===== verification/Resp_Parser.thy ===== *)
theory Resp_Parser
  imports Redis_Error Rust_Float
begin

text \<open>
  The reply parser of \<^verbatim>\<open>parser.rs\<close>.  The source is written with the parser combinators of the
  \<^verbatim>\<open>combine\<close> crate.  Its four input primitives (\<^verbatim>\<open>any\<close>, \<^verbatim>\<open>take\<close>, \<^verbatim>\<open>take_until_bytes\<close>, \<^verbatim>\<open>crlf\<close>)
  are the record \<open>combine_prims\<close>, a parameter of every parser here, and \<open>combine_ok\<close> states their
  documented behaviour.  The sequencing combinators (\<^verbatim>\<open>then_partial\<close>, \<^verbatim>\<open>and_then\<close>, \<^verbatim>\<open>map\<close>,
  \<^verbatim>\<open>skip\<close>, \<^verbatim>\<open>with\<close>, \<^verbatim>\<open>count_min_max\<close>) are the control flow of the functions.  A parser maps the
  input to a value with the rest of the input (\<open>POk\<close>), to \<open>PMore\<close> when the input ends too early,
  or to an error.  The build without \<^verbatim>\<open>num-bigint\<close> is modelled.
\<close>

datatype parse_error =
    UnexpectedMsg bytes
  | UnexpectedToken char
  | StaticMessage bytes
  | OtherUtf8
  | OtherFloat
  | CombineError bytes

datatype 'a pres = POk 'a bytes | PMore | PErr parse_error

definition p_bind :: "'a pres \<Rightarrow> ('a \<Rightarrow> bytes \<Rightarrow> 'b pres) \<Rightarrow> 'b pres" where
  "p_bind m f = (case m of POk x r \<Rightarrow> f x r | PMore \<Rightarrow> PMore | PErr e \<Rightarrow> PErr e)"

lemma p_bind_simps [simp, monad_simps]:
  "p_bind (POk x r) f = f x r" "p_bind PMore f = PMore" "p_bind (PErr e) f = PErr e"
  by (simp_all add: p_bind_def)

record combine_prims =
  c_any :: "bytes \<Rightarrow> char pres"
  c_take :: "nat \<Rightarrow> bytes \<Rightarrow> bytes pres"
  c_take_until_bytes :: "bytes \<Rightarrow> bytes \<Rightarrow> bytes pres"
  c_crlf :: "bytes \<Rightarrow> unit pres"

definition MAX_RECURSE_DEPTH :: nat where
  "MAX_RECURSE_DEPTH = 100"

section \<open>Errors and push kinds\<close>

definition err_parser :: "bytes \<Rightarrow> ServerError" where
  "err_parser line =
     (let (code, detail) = splitn2 CHR '' '' line
      in if code = ''ERR'' then Known ResponseError detail
         else if code = ''EXECABORT'' then Known ExecAbort detail
         else if code = ''LOADING'' then Known BusyLoading detail
         else if code = ''NOSCRIPT'' then Known NoScript detail
         else if code = ''MOVED'' then Known Moved detail
         else if code = ''ASK'' then Known Ask detail
         else if code = ''TRYAGAIN'' then Known TryAgain detail
         else if code = ''CLUSTERDOWN'' then Known ClusterDown detail
         else if code = ''CROSSSLOT'' then Known CrossSlot detail
         else if code = ''MASTERDOWN'' then Known MasterDown detail
         else if code = ''READONLY'' then Known ReadOnly detail
         else if code = ''NOTBUSY'' then Known NotBusy detail
         else if code = ''NOSUB'' then Known NoSub detail
         else if code = ''NOPERM'' then Known NoPerm detail
         else Extension code detail)"

definition get_push_kind :: "bytes \<Rightarrow> PushKind" where
  "get_push_kind kind =
     (if kind = ''invalidate'' then Invalidate
      else if kind = ''message'' then Message
      else if kind = ''pmessage'' then PMessage
      else if kind = ''smessage'' then SMessage
      else if kind = ''unsubscribe'' then Unsubscribe
      else if kind = ''punsubscribe'' then PUnsubscribe
      else if kind = ''sunsubscribe'' then SUnsubscribe
      else if kind = ''subscribe'' then Subscribe
      else if kind = ''psubscribe'' then PSubscribe
      else if kind = ''ssubscribe'' then SSubscribe
      else OtherPush kind)"

section \<open>Parsers of one reply\<close>

definition p_line :: "combine_prims \<Rightarrow> bytes \<Rightarrow> bytes pres" where
  "p_line C s =
     p_bind (c_take_until_bytes C CRLF s) (\<lambda>text r.
     p_bind (c_take C 2 r) (\<lambda>crlf r'.
       let recognized = text @ crlf
       in case from_utf8 (take (length recognized - 2) recognized) of
            Some line \<Rightarrow> POk line r'
          | None \<Rightarrow> PErr OtherUtf8))"

definition p_simple_string :: "combine_prims \<Rightarrow> bytes \<Rightarrow> Value pres" where
  "p_simple_string C s =
     p_bind (p_line C s) (\<lambda>line r. POk (if line = ''OK'' then Okay else SimpleString line) r)"

definition p_int :: "combine_prims \<Rightarrow> bytes \<Rightarrow> int pres" where
  "p_int C s =
     p_bind (p_line C s) (\<lambda>line r.
       case parse_i64 (trim line) of
         Some n \<Rightarrow> POk n r
       | None \<Rightarrow> PErr (StaticMessage ''Expected integer, got garbage''))"

text \<open>\<^verbatim>\<open>n as usize\<close> of an \<^verbatim>\<open>i64\<close>.\<close>

definition as_usize :: "int \<Rightarrow> nat" where
  "as_usize n = nat (int_cast False 64 n)"

definition p_bulk_string :: "combine_prims \<Rightarrow> bytes \<Rightarrow> Value pres" where
  "p_bulk_string C s =
     p_bind (p_int C s) (\<lambda>size r.
       if size < 0 then POk VNil r
       else p_bind (c_take C (as_usize size) r) (\<lambda>bs r'.
            p_bind (c_crlf C r') (\<lambda>_ r''. POk (BulkString bs) r'')))"

definition p_blob :: "combine_prims \<Rightarrow> bytes \<Rightarrow> bytes pres" where
  "p_blob C s =
     p_bind (p_int C s) (\<lambda>size r.
     p_bind (c_take C (as_usize size) r) (\<lambda>bs r'.
     p_bind (c_crlf C r') (\<lambda>_ r''. POk (from_utf8_lossy bs) r'')))"

text \<open>\<^verbatim>\<open>count_min_max(n, n, p)\<close>: exactly \<open>n\<close> times \<open>p\<close>.\<close>

fun p_count :: "(bytes \<Rightarrow> Value pres) \<Rightarrow> nat \<Rightarrow> bytes \<Rightarrow> Value list pres" where
  "p_count p 0 s = POk [] s"
| "p_count p (Suc n) s = p_bind (p s) (\<lambda>v r. p_bind (p_count p n r) (\<lambda>vs r'. POk (v # vs) r'))"

definition p_array :: "combine_prims \<Rightarrow> (bytes \<Rightarrow> Value pres) \<Rightarrow> bytes \<Rightarrow> Value pres" where
  "p_array C value' s =
     p_bind (p_int C s) (\<lambda>len r.
       if len < 0 then POk VNil r
       else p_bind (p_count value' (as_usize len) r) (\<lambda>vs r'. POk (VArray vs) r'))"

definition p_error :: "combine_prims \<Rightarrow> bytes \<Rightarrow> ServerError pres" where
  "p_error C s = p_bind (p_line C s) (\<lambda>line r. POk (err_parser line) r)"

text \<open>\<^verbatim>\<open>checked_mul(2)\<close> on \<^verbatim>\<open>usize\<close>.\<close>

definition checked_double :: "nat \<Rightarrow> nat option" where
  "checked_double n = (if n * 2 < 2 ^ 64 then Some (n * 2) else None)"

text \<open>The loop that pairs up the parsed values: \<open>n\<close> rounds, each taking two elements if there are
  two; also returns what is left of the iterator.\<close>

fun take_pairs :: "nat \<Rightarrow> Value list \<Rightarrow> (Value \<times> Value) list \<times> Value list" where
  "take_pairs 0 it = ([], it)"
| "take_pairs (Suc n) (k # v # it) = (case take_pairs n it of (ps, r) \<Rightarrow> ((k, v) # ps, r))"
| "take_pairs (Suc n) it = take_pairs n []"

definition p_map :: "combine_prims \<Rightarrow> (bytes \<Rightarrow> Value pres) \<Rightarrow> bytes \<Rightarrow> Value pres" where
  "p_map C value' s =
     p_bind (p_int C s) (\<lambda>kv_length r.
       case checked_double (as_usize kv_length) of
         Some len \<Rightarrow>
           p_bind (p_count value' len r) (\<lambda>result r'. POk (VMap (fst (take_pairs (nat kv_length) result))) r')
       | None \<Rightarrow> PErr (UnexpectedMsg ''Attribute key-value length is too large''))"

definition p_attribute :: "combine_prims \<Rightarrow> (bytes \<Rightarrow> Value pres) \<Rightarrow> bytes \<Rightarrow> Value pres" where
  "p_attribute C value' s =
     p_bind (p_int C s) (\<lambda>kv_length r.
       case checked_double (as_usize kv_length) of
         Some len \<Rightarrow>
           p_bind (p_count value' (len + 1) r) (\<lambda>result r'.
             let (attributes, it) = take_pairs (nat kv_length) result
             in POk (VAttribute (hd it) attributes) r')
       | None \<Rightarrow> PErr (UnexpectedMsg ''Attribute key-value length is too large''))"

definition p_set :: "combine_prims \<Rightarrow> (bytes \<Rightarrow> Value pres) \<Rightarrow> bytes \<Rightarrow> Value pres" where
  "p_set C value' s =
     p_bind (p_int C s) (\<lambda>len r.
       if len < 0 then POk VNil r
       else p_bind (p_count value' (as_usize len) r) (\<lambda>vs r'. POk (VSet vs) r'))"

definition push_of_values :: "Value list \<Rightarrow> parse_error + Value" where
  "push_of_values result =
     (case (case result of [] \<Rightarrow> VNil | v # _ \<Rightarrow> v) of
        BulkString kind \<Rightarrow>
          (case from_utf8 kind of
             Some push_kind \<Rightarrow> Inr (VPush (get_push_kind push_kind) (tl result))
           | None \<Rightarrow> Inl OtherUtf8)
      | SimpleString kind \<Rightarrow> Inr (VPush (get_push_kind kind) (tl result))
      | _ \<Rightarrow> Inl (StaticMessage ''parse error when decoding push''))"

definition p_push :: "combine_prims \<Rightarrow> (bytes \<Rightarrow> Value pres) \<Rightarrow> bytes \<Rightarrow> Value pres" where
  "p_push C value' s =
     p_bind (p_int C s) (\<lambda>len r.
       if len \<le> 0 then POk (VPush (OtherPush []) []) r
       else p_bind (p_count value' (as_usize len) r) (\<lambda>result r'.
              case push_of_values result of Inr v \<Rightarrow> POk v r' | Inl e \<Rightarrow> PErr e))"

definition p_null :: "combine_prims \<Rightarrow> bytes \<Rightarrow> Value pres" where
  "p_null C s = p_bind (p_line C s) (\<lambda>_ r. POk VNil r)"

definition p_double :: "combine_prims \<Rightarrow> bytes \<Rightarrow> f64 pres" where
  "p_double C s =
     p_bind (p_line C s) (\<lambda>line r.
       case parse_f64 (trim line) of Some d \<Rightarrow> POk d r | None \<Rightarrow> PErr OtherFloat)"

definition p_boolean :: "combine_prims \<Rightarrow> bytes \<Rightarrow> bool pres" where
  "p_boolean C s =
     p_bind (p_line C s) (\<lambda>line r.
       if line = ''t'' then POk True r
       else if line = ''f'' then POk False r
       else PErr (StaticMessage ''Expected boolean, got garbage''))"

definition p_blob_error :: "combine_prims \<Rightarrow> bytes \<Rightarrow> ServerError pres" where
  "p_blob_error C s = p_bind (p_blob C s) (\<lambda>line r. POk (err_parser line) r)"

definition verbatim_format_of :: "bytes \<Rightarrow> VerbatimFormat" where
  "verbatim_format_of format =
     (if format = ''txt'' then TextFormat
      else if format = ''mkd'' then Markdown
      else UnknownFormat format)"

definition p_verbatim :: "combine_prims \<Rightarrow> bytes \<Rightarrow> Value pres" where
  "p_verbatim C s =
     p_bind (p_blob C s) (\<lambda>line r.
       case splitn2 CHR '':'' line of
         (format, Some text) \<Rightarrow> POk (VerbatimString (verbatim_format_of format) text) r
       | (_, None) \<Rightarrow> PErr (StaticMessage ''parse error when decoding verbatim string''))"

definition p_big_number :: "combine_prims \<Rightarrow> bytes \<Rightarrow> Value pres" where
  "p_big_number C s = p_bind (p_line C s) (\<lambda>line r. POk (BigNumber line) r)"

text \<open>The dispatch on the first byte, with \<open>value'\<close> the parser of the elements.\<close>

definition p_dispatch :: "combine_prims \<Rightarrow> (bytes \<Rightarrow> Value pres) \<Rightarrow> char \<Rightarrow> bytes \<Rightarrow> Value pres" where
  "p_dispatch C value' b s =
     (if b = CHR ''+'' then p_simple_string C s
      else if b = CHR '':'' then p_bind (p_int C s) (\<lambda>n r. POk (VInt (word_of_int n)) r)
      else if b = CHR ''$'' then p_bulk_string C s
      else if b = CHR ''*'' then p_array C value' s
      else if b = CHR ''%'' then p_map C value' s
      else if b = CHR ''|'' then p_attribute C value' s
      else if b = CHR ''~'' then p_set C value' s
      else if b = CHR ''-'' then p_bind (p_error C s) (\<lambda>e r. POk (VServerError e) r)
      else if b = CHR ''_'' then p_null C s
      else if b = CHR '','' then p_bind (p_double C s) (\<lambda>d r. POk (VDouble d) r)
      else if b = CHR ''#'' then p_bind (p_boolean C s) (\<lambda>x r. POk (VBoolean x) r)
      else if b = CHR ''!'' then p_bind (p_blob_error C s) (\<lambda>e r. POk (VServerError e) r)
      else if b = CHR ''='' then p_verbatim C s
      else if b = CHR ''('' then p_big_number C s
      else if b = CHR ''>'' then p_push C value' s
      else PErr (UnexpectedToken b))"

text \<open>\<^verbatim>\<open>value(Some(count))\<close>: one reply at nesting depth \<open>depth\<close> (the source calls it \<^verbatim>\<open>count\<close>).\<close>

function p_value :: "combine_prims \<Rightarrow> nat \<Rightarrow> bytes \<Rightarrow> Value pres" where
  "p_value C depth s =
     p_bind (c_any C s) (\<lambda>b r.
       if depth > MAX_RECURSE_DEPTH then PErr (UnexpectedMsg ''Maximum recursion depth exceeded'')
       else p_dispatch C (p_value C (depth + 1)) b r)"
  by pat_completeness auto

termination
  by (relation "measure (\<lambda>(C, depth, s). MAX_RECURSE_DEPTH + 1 - depth)") auto

declare p_value.simps [simp del]

definition p_reply :: "combine_prims \<Rightarrow> bytes \<Rightarrow> Value pres" where
  "p_reply C s = p_value C 1 s"

section \<open>Entry points\<close>

definition to_redis_err :: "Value pres \<Rightarrow> Value redis_result" where
  "to_redis_err m = (case m of
     POk v _ \<Rightarrow> Inr v
   | PMore \<Rightarrow> Inl (io_error UnexpectedEof)
   | PErr e \<Rightarrow> Inl (Parsing (StreamParse [])))"

text \<open>\<^verbatim>\<open>Parser::parse_value\<close> on a reader that yields the given bytes and then ends; the decoder
  keeps the bytes after the value for the next call.\<close>

definition parse_value :: "combine_prims \<Rightarrow> bytes \<Rightarrow> Value redis_result \<times> bytes" where
  "parse_value C s = (to_redis_err (p_reply C s), case p_reply C s of POk _ r \<Rightarrow> r | _ \<Rightarrow> [])"

definition parse_redis_value :: "combine_prims \<Rightarrow> bytes \<Rightarrow> Value redis_result" where
  "parse_redis_value C bs = fst (parse_value C bs)"

text \<open>\<^verbatim>\<open>ValueCodec\<close>: the codec's partial state together with the bytes left in the buffer stands
  for the bytes received since the last complete reply.\<close>

definition decode_stream :: "combine_prims \<Rightarrow> bytes \<Rightarrow> bool \<Rightarrow> Value option redis_result \<times> bytes" where
  "decode_stream C buffer eof =
     (case p_reply C buffer of
        POk v r \<Rightarrow> (Inr (Some v), r)
      | PMore \<Rightarrow> (if eof then (Inl (Parsing (StreamParse [])), buffer) else (Inr None, buffer))
      | PErr e \<Rightarrow> (Inl (Parsing (StreamParse [])), buffer))"

definition codec_decode :: "combine_prims \<Rightarrow> bytes \<Rightarrow> Value option redis_result \<times> bytes" where
  "codec_decode C src = decode_stream C src False"

definition codec_decode_eof :: "combine_prims \<Rightarrow> bytes \<Rightarrow> Value option redis_result \<times> bytes" where
  "codec_decode_eof C buf = decode_stream C buf True"

definition codec_encode :: "bytes \<Rightarrow> bytes \<Rightarrow> bytes" where
  "codec_encode item dst = dst @ item"

section \<open>The primitives of the combinator crate\<close>

fun find_crlf :: "bytes \<Rightarrow> nat option" where
  "find_crlf (a # b # s) = (if a = CR \<and> b = LF then Some 0 else map_option Suc (find_crlf (b # s)))"
| "find_crlf _ = None"

definition combine_ok :: "combine_prims \<Rightarrow> bool" where
  "combine_ok C \<longleftrightarrow>
     (\<forall>s. c_any C s = (case s of [] \<Rightarrow> PMore | c # r \<Rightarrow> POk c r)) \<and>
     (\<forall>n s. c_take C n s = (if n \<le> length s then POk (take n s) (drop n s) else PMore)) \<and>
     (\<forall>s. c_take_until_bytes C CRLF s =
            (case find_crlf s of None \<Rightarrow> PMore | Some i \<Rightarrow> POk (take i s) (drop i s))) \<and>
     (\<forall>s. (case s of
             [] \<Rightarrow> c_crlf C s = PMore
           | a # r \<Rightarrow>
               if a \<noteq> CR then (\<exists>e. \<forall>r. c_crlf C (a # r) = PErr e)
               else (case r of
                       [] \<Rightarrow> c_crlf C s = PMore
                     | b # r' \<Rightarrow> if b = LF then c_crlf C s = POk () r'
                                 else (\<exists>e. \<forall>r. c_crlf C (a # b # r) = PErr e))))"

text \<open>Primitives that behave as documented.\<close>

definition std_combine :: combine_prims where
  "std_combine =
     \<lparr>c_any = (\<lambda>s. case s of [] \<Rightarrow> PMore | c # r \<Rightarrow> POk c r),
      c_take = (\<lambda>n s. if n \<le> length s then POk (take n s) (drop n s) else PMore),
      c_take_until_bytes =
        (\<lambda>pat s. case find_crlf s of None \<Rightarrow> PMore | Some i \<Rightarrow> POk (take i s) (drop i s)),
      c_crlf = (\<lambda>s. case s of
                       [] \<Rightarrow> PMore
                     | a # r \<Rightarrow>
                         if a \<noteq> CR then PErr (CombineError ''expected CR'')
                         else (case r of [] \<Rightarrow> PMore
                               | b # r' \<Rightarrow> if b = LF then POk () r'
                                           else PErr (CombineError ''expected LF'')))\<rparr>"

lemma std_combine_ok [simp]: "combine_ok std_combine"
  by (auto simp: combine_ok_def std_combine_def split: list.split)

section \<open>Streaming: results do not change when more input arrives\<close>

named_theorems stable_intros \<open>closure rules of \<open>stable\<close>\<close>

text \<open>A parser is stable if a success consumes a prefix of the input and neither a success nor
  an error changes when more bytes follow.\<close>

definition stable :: "(bytes \<Rightarrow> 'a pres) \<Rightarrow> bool" where
  "stable p \<longleftrightarrow>
     (\<forall>s t. case p s of
        POk v r \<Rightarrow> suffix r s \<and> p (s @ t) = POk v (r @ t)
      | PMore \<Rightarrow> True
      | PErr e \<Rightarrow> p (s @ t) = PErr e)"

lemma stable_POk: "stable p \<Longrightarrow> p s = POk v r \<Longrightarrow> suffix r s \<and> p (s @ t) = POk v (r @ t)"
  unfolding stable_def by (drule spec [of _ s], drule spec [of _ t]) simp

lemma stable_PErr: "stable p \<Longrightarrow> p s = PErr e \<Longrightarrow> p (s @ t) = PErr e"
  unfolding stable_def by (drule spec [of _ s], drule spec [of _ t]) simp

lemma stable_bind [stable_intros]:
  assumes "stable m" and "\<And>x. stable (f x)"
  shows "stable (\<lambda>s. p_bind (m s) f)"
  unfolding stable_def
proof (intro allI)
  fix s t
  show "case p_bind (m s) f of
          POk v r \<Rightarrow> suffix r s \<and> p_bind (m (s @ t)) f = POk v (r @ t)
        | PMore \<Rightarrow> True
        | PErr e \<Rightarrow> p_bind (m (s @ t)) f = PErr e"
  proof (cases "m s")
    case (POk x r)
    note m = stable_POk [OF assms(1) POk, of t]
    show ?thesis
    proof (cases "f x r")
      case (POk v r')
      with stable_POk [OF assms(2) POk, of t] m \<open>m s = POk x r\<close> show ?thesis
        by (auto intro: suffix_order.trans)
    next
      case (PErr e)
      with stable_PErr [OF assms(2) PErr, of t] m \<open>m s = POk x r\<close> show ?thesis by simp
    qed (simp add: POk)
  next
    case (PErr e)
    with stable_PErr [OF assms(1) PErr, of t] show ?thesis by simp
  qed simp
qed

lemma stable_ok [stable_intros]: "stable (POk x)" "stable (\<lambda>s. POk x s)"
  by (simp_all add: stable_def)

lemma stable_err [stable_intros]: "stable (\<lambda>s. PErr e)"
  by (simp add: stable_def)

lemma stable_if [stable_intros]: "stable p \<Longrightarrow> stable q \<Longrightarrow> stable (\<lambda>s. if b then p s else q s)"
  by (cases b) simp_all

lemma stable_option [stable_intros]:
  "(\<And>x. stable (f x)) \<Longrightarrow> stable g \<Longrightarrow> stable (\<lambda>s. case m of Some x \<Rightarrow> f x s | None \<Rightarrow> g s)"
  by (cases m) simp_all

lemma stable_sum [stable_intros]:
  "(\<And>x. stable (f x)) \<Longrightarrow> (\<And>x. stable (g x)) \<Longrightarrow> stable (\<lambda>s. case m of Inr x \<Rightarrow> f x s | Inl x \<Rightarrow> g x s)"
  by (cases m) simp_all

lemma find_crlf_append: "find_crlf s = Some i \<Longrightarrow> find_crlf (s @ t) = Some i \<and> i + 2 \<le> length s"
proof (induction s arbitrary: i rule: find_crlf.induct)
  case (1 a b s)
  show ?case
  proof (cases "a = CR \<and> b = LF")
    case False
    with 1(2) obtain j where j: "find_crlf (b # s) = Some j" "i = Suc j" by auto
    from 1(1) [OF False j(1)] False j(2) show ?thesis by simp
  qed (use 1(2) in auto)
qed auto

lemma c_any_eq: "combine_ok C \<Longrightarrow> c_any C s = (case s of [] \<Rightarrow> PMore | c # r \<Rightarrow> POk c r)"
  by (simp add: combine_ok_def)

lemma c_take_eq:
  "combine_ok C \<Longrightarrow> c_take C n s = (if n \<le> length s then POk (take n s) (drop n s) else PMore)"
  by (simp add: combine_ok_def)

lemma c_take_until_eq:
  "combine_ok C \<Longrightarrow> c_take_until_bytes C CRLF s =
     (case find_crlf s of None \<Rightarrow> PMore | Some i \<Rightarrow> POk (take i s) (drop i s))"
  by (simp add: combine_ok_def)

lemma c_crlf_cases:
  assumes "combine_ok C"
  shows "c_crlf C [] = PMore" "c_crlf C [CR] = PMore" "c_crlf C (CR # LF # r) = POk () r"
    "a \<noteq> CR \<Longrightarrow> \<exists>e. \<forall>r. c_crlf C (a # r) = PErr e"
    "b \<noteq> LF \<Longrightarrow> \<exists>e. \<forall>r. c_crlf C (CR # b # r) = PErr e"
proof -
  have *: "case s of
             [] \<Rightarrow> c_crlf C s = PMore
           | a # r \<Rightarrow>
               if a \<noteq> CR then (\<exists>e. \<forall>r. c_crlf C (a # r) = PErr e)
               else (case r of
                       [] \<Rightarrow> c_crlf C s = PMore
                     | b # r' \<Rightarrow> if b = LF then c_crlf C s = POk () r'
                                 else (\<exists>e. \<forall>r. c_crlf C (a # b # r) = PErr e))" for s
    using assms unfolding combine_ok_def by blast
  show "c_crlf C [] = PMore" using * [of "[]"] by simp
  show "c_crlf C [CR] = PMore" using * [of "[CR]"] by simp
  show "c_crlf C (CR # LF # r) = POk () r" using * [of "CR # LF # r"] by simp
  show "a \<noteq> CR \<Longrightarrow> \<exists>e. \<forall>r. c_crlf C (a # r) = PErr e" using * [of "[a]"] by simp
  show "b \<noteq> LF \<Longrightarrow> \<exists>e. \<forall>r. c_crlf C (CR # b # r) = PErr e" using * [of "[CR, b]"] by simp
qed

lemma stable_any [stable_intros]: "combine_ok C \<Longrightarrow> stable (c_any C)"
  by (auto simp: stable_def c_any_eq suffix_Cons split: list.split)

lemma stable_take [stable_intros]: "combine_ok C \<Longrightarrow> stable (c_take C n)"
  by (auto simp: stable_def c_take_eq suffix_drop)

lemma stable_take_until [stable_intros]: "combine_ok C \<Longrightarrow> stable (c_take_until_bytes C CRLF)"
  unfolding stable_def by (auto simp: c_take_until_eq suffix_drop find_crlf_append
      dest: find_crlf_append split: option.split)

lemma stable_crlf [stable_intros]:
  assumes "combine_ok C"
  shows "stable (c_crlf C)"
  unfolding stable_def
proof (intro allI)
  fix s t
  consider "s = []" | a r where "s = a # r" "a \<noteq> CR" | "s = [CR]"
    | r where "s = CR # LF # r" | b r where "s = CR # b # r" "b \<noteq> LF"
    by (metis neq_Nil_conv)
  then show "case c_crlf C s of
          POk v r \<Rightarrow> suffix r s \<and> c_crlf C (s @ t) = POk v (r @ t)
        | PMore \<Rightarrow> True | PErr e \<Rightarrow> c_crlf C (s @ t) = PErr e"
  proof cases
    case (2 a r)
    with c_crlf_cases(4) [OF assms 2(2)] show ?thesis by auto
  next
    case (5 b r)
    with c_crlf_cases(5) [OF assms 5(2)] show ?thesis by auto
  qed (simp_all add: c_crlf_cases [OF assms] suffix_Cons)
qed

lemma stable_count [stable_intros]: "stable p \<Longrightarrow> stable (p_count p n)"
proof (induction n)
  case (Suc n)
  have "stable (\<lambda>s. p_bind (p s) (\<lambda>v r. p_bind (p_count p n r) (\<lambda>vs r'. POk (v # vs) r')))"
    by (intro stable_intros Suc)
  then show ?case by simp
qed (simp add: stable_def)

lemmas p_defs = p_line_def p_simple_string_def p_int_def p_bulk_string_def p_blob_def p_array_def
  p_error_def p_map_def p_attribute_def p_set_def p_push_def p_null_def p_double_def p_boolean_def
  p_blob_error_def p_verbatim_def p_big_number_def

lemma stable_line [stable_intros]: "combine_ok C \<Longrightarrow> stable (p_line C)"
  unfolding p_line_def [abs_def] Let_def by (intro stable_intros)

lemma stable_int [stable_intros]: "combine_ok C \<Longrightarrow> stable (p_int C)"
  unfolding p_int_def [abs_def] by (intro stable_intros)

lemma stable_blob [stable_intros]: "combine_ok C \<Longrightarrow> stable (p_blob C)"
  unfolding p_blob_def [abs_def] by (intro stable_intros)

lemma stable_verbatim: "combine_ok C \<Longrightarrow> stable (p_verbatim C)"
proof -
  assume C: "combine_ok C"
  have "stable (\<lambda>r. case splitn2 CHR '':'' line of
         (format, Some text) \<Rightarrow> POk (VerbatimString (verbatim_format_of format) text) r
       | (_, None) \<Rightarrow> PErr (StaticMessage ''parse error when decoding verbatim string''))" for line
    by (cases "splitn2 CHR '':'' line" rule: prod.exhaust; rename_tac a b; case_tac b)
       (simp_all add: stable_def)
  then show ?thesis unfolding p_verbatim_def [abs_def] by (intro stable_intros C)
qed

lemma stable_attribute: "combine_ok C \<Longrightarrow> stable p \<Longrightarrow> stable (p_attribute C p)"
  unfolding p_attribute_def [abs_def] Let_def case_prod_unfold by (intro stable_intros)

lemma stable_dispatch:
  assumes "combine_ok C" and "stable p"
  shows "stable (p_dispatch C p b)"
proof -
  note [stable_intros] = stable_verbatim stable_attribute
  have
    "stable (p_simple_string C)" "stable (p_bulk_string C)" "stable (p_array C p)" "stable (p_map C p)"
    "stable (p_set C p)" "stable (p_null C)" "stable (p_double C)" "stable (p_boolean C)"
    "stable (p_error C)" "stable (p_blob_error C)" "stable (p_big_number C)" "stable (p_push C p)"
    unfolding p_simple_string_def [abs_def] p_bulk_string_def [abs_def] p_array_def [abs_def]
      p_map_def [abs_def] p_set_def [abs_def] p_null_def [abs_def] p_double_def [abs_def]
      p_boolean_def [abs_def] p_error_def [abs_def] p_blob_error_def [abs_def]
      p_big_number_def [abs_def] p_push_def [abs_def]
    by (intro stable_intros assms)+
  then show ?thesis
    unfolding p_dispatch_def [abs_def] by (intro stable_intros assms) assumption+
qed

lemma stable_value:
  assumes "combine_ok C"
  shows "stable (p_value C n)"
proof (induction "MAX_RECURSE_DEPTH + 1 - n" arbitrary: n)
  case (Suc m)
  then have "stable (p_value C (n + 1))" by simp
  then show ?case
    by (subst p_value.simps [abs_def]) (intro stable_intros stable_dispatch assms)
next
  case 0
  then have "p_value C n = (\<lambda>s. p_bind (c_any C s) (\<lambda>b r. PErr (UnexpectedMsg ''Maximum recursion depth exceeded'')))"
    by (subst p_value.simps [abs_def]) simp
  then show ?case by (simp only:) (intro stable_intros assms)
qed

lemma p_value_progress:
  assumes "combine_ok C" and "p_value C n s = POk v r"
  shows "length r < length s"
proof -
  from assms obtain b s' where s: "s = b # s'" "\<not> MAX_RECURSE_DEPTH < n"
      "p_dispatch C (p_value C (n + 1)) b s' = POk v r"
    by (subst (asm) p_value.simps) (auto simp: c_any_eq split: list.splits if_splits)
  have "suffix r s'"
    using stable_POk [OF stable_dispatch [OF assms(1) stable_value [OF assms(1)]] s(3)] by simp
  then show ?thesis by (simp add: s(1) suffix_length_le le_imp_less_Suc)
qed

section \<open>Decoding a stream\<close>

text \<open>\<open>frames C s vs r\<close>: decoding the buffer \<open>s\<close> again and again yields \<open>vs\<close> and leaves \<open>r\<close>.\<close>

inductive frames :: "combine_prims \<Rightarrow> bytes \<Rightarrow> Value list \<Rightarrow> bytes \<Rightarrow> bool" for C where
  frames_done: "frames C s [] s"
| frames_next: "codec_decode C s = (Inr (Some v), s') \<Longrightarrow> frames C s' vs r \<Longrightarrow> frames C s (v # vs) r"

inductive_cases frames_NilE: "frames C s [] r"
inductive_cases frames_ConsE: "frames C s (v # vs) r"

text \<open>The life of a codec: bytes arrive in arbitrary chunks and replies are decoded in between.
  The state is the bytes received so far, the replies handed out, and the pending buffer.\<close>

inductive codec_run :: "combine_prims \<Rightarrow> bytes \<Rightarrow> Value list \<Rightarrow> bytes \<Rightarrow> bool" for C where
  codec_start: "codec_run C [] [] []"
| codec_receive: "codec_run C inp out buf \<Longrightarrow> codec_run C (inp @ chunk) out (buf @ chunk)"
| codec_reply: "codec_run C inp out buf \<Longrightarrow> codec_decode C buf = (Inr (Some v), buf') \<Longrightarrow>
                codec_run C inp (out @ [v]) buf'"
| codec_wait: "codec_run C inp out buf \<Longrightarrow> codec_decode C buf = (Inr None, buf') \<Longrightarrow>
               codec_run C inp out buf'"

lemma codec_decode_Some: "codec_decode C s = (Inr (Some v), r) \<longleftrightarrow> p_reply C s = POk v r"
  by (simp add: codec_decode_def decode_stream_def split: pres.split)

lemma codec_decode_None: "codec_decode C s = (Inr None, r) \<longleftrightarrow> p_reply C s = PMore \<and> r = s"
  by (auto simp: codec_decode_def decode_stream_def split: pres.split)

lemma codec_decode_append:
  "combine_ok C \<Longrightarrow> codec_decode C s = (Inr (Some v), r) \<Longrightarrow> codec_decode C (s @ t) = (Inr (Some v), r @ t)"
  unfolding codec_decode_Some p_reply_def using stable_POk [OF stable_value] by blast

lemma frames_append: "frames C s vs r \<Longrightarrow> combine_ok C \<Longrightarrow> frames C (s @ t) vs (r @ t)"
  by (induction rule: frames.induct) (auto intro: frames.intros codec_decode_append)

lemma frames_snoc:
  "frames C s vs r \<Longrightarrow> codec_decode C r = (Inr (Some v), r') \<Longrightarrow> frames C s (vs @ [v]) r'"
  by (induction rule: frames.induct) (auto intro: frames.intros)

lemma frames_maximal:
  "frames C s vs r \<Longrightarrow> frames C s vs' r' \<Longrightarrow> p_reply C r = PMore \<Longrightarrow> p_reply C r' = PMore \<Longrightarrow>
     vs = vs' \<and> r = r'"
proof (induction arbitrary: vs' r' rule: frames.induct)
  case (frames_done s)
  show ?case
  proof (cases vs')
    case Nil
    with frames_done(1) show ?thesis by (auto elim: frames_NilE)
  next
    case (Cons v2 vs2)
    with frames_done show ?thesis by (auto elim!: frames_ConsE simp: codec_decode_Some)
  qed
next
  case (frames_next s v s' vs r)
  show ?case
  proof (cases vs')
    case Nil
    with frames_next.prems(1) have "r' = s" by (auto elim: frames_NilE)
    with frames_next.hyps(1) frames_next.prems(3) show ?thesis by (simp add: codec_decode_Some)
  next
    case (Cons v2 vs2)
    with frames_next.prems(1) obtain s2
      where s2: "codec_decode C s = (Inr (Some v2), s2)" "frames C s2 vs2 r'"
      by (auto elim: frames_ConsE)
    with frames_next.hyps(1) have e: "v2 = v" "s2 = s'" by auto
    from frames_next.IH [of vs2 r'] s2(2) frames_next.prems(2,3) show ?thesis
      by (simp add: e Cons)
  qed
qed

lemma codec_run_frames: "codec_run C inp out buf \<Longrightarrow> combine_ok C \<Longrightarrow> frames C inp out buf"
  by (induction rule: codec_run.induct)
     (auto intro: frames.intros frames_append frames_snoc simp: codec_decode_None)



section \<open>Nesting\<close>

text \<open>Nesting depth of a reply; a scalar has depth 1.\<close>

function (sequential) vdepth :: "Value \<Rightarrow> nat"
and vdepths :: "Value list \<Rightarrow> nat"
and vdepths_map :: "(Value \<times> Value) list \<Rightarrow> nat" where
  "vdepth (VArray xs) = Suc (vdepths xs)"
| "vdepth (VSet xs) = Suc (vdepths xs)"
| "vdepth (VPush k xs) = Suc (vdepths xs)"
| "vdepth (VMap m) = Suc (vdepths_map m)"
| "vdepth (VAttribute d m) = Suc (max (vdepth d) (vdepths_map m))"
| "vdepth _ = 1"
| "vdepths [] = 0"
| "vdepths (v # vs) = max (vdepth v) (vdepths vs)"
| "vdepths_map [] = 0"
| "vdepths_map ((k, v) # m) = max (max (vdepth k) (vdepth v)) (vdepths_map m)"
  by pat_completeness auto

termination
  by (relation "measure (case_sum size (case_sum (size_list size) (size_list (size_prod size size))))")
     auto

lemma vdepths_le: "vdepths vs \<le> n \<longleftrightarrow> (\<forall>v \<in> set vs. vdepth v \<le> n)"
  by (induction vs) auto

lemma vdepths_map_le: "vdepths_map m \<le> n \<longleftrightarrow> (\<forall>(k, v) \<in> set m. vdepth k \<le> n \<and> vdepth v \<le> n)"
  by (induction m) auto

lemma take_pairs_set:
  "take_pairs n it = (ps, r) \<Longrightarrow> (\<forall>(k, v) \<in> set ps. k \<in> set it \<and> v \<in> set it) \<and> set r \<subseteq> set it"
  by (induction n it arbitrary: ps r rule: take_pairs.induct) (auto split: prod.splits)

lemma take_pairs_length:
  "length it = 2 * n + k \<Longrightarrow> length (fst (take_pairs n it)) = n \<and> length (snd (take_pairs n it)) = k"
  by (induction n it rule: take_pairs.induct) (auto split: prod.splits)

definition yields :: "(Value \<Rightarrow> bool) \<Rightarrow> (bytes \<Rightarrow> Value pres) \<Rightarrow> bool" where
  "yields P p \<longleftrightarrow> (\<forall>s v r. p s = POk v r \<longrightarrow> P v)"

lemma p_bind_eq_POk: "p_bind m f = POk y r' \<longleftrightarrow> (\<exists>x r. m = POk x r \<and> f x r = POk y r')"
  by (cases m) auto

lemma yieldsD: "yields P p \<Longrightarrow> p s = POk v r \<Longrightarrow> P v"
  unfolding yields_def by blast

lemma p_count_length: "p_count p n s = POk vs r \<Longrightarrow> length vs = n"
  by (induction n arbitrary: s vs r) (auto simp: p_bind_eq_POk)

lemma p_count_yields: "yields P p \<Longrightarrow> p_count p n s = POk vs r \<Longrightarrow> \<forall>v \<in> set vs. P v"
  by (induction n arbitrary: s vs r) (auto simp: p_bind_eq_POk dest: yieldsD)

lemma yields_array:
  assumes "yields (\<lambda>v. vdepth v \<le> n) p"
  shows "yields (\<lambda>v. vdepth v \<le> Suc n) (p_array C p)"
  unfolding yields_def [of _ "p_array C p"] p_array_def
  by (auto simp: p_bind_eq_POk vdepths_le split: if_splits dest!: p_count_yields [OF assms])

lemma yields_set:
  assumes "yields (\<lambda>v. vdepth v \<le> n) p"
  shows "yields (\<lambda>v. vdepth v \<le> Suc n) (p_set C p)"
  unfolding yields_def [of _ "p_set C p"] p_set_def
  by (auto simp: p_bind_eq_POk vdepths_le split: if_splits dest!: p_count_yields [OF assms])

lemma push_of_values_depth:
  "push_of_values vs = Inr v \<Longrightarrow> \<forall>x \<in> set vs. vdepth x \<le> n \<Longrightarrow> vdepth v \<le> Suc n"
  by (cases vs) (auto simp: push_of_values_def vdepths_le split: Value.splits option.splits)

lemma yields_push:
  assumes "yields (\<lambda>v. vdepth v \<le> n) p"
  shows "yields (\<lambda>v. vdepth v \<le> Suc n) (p_push C p)"
  unfolding yields_def [of _ "p_push C p"]
proof (intro allI impI)
  fix s v r assume "p_push C p s = POk v r"
  then consider "v = VPush (OtherPush []) []"
    | m r0 vs where "p_count p m r0 = POk vs r" "push_of_values vs = Inr v"
    by (auto simp: p_push_def p_bind_eq_POk split: if_splits sum.splits)
       (metis obj_sumE sum.inject(2))
  then show "vdepth v \<le> Suc n"
    by cases (auto dest: p_count_yields [OF assms] intro: push_of_values_depth)
qed

lemma take_pairs_depth:
  "\<forall>x \<in> set it. vdepth x \<le> n \<Longrightarrow> vdepths_map (fst (take_pairs k it)) \<le> n"
  using take_pairs_set [of k it "fst (take_pairs k it)" "snd (take_pairs k it)"]
  by (auto simp: vdepths_map_le)

lemma yields_map:
  assumes "yields (\<lambda>v. vdepth v \<le> n) p"
  shows "yields (\<lambda>v. vdepth v \<le> Suc n) (p_map C p)"
  unfolding yields_def [of _ "p_map C p"] p_map_def
  by (auto simp: p_bind_eq_POk take_pairs_depth split: option.splits dest!: p_count_yields [OF assms])

lemma checked_double_Some:
  assumes "checked_double (as_usize n) = Some k" and "- (2 ^ 63) \<le> n" and "n \<le> 2 ^ 63 - 1"
  shows "0 \<le> n \<and> k = 2 * nat n"
proof -
  have n: "0 \<le> n"
  proof (rule ccontr)
    assume "\<not> 0 \<le> n"
    then have "n mod 2 ^ 64 = n + 2 ^ 64"
      using assms(2) mod_pos_pos_trivial [of "n + 2 ^ 64" "2 ^ 64"] by simp
    with assms \<open>\<not> 0 \<le> n\<close> show False
      by (simp add: checked_double_def as_usize_def int_cast_def split: if_splits)
  qed
  with assms show ?thesis
    by (auto simp: checked_double_def as_usize_def int_cast_unsigned_id split: if_splits)
qed

lemma p_int_range: "p_int C s = POk n r \<Longrightarrow> - (2 ^ 63) \<le> n \<and> n \<le> 2 ^ 63 - 1"
proof -
  assume "p_int C s = POk n r"
  then obtain line r0 where "p_line C s = POk line r0"
      "(case parse_i64 (trim line) of Some n \<Rightarrow> POk n r0
        | None \<Rightarrow> PErr (StaticMessage ''Expected integer, got garbage'')) = POk n r"
    by (auto simp: p_int_def p_bind_eq_POk)
  then have "parse_i64 (trim line) = Some n" by (simp split: option.splits)
  then show ?thesis unfolding parse_i64_def using parse_int_range by blast
qed

lemma yields_attribute:
  assumes "yields (\<lambda>v. vdepth v \<le> n) p"
  shows "yields (\<lambda>v. vdepth v \<le> Suc n) (p_attribute C p)"
  unfolding yields_def [of _ "p_attribute C p"]
proof (intro allI impI)
  fix s v r assume "p_attribute C p s = POk v r"
  then obtain k r0 len vs where i: "p_int C s = POk k r0" "checked_double (as_usize k) = Some len"
      "p_count p (Suc len) r0 = POk vs r" "v = VAttribute (hd (snd (take_pairs (nat k) vs))) (fst (take_pairs (nat k) vs))"
    by (auto simp: p_attribute_def p_bind_eq_POk Let_def case_prod_unfold split: option.splits)
  have d: "\<forall>x \<in> set vs. vdepth x \<le> n" using p_count_yields [OF assms i(3)] .
  have "length vs = 2 * nat k + 1"
    using p_count_length [OF i(3)] checked_double_Some [OF i(2)] p_int_range [OF i(1)] by simp
  then have "snd (take_pairs (nat k) vs) \<noteq> []" using take_pairs_length [of vs "nat k" 1] by auto
  then have "hd (snd (take_pairs (nat k) vs)) \<in> set vs"
    using take_pairs_set [of "nat k" vs "fst (take_pairs (nat k) vs)" "snd (take_pairs (nat k) vs)"]
    by (metis hd_in_set prod.collapse subsetD)
  with d show "vdepth v \<le> Suc n" by (simp add: i(4) take_pairs_depth)
qed

lemma yields_scalar:
  "yields (\<lambda>v. vdepth v = 1) (p_simple_string C)" "yields (\<lambda>v. vdepth v = 1) (p_bulk_string C)"
  "yields (\<lambda>v. vdepth v = 1) (p_null C)" "yields (\<lambda>v. vdepth v = 1) (p_big_number C)"
  by (auto simp: yields_def p_simple_string_def p_bulk_string_def p_null_def p_big_number_def
      p_bind_eq_POk split: if_splits)

lemma yields_verbatim: "yields (\<lambda>v. vdepth v = 1) (p_verbatim C)"
  unfolding yields_def
proof (intro allI impI)
  fix s v r assume "p_verbatim C s = POk v r"
  then obtain line r0 where "(case splitn2 CHR '':'' line of
         (format, Some text) \<Rightarrow> POk (VerbatimString (verbatim_format_of format) text) r0
       | (_, None) \<Rightarrow> PErr (StaticMessage ''parse error when decoding verbatim string'')) = POk v r"
    by (auto simp: p_verbatim_def p_bind_eq_POk)
  then show "vdepth v = 1"
    by (cases "splitn2 CHR '':'' line") (auto split: option.splits)
qed

lemma yields_if: "yields P p \<Longrightarrow> yields P q \<Longrightarrow> yields P (\<lambda>s. if b then p s else q s)"
  by (cases b) simp_all

lemma yields_map_result: "(\<And>x. P (f x)) \<Longrightarrow> yields P (\<lambda>s. p_bind (m s) (\<lambda>x r. POk (f x) r))"
  by (auto simp: yields_def p_bind_eq_POk)

lemma yields_err: "yields P (\<lambda>s. PErr e)"
  by (simp add: yields_def)

lemma yields_mono: "yields P p \<Longrightarrow> (\<And>v. P v \<Longrightarrow> Q v) \<Longrightarrow> yields Q p"
  unfolding yields_def by blast

lemma yields_dispatch:
  assumes "yields (\<lambda>v. vdepth v \<le> n) p"
  shows "yields (\<lambda>v. vdepth v \<le> Suc n) (p_dispatch C p b)"
proof -
  have scalar: "yields (\<lambda>v. vdepth v \<le> Suc n) q" if "yields (\<lambda>v. vdepth v = 1) q" for q
    using that by (rule yields_mono) simp
  show ?thesis
    unfolding p_dispatch_def [abs_def]
    by (intro yields_if yields_err yields_map_result yields_array yields_set yields_push yields_map
        yields_attribute scalar yields_scalar yields_verbatim assms) simp_all
qed

lemma p_value_depth: "yields (\<lambda>v. vdepth v \<le> MAX_RECURSE_DEPTH + 1 - n) (p_value C n)"
proof (induction "MAX_RECURSE_DEPTH + 1 - n" arbitrary: n)
  case 0
  then show ?case by (subst p_value.simps [abs_def]) (auto simp: yields_def p_bind_eq_POk)
next
  case (Suc m)
  then have "yields (\<lambda>v. vdepth v \<le> m) (p_value C (n + 1))"
    by (metis Suc_eq_plus1 diff_Suc_1 diff_Suc_Suc Suc_diff_Suc add_diff_cancel_right' diff_diff_left)
  note d = yields_dispatch [OF this, of C]
  have "vdepth v \<le> MAX_RECURSE_DEPTH + 1 - n" if "p_value C n s = POk v r" for s v r
  proof -
    from that obtain b s' where "p_dispatch C (p_value C (n + 1)) b s' = POk v r"
      by (subst (asm) p_value.simps) (auto simp: p_bind_eq_POk split: if_splits)
    from yieldsD [OF d this] show ?thesis using Suc.hyps(2) by simp
  qed
  then show ?case by (simp add: yields_def)
qed

text \<open>C21.  The parser returns no reply nested deeper than 100 levels: whatever bytes the server
  sends, a parsed reply has depth at most \<^const>\<open>MAX_RECURSE_DEPTH\<close>, and the nesting of the
  recursive calls is bounded by the same number.\<close>

theorem parsed_reply_depth_bounded:
  "p_reply C s = POk v r \<Longrightarrow> vdepth v \<le> MAX_RECURSE_DEPTH"
  using yieldsD [OF p_value_depth [of 1 C]] by (simp add: p_reply_def)

theorem parsed_reply_depth_bounded_witness:
  "p_reply std_combine (''*1'' @ CRLF @ '':7'' @ CRLF) = POk (VArray [VInt 7]) [] \<and>
   vdepth (VArray [VInt 7]) \<le> MAX_RECURSE_DEPTH"
proof -
  have "p_reply std_combine (''*1'' @ CRLF @ '':7'' @ CRLF) = POk (VArray [VInt 7]) []"
    by code_simp
  with parsed_reply_depth_bounded [OF this] show ?thesis by simp
qed

end
