(* ===== verification/Resp_Roundtrip.thy ===== *)
theory Resp_Roundtrip
  imports Command Resp_Parser
begin

text \<open>
  The parser against the protocol: a reference encoder of replies (RESP3) and the proof that
  \<^verbatim>\<open>parser.rs\<close> reads back every reply the encoder can write, whatever follows it.  Commands are
  arrays of bulk strings, so the bytes of \<^verbatim>\<open>cmd.rs\<close> are read back too.
\<close>

section \<open>Reference encoder\<close>

definition enc_line :: "char \<Rightarrow> bytes \<Rightarrow> bytes" where
  "enc_line c s = c # s @ CRLF"

definition enc_len :: "char \<Rightarrow> nat \<Rightarrow> bytes" where
  "enc_len c n = enc_line c (show_nat n)"

definition server_error_line :: "ServerError \<Rightarrow> bytes" where
  "server_error_line e =
     se_code e @ (case se_details e of None \<Rightarrow> [] | Some d \<Rightarrow> CHR '' '' # d)"

definition enc_blob :: "char \<Rightarrow> bytes \<Rightarrow> bytes" where
  "enc_blob c s = enc_len c (length s) @ s @ CRLF"

function (sequential) encode_value :: "Value \<Rightarrow> bytes"
and encode_values :: "Value list \<Rightarrow> bytes"
and encode_pairs :: "(Value \<times> Value) list \<Rightarrow> bytes" where
  "encode_value VNil = enc_line CHR ''_'' []"
| "encode_value (VInt i) = enc_line CHR '':'' (show_int (sint i))"
| "encode_value (BulkString s) = enc_blob CHR ''$'' s"
| "encode_value (VArray vs) = enc_len CHR ''*'' (length vs) @ encode_values vs"
| "encode_value (SimpleString s) = enc_line CHR ''+'' s"
| "encode_value Okay = enc_line CHR ''+'' ''OK''"
| "encode_value (VMap m) = enc_len CHR ''%'' (length m) @ encode_pairs m"
| "encode_value (VAttribute d m) =
     enc_len CHR ''|'' (length m) @ encode_pairs m @ encode_value d"
| "encode_value (VSet vs) = enc_len CHR ''~'' (length vs) @ encode_values vs"
| "encode_value (VDouble d) = enc_line CHR '','' (show_f64 d)"
| "encode_value (VBoolean b) = enc_line CHR ''#'' (if b then ''t'' else ''f'')"
| "encode_value (VerbatimString f t) = enc_blob CHR ''='' (verbatim_format_text f @ '':'' @ t)"
| "encode_value (BigNumber n) = enc_line CHR ''('' n"
| "encode_value (VPush k vs) =
     enc_len CHR ''>'' (Suc (length vs)) @ enc_blob CHR ''$'' (push_kind_text k) @ encode_values vs"
| "encode_value (VServerError e) = enc_line CHR ''-'' (server_error_line e)"
| "encode_values [] = []"
| "encode_values (v # vs) = encode_value v @ encode_values vs"
| "encode_pairs [] = []"
| "encode_pairs ((k, v) # m) = encode_value k @ encode_value v @ encode_pairs m"
  by pat_completeness auto

termination
  by (relation "measure (case_sum size (case_sum (size_list size) (size_list (size_prod size size))))")
     auto

text \<open>What a reply must satisfy to be expressible on the wire: texts of one line are UTF-8 without
  a line break, lengths fit the parser's integer, names are the canonical ones, a push carries
  data, and a float's text reads back as the float.\<close>

definition line_ok :: "bytes \<Rightarrow> bool" where
  "line_ok s \<longleftrightarrow> find_crlf s = None \<and> utf8_valid s"

definition len_ok :: "nat \<Rightarrow> bool" where
  "len_ok n \<longleftrightarrow> n < 2 ^ 62"

fun verbatim_ok :: "VerbatimFormat \<Rightarrow> bool" where
  "verbatim_ok (UnknownFormat f) \<longleftrightarrow> CHR '':'' \<notin> set f \<and> f \<noteq> ''txt'' \<and> f \<noteq> ''mkd''"
| "verbatim_ok _ \<longleftrightarrow> True"

fun server_error_ok :: "ServerError \<Rightarrow> bool" where
  "server_error_ok (Extension c d) \<longleftrightarrow> CHR '' '' \<notin> set c \<and> c \<notin> range kind_code"
| "server_error_ok (Known k d) \<longleftrightarrow> True"

fun push_ok :: "PushKind \<Rightarrow> bool" where
  "push_ok (OtherPush k) \<longleftrightarrow> get_push_kind k = OtherPush k \<and> utf8_valid k"
| "push_ok Disconnection \<longleftrightarrow> False"
| "push_ok _ \<longleftrightarrow> True"

function (sequential) wire_ok :: "Value \<Rightarrow> bool"
and wire_oks :: "Value list \<Rightarrow> bool"
and wire_ok_pairs :: "(Value \<times> Value) list \<Rightarrow> bool" where
  "wire_ok (BulkString s) \<longleftrightarrow> len_ok (length s)"
| "wire_ok (VArray vs) \<longleftrightarrow> len_ok (length vs) \<and> wire_oks vs"
| "wire_ok (SimpleString s) \<longleftrightarrow> line_ok s \<and> s \<noteq> ''OK''"
| "wire_ok (VMap m) \<longleftrightarrow> len_ok (length m) \<and> wire_ok_pairs m"
| "wire_ok (VAttribute d m) \<longleftrightarrow> len_ok (length m) \<and> wire_ok d \<and> wire_ok_pairs m"
| "wire_ok (VSet vs) \<longleftrightarrow> len_ok (length vs) \<and> wire_oks vs"
| "wire_ok (VDouble d) \<longleftrightarrow> line_ok (show_f64 d) \<and> parse_f64 (trim (show_f64 d)) = Some d"
| "wire_ok (VerbatimString f t) \<longleftrightarrow>
     verbatim_ok f \<and> len_ok (length (verbatim_format_text f @ '':'' @ t)) \<and>
     utf8_valid (verbatim_format_text f @ '':'' @ t)"
| "wire_ok (BigNumber n) \<longleftrightarrow> line_ok n"
| "wire_ok (VPush k vs) \<longleftrightarrow>
     push_ok k \<and> len_ok (length (push_kind_text k)) \<and> len_ok (Suc (length vs)) \<and> vs \<noteq> [] \<and> wire_oks vs"
| "wire_ok (VServerError e) \<longleftrightarrow> server_error_ok e \<and> line_ok (server_error_line e)"
| "wire_ok _ \<longleftrightarrow> True"
| "wire_oks [] \<longleftrightarrow> True"
| "wire_oks (v # vs) \<longleftrightarrow> wire_ok v \<and> wire_oks vs"
| "wire_ok_pairs [] \<longleftrightarrow> True"
| "wire_ok_pairs ((k, v) # m) \<longleftrightarrow> wire_ok k \<and> wire_ok v \<and> wire_ok_pairs m"
  by pat_completeness auto

termination
  by (relation "measure (case_sum size (case_sum (size_list size) (size_list (size_prod size size))))")
     auto

section \<open>Lines, integers and lengths\<close>

lemma find_crlf_line: "find_crlf l = None \<Longrightarrow> find_crlf (l @ CR # LF # r) = Some (length l)"
proof (induction l rule: find_crlf.induct)
  case (1 a b s)
  then show ?case by (auto split: if_splits)
qed auto

lemma p_line_correct:
  "combine_ok C \<Longrightarrow> line_ok l \<Longrightarrow> p_line C (l @ CR # LF # r) = POk l r"
  by (simp add: p_line_def c_take_until_eq find_crlf_line line_ok_def c_take_eq from_utf8_def Let_def)

lemma find_crlf_no_CR: "CR \<notin> set l \<Longrightarrow> find_crlf l = None"
  by (induction l rule: find_crlf.induct) auto

lemma line_ok_ascii: "CR \<notin> set l \<Longrightarrow> is_ascii l \<Longrightarrow> line_ok l"
  by (simp add: line_ok_def find_crlf_no_CR utf8_valid_ascii)

lemma CR_notin_show_nat [simp]: "CR \<notin> set (show_nat n)"
  using show_nat_digits [of CR n] is_digit_neq [of CR] by blast

lemma CR_notin_show_int [simp]: "CR \<notin> set (show_int i)"
  by (auto simp: show_int_def)

lemma p_int_correct:
  "combine_ok C \<Longrightarrow> - (2 ^ 63) \<le> i \<Longrightarrow> i \<le> 2 ^ 63 - 1 \<Longrightarrow> p_int C (show_int i @ CR # LF # r) = POk i r"
  using parse_i64_show_int [of i] by (simp add: p_int_def p_line_correct line_ok_ascii)

lemma show_nat_int: "show_nat n = show_int (int n)"
  by (simp add: show_int_def)

lemma p_len_correct:
  "combine_ok C \<Longrightarrow> len_ok n \<Longrightarrow> p_int C (show_nat n @ CR # LF # r) = POk (int n) r"
  unfolding show_nat_int by (rule p_int_correct) (auto simp: len_ok_def)

lemma as_usize_int: "len_ok n \<Longrightarrow> as_usize (int n) = n"
  by (simp add: as_usize_def int_cast_unsigned_id len_ok_def)

lemma checked_double_int: "len_ok n \<Longrightarrow> checked_double n = Some (n * 2)"
  by (simp add: checked_double_def len_ok_def)

lemma c_take_append: "combine_ok C \<Longrightarrow> c_take C (length s) (s @ r) = POk s r"
  by (simp add: c_take_eq)

section \<open>Names\<close>

lemma err_parser_known: "splitn2 CHR '' '' line = (kind_code k, d) \<Longrightarrow> err_parser line = Known k d"
  by (cases k) (simp_all add: err_parser_def)

lemma err_parser_extension:
  assumes "splitn2 CHR '' '' line = (c, d)" and "c \<notin> range kind_code"
  shows "err_parser line = Extension c d"
proof -
  have "c \<noteq> kind_code k" for k using assms(2) by blast
  from this [of ResponseError] this [of ExecAbort] this [of BusyLoading] this [of NoScript]
    this [of Moved] this [of Ask] this [of TryAgain] this [of ClusterDown] this [of CrossSlot]
    this [of MasterDown] this [of ReadOnly] this [of NotBusy] this [of NoSub] this [of NoPerm]
  show ?thesis by (simp add: err_parser_def assms(1))
qed

lemma splitn2_server_error_line:
  "CHR '' '' \<notin> set (se_code e) \<Longrightarrow> splitn2 CHR '' '' (server_error_line e) = (se_code e, se_details e)"
  by (auto simp: server_error_line_def splitn2_none splitn2_append split: option.split)

lemma err_parser_server_error_line:
  assumes "server_error_ok e"
  shows "err_parser (server_error_line e) = e"
proof (cases e)
  case (Extension c d)
  then show ?thesis
    using assms splitn2_server_error_line [of e]
    by (intro err_parser_extension [THEN trans]) (auto simp: se_code_def se_details_def)
next
  case (Known k d)
  then show ?thesis
    using splitn2_server_error_line [of e] kind_code_no_space [of k]
    by (intro err_parser_known [THEN trans]) (auto simp: se_code_def se_details_def)
qed

lemma get_push_kind_text: "push_ok k \<Longrightarrow> get_push_kind (push_kind_text k) = k"
  by (cases k) (simp_all add: get_push_kind_def)

lemma push_texts_utf8:
  "list_all (utf8_valid \<circ> push_kind_text)
     [Invalidate, Message, PMessage, SMessage, Unsubscribe, PUnsubscribe, SUnsubscribe, Subscribe,
      PSubscribe, SSubscribe]"
  by code_simp

lemma push_kind_text_utf8: "push_ok k \<Longrightarrow> utf8_valid (push_kind_text k)"
  using push_texts_utf8 by (cases k) (simp_all del: utf8_valid.simps)

lemma verbatim_format_text_of: "verbatim_ok f \<Longrightarrow> verbatim_format_of (verbatim_format_text f) = f"
  by (cases f) (simp_all add: verbatim_format_of_def)

lemma verbatim_no_colon: "verbatim_ok f \<Longrightarrow> CHR '':'' \<notin> set (verbatim_format_text f)"
  by (cases f) auto

section \<open>Completeness\<close>

definition reads :: "combine_prims \<Rightarrow> nat \<Rightarrow> Value \<Rightarrow> bool" where
  "reads C n v \<longleftrightarrow> (\<forall>r. p_value C n (encode_value v @ r) = POk v r)"

lemma p_count_reads:
  "\<forall>v \<in> set vs. reads C n v \<Longrightarrow> p_count (p_value C n) (length vs) (encode_values vs @ r) = POk vs r"
  by (induction vs) (auto simp: reads_def)

lemma encode_pairs_flatten: "encode_pairs m = encode_values (flatten_pairs m)"
  by (induction m rule: flatten_pairs.induct) auto

lemma take_pairs_flatten: "take_pairs (length m) (flatten_pairs m @ r) = (m, r)"
  by (induction m rule: flatten_pairs.induct) auto

lemma encode_values_append: "encode_values (xs @ ys) = encode_values xs @ encode_values ys"
  by (induction xs) auto

lemma p_value_step:
  "combine_ok C \<Longrightarrow> n \<le> MAX_RECURSE_DEPTH \<Longrightarrow>
     p_value C n (c # s) = p_dispatch C (p_value C (Suc n)) c s"
  by (subst p_value.simps) (simp add: c_any_eq)

lemmas enc_defs = enc_blob_def enc_len_def enc_line_def

lemma p_blob_correct:
  "combine_ok C \<Longrightarrow> len_ok (length s) \<Longrightarrow> utf8_valid s \<Longrightarrow>
     p_blob C (show_nat (length s) @ CR # LF # s @ CR # LF # r) = POk s r"
  by (simp add: p_blob_def p_len_correct as_usize_int c_take_append c_crlf_cases(3)
      from_utf8_lossy_valid)

lemma p_bulk_string_correct:
  "combine_ok C \<Longrightarrow> len_ok (length s) \<Longrightarrow>
     p_bulk_string C (show_nat (length s) @ CR # LF # s @ CR # LF # r) = POk (BulkString s) r"
  by (simp add: p_bulk_string_def p_len_correct as_usize_int c_take_append c_crlf_cases(3))

lemma reads_scalar:
  assumes C: "combine_ok C" and n: "n \<le> MAX_RECURSE_DEPTH"
  shows "reads C n VNil" "reads C n (VInt i)" "reads C n Okay" "reads C n (VBoolean b)"
    "wire_ok (BulkString s) \<Longrightarrow> reads C n (BulkString s)"
    "wire_ok (SimpleString s) \<Longrightarrow> reads C n (SimpleString s)"
    "wire_ok (VDouble d) \<Longrightarrow> reads C n (VDouble d)"
    "wire_ok (BigNumber s) \<Longrightarrow> reads C n (BigNumber s)"
    "wire_ok (VServerError e) \<Longrightarrow> reads C n (VServerError e)"
proof -
  have s: "- (2 ^ 63) \<le> sint i" "sint i \<le> 2 ^ 63 - 1"
    using sint_greater_eq [of i] sint_lt [of i] by simp_all
  note step = reads_def enc_defs p_value_step [OF C n] p_dispatch_def
  have l: "line_ok ''OK''" "line_ok ''t''" "line_ok ''f''" "line_ok []"
    by code_simp+
  show "reads C n VNil"
    using p_line_correct [OF C l(4)] by (simp add: step p_null_def)
  show "reads C n (VInt i)"
    using p_int_correct [OF C s] by (simp add: step)
  show "reads C n Okay"
    using p_line_correct [OF C l(1)] by (simp add: step p_simple_string_def)
  show "reads C n (VBoolean b)"
    using p_line_correct [OF C l(2)] p_line_correct [OF C l(3)] by (simp add: step p_boolean_def)
  show "wire_ok (BulkString s) \<Longrightarrow> reads C n (BulkString s)"
    using p_bulk_string_correct [OF C] by (simp add: step)
  show "wire_ok (SimpleString s) \<Longrightarrow> reads C n (SimpleString s)"
    by (simp add: step p_simple_string_def p_line_correct [OF C])
  show "wire_ok (VDouble d) \<Longrightarrow> reads C n (VDouble d)"
    by (simp add: step p_double_def p_line_correct [OF C])
  show "wire_ok (BigNumber s) \<Longrightarrow> reads C n (BigNumber s)"
    by (simp add: step p_big_number_def p_line_correct [OF C])
  show "wire_ok (VServerError e) \<Longrightarrow> reads C n (VServerError e)"
    by (simp add: step p_error_def p_line_correct [OF C] err_parser_server_error_line)
qed

lemma reads_verbatim:
  assumes C: "combine_ok C" and n: "n \<le> MAX_RECURSE_DEPTH" and w: "wire_ok (VerbatimString f t)"
  shows "reads C n (VerbatimString f t)"
proof -
  have "p_verbatim C (show_nat (length (verbatim_format_text f @ '':'' @ t)) @ CR # LF #
          (verbatim_format_text f @ '':'' @ t) @ CR # LF # r) = POk (VerbatimString f t) r" for r
    unfolding p_verbatim_def using w
    by (subst p_blob_correct [OF C])
       (simp_all del: utf8_valid.simps add: splitn2_append verbatim_no_colon verbatim_format_text_of)
  then show ?thesis by (simp add: reads_def enc_defs p_value_step [OF C n] p_dispatch_def)
qed

lemma reads_sequence:
  assumes C: "combine_ok C" and n: "n \<le> MAX_RECURSE_DEPTH" and l: "len_ok (length vs)"
    and r: "\<forall>v \<in> set vs. reads C (Suc n) v"
  shows "reads C n (VArray vs)" "reads C n (VSet vs)"
  using p_count_reads [OF r]
  by (simp_all add: reads_def enc_defs p_value_step [OF C n] p_dispatch_def p_array_def p_set_def
      p_len_correct [OF C l] as_usize_int [OF l])

lemma reads_push:
  assumes C: "combine_ok C" and n: "n \<le> MAX_RECURSE_DEPTH" and w: "wire_ok (VPush k vs)"
    and r: "\<forall>v \<in> set vs. reads C (Suc n) v" and d: "Suc n \<le> MAX_RECURSE_DEPTH"
  shows "reads C n (VPush k vs)"
proof -
  let ?kind = "BulkString (push_kind_text k)"
  have l: "len_ok (length (?kind # vs))" using w by simp
  have "\<forall>v \<in> set (?kind # vs). reads C (Suc n) v"
    using r reads_scalar(5) [OF C d, of "push_kind_text k"] w by simp
  from p_count_reads [OF this]
  have c: "p_count (p_value C (Suc n)) (Suc (length vs))
          (enc_blob CHR ''$'' (push_kind_text k) @ encode_values vs @ t) = POk (?kind # vs) t" for t
    by simp
  have "push_of_values (?kind # vs) = Inr (VPush k vs)"
    using w by (simp add: push_of_values_def from_utf8_def push_kind_text_utf8 get_push_kind_text)
  with c show ?thesis
    using p_len_correct [OF C l] as_usize_int [OF l]
    by (simp add: reads_def enc_len_def enc_line_def p_value_step [OF C n] p_dispatch_def p_push_def)
qed

lemma reads_map:
  assumes C: "combine_ok C" and n: "n \<le> MAX_RECURSE_DEPTH" and l: "len_ok (length m)"
    and r: "\<forall>v \<in> set (flatten_pairs m). reads C (Suc n) v"
  shows "reads C n (VMap m)"
  using p_count_reads [OF r] take_pairs_flatten [of m "[]"]
  by (simp add: reads_def enc_defs p_value_step [OF C n] p_dispatch_def p_map_def encode_pairs_flatten
      p_len_correct [OF C l] as_usize_int [OF l] checked_double_int [OF l] mult.commute)

lemma reads_attribute:
  assumes C: "combine_ok C" and n: "n \<le> MAX_RECURSE_DEPTH" and l: "len_ok (length m)"
    and r: "\<forall>v \<in> set (flatten_pairs m). reads C (Suc n) v" and d: "reads C (Suc n) d"
  shows "reads C n (VAttribute d m)"
proof -
  have "\<forall>v \<in> set (flatten_pairs m @ [d]). reads C (Suc n) v" using r d by simp
  from p_count_reads [OF this]
  have "p_count (p_value C (Suc n)) (Suc (2 * length m))
          (encode_pairs m @ encode_value d @ t) = POk (flatten_pairs m @ [d]) t" for t
    by (simp add: encode_values_append encode_pairs_flatten)
  then show ?thesis
    using take_pairs_flatten [of m "[d]"]
    by (simp add: reads_def enc_defs p_value_step [OF C n] p_dispatch_def p_attribute_def
        p_len_correct [OF C l] as_usize_int [OF l] checked_double_int [OF l] mult.commute)
qed

lemma encode_reads:
  assumes C: "combine_ok C"
  shows "wire_ok v \<Longrightarrow> vdepth v + n \<le> Suc MAX_RECURSE_DEPTH \<Longrightarrow> reads C n v"
    and "wire_oks vs \<Longrightarrow> vdepths vs + n \<le> Suc MAX_RECURSE_DEPTH \<Longrightarrow> \<forall>v \<in> set vs. reads C n v"
    and "wire_ok_pairs m \<Longrightarrow> vdepths_map m + n \<le> Suc MAX_RECURSE_DEPTH \<Longrightarrow>
           \<forall>v \<in> set (flatten_pairs m). reads C n v"
proof (induction v and vs and m arbitrary: n and n and n
    rule: vdepth_vdepths_vdepths_map.induct)
  case (3 k xs)
  then have "vdepths xs \<ge> 1" by (cases xs; cases "hd xs") auto
  then show ?case using 3 by (auto intro!: reads_push [OF C])
qed (auto intro!: reads_sequence [OF C] reads_map [OF C] reads_attribute [OF C]
      reads_scalar [OF C] reads_verbatim [OF C])

section \<open>Properties\<close>

text \<open>C4.  Every reply that can be expressed on the wire and is nested at most 100 levels deep is
  read back from its RESP3 encoding as exactly that reply, and the bytes after it are left
  untouched.\<close>

theorem reply_roundtrip:
  assumes "combine_ok C" and "wire_ok v" and "vdepth v \<le> MAX_RECURSE_DEPTH"
  shows "p_reply C (encode_value v @ r) = POk v r"
  using encode_reads(1) [OF assms(1,2), of 1] assms(3) by (simp add: reads_def p_reply_def)

theorem reply_roundtrip_witness:
  "p_reply std_combine
     (encode_value (VAttribute (VArray [VInt (- 1), VBoolean True])
        [(BulkString ''ttl'', VServerError (Known Moved (Some ''3999 h:1'')))]) @ ''+'') =
   POk (VAttribute (VArray [VInt (- 1), VBoolean True])
        [(BulkString ''ttl'', VServerError (Known Moved (Some ''3999 h:1'')))]) ''+''"
proof (rule reply_roundtrip [OF std_combine_ok])
  have "line_ok ''MOVED 3999 h:1''" by code_simp
  then show "wire_ok (VAttribute (VArray [VInt (- 1), VBoolean True])
        [(BulkString ''ttl'', VServerError (Known Moved (Some ''3999 h:1'')))])"
    by (simp add: len_ok_def server_error_line_def se_code_def se_details_def)
qed (simp add: MAX_RECURSE_DEPTH_def)

lemma resp_command_reads:
  assumes "combine_ok C" and "len_ok (length as)" and "\<forall>a \<in> set as. len_ok (length a)"
  shows "p_reply C (resp_command as @ r) = POk (VArray (map BulkString as)) r"
proof -
  have enc: "encode_values (map BulkString xs) = concat (map resp_bulk xs)" for xs
    by (induction xs) (simp_all add: enc_defs resp_bulk_def)
  have w: "wire_oks (map BulkString xs)" if "\<forall>a \<in> set xs. len_ok (length a)" for xs
    using that by (induction xs) auto
  have d: "vdepths (map BulkString as) \<le> 1"
    by (simp add: vdepths_le)
  have "resp_command as = encode_value (VArray (map BulkString as))"
    by (simp add: resp_command_def enc enc_defs)
  then show ?thesis
    unfolding p_reply_def
    using encode_reads(1) [OF assms(1), of "VArray (map BulkString as)" 1] w [OF assms(3)] d assms(2)
    by (simp add: reads_def MAX_RECURSE_DEPTH_def)
qed

text \<open>C16.  A command written by \<^verbatim>\<open>Cmd::get_packed_command\<close> is read back by the reply parser as the
  array of its arguments, the cursor included, and leaves the following bytes alone, so commands
  can be sent one after the other on a connection.\<close>

theorem packed_command_parses_back:
  assumes "combine_ok C" and "itoa_ok itoa" and "wf_cmd c" and "\<not> cmd_is_empty c"
    and "len_ok (length (cmd_wire_args c))" and "\<forall>a \<in> set (cmd_wire_args c). len_ok (length a)"
  shows "\<exists>bs. get_packed_command itoa c = Ret bs \<and>
              p_reply C (bs @ r) = POk (VArray (map BulkString (cmd_wire_args c))) r"
  using write_packed_command_wf [OF assms(2,3), of "[]"] resp_command_reads [OF assms(1,5,6)] assms(4)
  by (simp add: get_packed_command_def)

theorem packed_command_parses_back_witness:
  "\<exists>bs. get_packed_command show_int (cursor_arg (cmd ''SCAN'') 17) = Ret bs \<and>
        p_reply std_combine (bs @ ''*'') = POk (VArray [BulkString ''SCAN'', BulkString ''17'']) ''*''"
proof -
  let ?c = "cursor_arg (cmd ''SCAN'') 17"
  have "cmd_args_of ?c = [Simple ''SCAN'', Cursor]" "cursor_or_0 ?c = 17"
    by (simp add: cmd_args_of_cursor_arg) (simp add: cursor_or_0_def cursor_arg_def)
  moreover have "show_nat (unat (17 :: u64)) = ''17''" by code_simp
  ultimately have a: "cmd_wire_args ?c = [''SCAN'', ''17'']" by (simp add: cmd_wire_args_def)
  show ?thesis
    using packed_command_parses_back [OF std_combine_ok itoa_ok_show_int, of ?c "''*''"]
    by (simp add: wf_cmd_cursor_arg cmd_is_empty_def a len_ok_def) (simp add: cursor_arg_def)
qed

definition redirect_line :: "ServerErrorKind \<Rightarrow> nat \<Rightarrow> bytes \<Rightarrow> bytes" where
  "redirect_line k slot addr = CHR ''-'' # kind_code k @ '' '' @ show_nat slot @ '' '' @ addr @ CRLF"

lemma redirect_node_detail:
  assumes "k \<in> {Moved, Ask}" and "slot < 2 ^ 16" and "addr \<noteq> []" and "\<forall>c \<in> set addr. graphic c"
  shows "redirect_node (ServerErr (Known k (Some (show_nat slot @ '' '' @ addr)))) = Some (addr, slot)"
proof -
  have "\<forall>c \<in> set (show_nat slot). graphic c" using show_nat_digits is_digit_graphic by blast
  then have "split_ascii_whitespace (show_nat slot @ '' '' @ addr) = [show_nat slot, addr]"
    using assms by (simp add: split_ascii_whitespace_def split_ascii_whitespace_aux_word
        split_ascii_whitespace_aux_last)
  then show ?thesis
    using assms(1) parse_unsigned_show_nat [OF assms(2)]
    by (auto simp: redirect_node_def error_kind_def se_kind_def error_detail_def se_details_def)
qed

lemma graphic_line: "\<forall>c \<in> set s. graphic c \<Longrightarrow> CR \<notin> set s \<and> is_ascii s"
  by (auto simp: graphic_def in_range_def is_ascii_def list_all_iff)

text \<open>The line of a redirection, as a server sends it, is read as the error that names its node.\<close>

lemma redirect_line_read:
  assumes "combine_ok C" and "k \<in> {Moved, Ask}" and "slot < 2 ^ 16" and "addr \<noteq> []"
    and "\<forall>c \<in> set addr. graphic c"
  shows "\<exists>e. p_reply C (redirect_line k slot addr @ r) = POk (VServerError e) r \<and>
           redirect_node (ServerErr e) = Some (addr, slot) \<and>
           retry_method (ServerErr e) = (if k = Moved then MovedRedirect else AskRedirect)"
proof -
  let ?e = "Known k (Some (show_nat slot @ '' '' @ addr))"
  have l: "redirect_line k slot addr = encode_value (VServerError ?e)"
    by (simp add: redirect_line_def server_error_line_def se_code_def se_details_def enc_defs)
  have "CR \<notin> set (server_error_line ?e) \<and> is_ascii (server_error_line ?e)"
    using assms(2) graphic_line [OF assms(5)]
    by (auto simp: server_error_line_def se_code_def se_details_def is_ascii_Cons is_ascii_def [of "[]"])
  then have "wire_ok (VServerError ?e)" by (simp add: line_ok_ascii)
  then have "p_reply C (redirect_line k slot addr @ r) = POk (VServerError ?e) r"
    using encode_reads(1) [OF assms(1), of "VServerError ?e" 1]
    by (simp add: l reads_def p_reply_def MAX_RECURSE_DEPTH_def)
  moreover have "retry_method (ServerErr ?e) = (if k = Moved then MovedRedirect else AskRedirect)"
    using assms(2) by (auto simp: retry_method_ServerErr se_kind_def kind_retry_method_def)
  ultimately show ?thesis
    using redirect_node_detail [OF assms(2-5)] by auto
qed

end
