(* ===== verification/From_Value.thy ===== *)
theory From_Value
  imports Redis_Error Rust_Float
begin

text \<open>
  Reply conversion of \<^verbatim>\<open>types.rs\<close>: the \<^verbatim>\<open>FromRedisValue\<close> trait and its impls for numbers, \<^verbatim>\<open>bool\<close>,
  strings, vectors, arrays, sets, maps, tuples, options and \<^verbatim>\<open>()\<close>.  As for \<^verbatim>\<open>ToRedisArgs\<close>, an
  impl is a record of the trait's methods; the borrowed (\<open>fr_ref\<close>) and the owned (\<open>fr_own\<close>)
  conversions are kept apart, as in the source, and proved to agree.  Type names inside error
  texts are left out.
\<close>

record 'a from_redis =
  fr_ref :: "Value \<Rightarrow> 'a parse_result"
  fr_own :: "Value \<Rightarrow> 'a parse_result"
  fr_refs :: "Value list \<Rightarrow> 'a list parse_result"
  fr_owns :: "Value list \<Rightarrow> 'a list parse_result"
  fr_each :: "Value list \<Rightarrow> 'a parse_result list"
  fr_byte_slice :: "bytes \<Rightarrow> 'a list option"
  fr_byte_vec :: "bytes \<Rightarrow> 'a list parse_result"

definition res_ok :: "'e + 'a \<Rightarrow> 'a option" where
  "res_ok m = (case m of Inr x \<Rightarrow> Some x | Inl _ \<Rightarrow> None)"

definition res_map :: "('a \<Rightarrow> 'b) \<Rightarrow> 'e + 'a \<Rightarrow> 'e + 'b" where
  "res_map f m = (case m of Inr x \<Rightarrow> Inr (f x) | Inl e \<Rightarrow> Inl e)"

lemma res_ok_simps [simp]: "res_ok (Inr x) = Some x" "res_ok (Inl e) = None"
  by (simp_all add: res_ok_def)

lemma res_map_simps [simp]: "res_map f (Inr x) = Inr (f x)" "res_map f (Inl e) = Inl e"
  by (simp_all add: res_map_def)

text \<open>The provided methods of the trait.\<close>

definition from_redis_impl ::
    "(Value \<Rightarrow> 'a parse_result) \<Rightarrow> (Value \<Rightarrow> 'a parse_result) \<Rightarrow> 'a from_redis" where
  "from_redis_impl r w =
     \<lparr>fr_ref = r, fr_own = w, fr_refs = map_res r, fr_owns = map_res w, fr_each = map w,
      fr_byte_slice = (\<lambda>b. res_ok (res_map (\<lambda>x. [x]) (w (BulkString b)))),
      fr_byte_vec = (\<lambda>b. res_map (\<lambda>x. [x]) (w (BulkString b)))\<rparr>"

abbreviation type_error :: "Value \<Rightarrow> bytes \<Rightarrow> 'a parse_result" where
  "type_error v msg \<equiv> Inl (InvalidType (DebugValue v) msg)"

section \<open>Scalars\<close>

text \<open>\<^verbatim>\<open>i as f64\<close>: the nearest float.\<close>

definition int_to_f64 :: "int \<Rightarrow> f64" where
  "int_to_f64 i = f64_sign (i < 0) (round_f64 (nat \<bar>i\<bar>) 1)"

text \<open>The number macro at a numeric type given by its \<^verbatim>\<open>as\<close> casts from \<^verbatim>\<open>i64\<close> and \<^verbatim>\<open>f64\<close> and
  its \<^verbatim>\<open>FromStr\<close>.\<close>

definition num_ref ::
    "(int \<Rightarrow> 'n) \<Rightarrow> (f64 \<Rightarrow> 'n) \<Rightarrow> (bytes \<Rightarrow> 'n option) \<Rightarrow> Value \<Rightarrow> 'n parse_result" where
  "num_ref of_i64 of_f64 parse v0 =
     (let v = get_inner_value v0
      in case v of
           VInt val \<Rightarrow> Inr (of_i64 (sint val))
         | SimpleString s \<Rightarrow>
             (case parse s of Some rv \<Rightarrow> Inr rv | None \<Rightarrow> type_error v ''Could not convert from string.'')
         | BulkString bytes \<Rightarrow>
             (case from_utf8 bytes of
                None \<Rightarrow> Inl InvalidUtf8
              | Some s \<Rightarrow>
                  (case parse s of Some rv \<Rightarrow> Inr rv
                   | None \<Rightarrow> type_error v ''Could not convert from string.''))
         | VDouble val \<Rightarrow> Inr (of_f64 val)
         | _ \<Rightarrow> type_error v ''Response type not convertible to numeric.'')"

definition from_num ::
    "(int \<Rightarrow> 'n) \<Rightarrow> (f64 \<Rightarrow> 'n) \<Rightarrow> (bytes \<Rightarrow> 'n option) \<Rightarrow> 'n from_redis" where
  "from_num of_i64 of_f64 parse =
     from_redis_impl (num_ref of_i64 of_f64 parse) (num_ref of_i64 of_f64 parse)"

text \<open>The instances of the macro at the integer types and \<^verbatim>\<open>f64\<close>.\<close>

definition from_signed :: "nat \<Rightarrow> int from_redis" where
  "from_signed w =
     from_num (int_cast True w) (f64_to_int (- (2 ^ (w - 1))) (2 ^ (w - 1) - 1))
       (parse_int (- (2 ^ (w - 1))) (2 ^ (w - 1) - 1))"

definition from_unsigned :: "nat \<Rightarrow> int from_redis" where
  "from_unsigned w =
     from_num (int_cast False w) (f64_to_int 0 (2 ^ w - 1)) (parse_int 0 (2 ^ w - 1))"

definition from_f64 :: "f64 from_redis" where
  "from_f64 = from_num int_to_f64 (\<lambda>d. d) parse_f64"

definition u8_of_int :: "int \<Rightarrow> char" where
  "u8_of_int i = char_of (nat i)"

definition from_u8 :: "char from_redis" where
  "from_u8 =
     (from_num (\<lambda>i. u8_of_int (int_cast False 8 i)) (\<lambda>d. u8_of_int (f64_to_int 0 255 d))
        (\<lambda>s. map_option u8_of_int (parse_int 0 255 s)))
     \<lparr>fr_byte_slice := Some, fr_byte_vec := Inr\<rparr>"

definition bool_ref :: "Value \<Rightarrow> bool parse_result" where
  "bool_ref v0 =
     (let v = get_inner_value v0
      in case v of
           VNil \<Rightarrow> Inr False
         | VInt val \<Rightarrow> Inr (val \<noteq> 0)
         | SimpleString s \<Rightarrow>
             (if s = ''1'' then Inr True else if s = ''0'' then Inr False
              else type_error v ''Response status not valid boolean'')
         | BulkString bytes \<Rightarrow>
             (if bytes = ''1'' then Inr True else if bytes = ''0'' then Inr False
              else type_error v ''Response type not bool compatible.'')
         | VBoolean b \<Rightarrow> Inr b
         | Okay \<Rightarrow> Inr True
         | _ \<Rightarrow> type_error v ''Response type not bool compatible.'')"

definition from_bool :: "bool from_redis" where
  "from_bool = from_redis_impl bool_ref bool_ref"

text \<open>\<^verbatim>\<open>CString::new\<close> refuses an interior nul byte.\<close>

definition cstring_new :: "bytes \<Rightarrow> bytes parse_result" where
  "cstring_new s = (if CHR 0x00 \<in> set s then Inl InteriorNul else Inr s)"

definition cstring_ref :: "Value \<Rightarrow> bytes parse_result" where
  "cstring_ref v0 =
     (let v = get_inner_value v0
      in case v of
           BulkString bytes \<Rightarrow> cstring_new bytes
         | Okay \<Rightarrow> cstring_new ''OK''
         | SimpleString val \<Rightarrow> cstring_new val
         | _ \<Rightarrow> type_error v ''Response type not CString compatible.'')"

definition from_cstring :: "bytes from_redis" where
  "from_cstring = from_redis_impl cstring_ref cstring_ref"

text \<open>The two conversions to \<^verbatim>\<open>String\<close> differ only in the error for invalid UTF-8.\<close>

definition string_conv :: "ParsingError \<Rightarrow> Value \<Rightarrow> bytes parse_result" where
  "string_conv utf8_err v0 =
     (let v = get_inner_value v0
      in case v of
           BulkString bytes \<Rightarrow> (case from_utf8 bytes of Some s \<Rightarrow> Inr s | None \<Rightarrow> Inl utf8_err)
         | Okay \<Rightarrow> Inr ''OK''
         | SimpleString val \<Rightarrow> Inr val
         | VerbatimString _ text \<Rightarrow> Inr text
         | VDouble val \<Rightarrow> Inr (show_f64 val)
         | VInt val \<Rightarrow> Inr (show_int (sint val))
         | _ \<Rightarrow> type_error v ''Response type not string compatible.'')"

definition from_string :: "bytes from_redis" where
  "from_string = from_redis_impl (string_conv InvalidUtf8) (string_conv CannotConvertUtf8)"

definition from_value :: "Value from_redis" where
  "from_value = from_redis_impl Inr Inr"

definition unit_ref :: "Value \<Rightarrow> unit parse_result" where
  "unit_ref v = (case v of VServerError err \<Rightarrow> Inl (ShownServerError err) | _ \<Rightarrow> Inr ())"

definition from_unit :: "unit from_redis" where
  "from_unit = from_redis_impl unit_ref unit_ref"

definition bytes_ref :: "Value \<Rightarrow> bytes parse_result" where
  "bytes_ref v0 =
     (let v = get_inner_value v0
      in case v of BulkString b \<Rightarrow> Inr b | _ \<Rightarrow> type_error v ''Not a bulk string'')"

definition from_bytes :: "bytes from_redis" where
  "from_bytes = from_redis_impl bytes_ref bytes_ref"

section \<open>Collections\<close>

text \<open>Vectors and boxed or shared slices.\<close>

definition vec_ref :: "'a from_redis \<Rightarrow> Value \<Rightarrow> 'a list parse_result" where
  "vec_ref d v = (case v of
     BulkString bytes \<Rightarrow>
       (case fr_byte_slice d bytes of Some x \<Rightarrow> Inr x | None \<Rightarrow> type_error v ''Conversion failed.'')
   | VArray items \<Rightarrow> fr_refs d items
   | VSet items \<Rightarrow> fr_refs d items
   | VMap items \<Rightarrow> map_res (\<lambda>item. fr_ref d (VMap [item])) items
   | VNil \<Rightarrow> Inr []
   | _ \<Rightarrow> type_error v ''Response type not vector compatible.'')"

definition vec_own :: "'a from_redis \<Rightarrow> Value \<Rightarrow> 'a list parse_result" where
  "vec_own d v = (case v of
     BulkString bytes \<Rightarrow> fr_byte_vec d bytes
   | VArray items \<Rightarrow> fr_owns d items
   | VSet items \<Rightarrow> fr_owns d items
   | VMap items \<Rightarrow> map_res (\<lambda>item. fr_own d (VMap [item])) items
   | VNil \<Rightarrow> Inr []
   | _ \<Rightarrow> type_error v ''Response type not vector compatible.'')"

definition from_vec :: "'a from_redis \<Rightarrow> 'a list from_redis" where
  "from_vec d = from_redis_impl (vec_ref d) (vec_own d)"

text \<open>Arrays of a fixed length \<open>n\<close>.\<close>

definition vec_to_array :: "nat \<Rightarrow> 'a list \<Rightarrow> Value \<Rightarrow> 'a list parse_result" where
  "vec_to_array n items original_value =
     (if length items = n then Inr items
      else type_error original_value
             (''Response has wrong dimension, expected '' @ show_nat n @ '', got '' @ show_nat (length items)))"

definition array_ref :: "nat \<Rightarrow> 'a from_redis \<Rightarrow> Value \<Rightarrow> 'a list parse_result" where
  "array_ref n d v = (case v of
     BulkString bytes \<Rightarrow>
       (case fr_byte_slice d bytes of
          Some items \<Rightarrow> vec_to_array n items v
        | None \<Rightarrow> type_error v ''Conversion to Array failed'')
   | VArray items \<Rightarrow> res_bind (fr_refs d items) (\<lambda>xs. vec_to_array n xs v)
   | VNil \<Rightarrow> vec_to_array n [] v
   | _ \<Rightarrow> type_error v ''Response type not array compatible'')"

definition from_array :: "nat \<Rightarrow> 'a from_redis \<Rightarrow> 'a list from_redis" where
  "from_array n d = from_redis_impl (array_ref n d) (array_ref n d)"

text \<open>A map collects its entries in order, a later entry replacing an earlier one with an equal
  key; it is given here as the sequence of insertions.\<close>

definition map_entries_ref ::
    "'k from_redis \<Rightarrow> 'v from_redis \<Rightarrow> Value \<Rightarrow> ('k \<times> 'v) list parse_result" where
  "map_entries_ref dk dv v0 =
     (let v = get_inner_value v0
      in case v of
           VNil \<Rightarrow> Inr []
         | _ \<Rightarrow>
             (case as_map_iter v of
                None \<Rightarrow> type_error v ''Response type not map compatible''
              | Some it \<Rightarrow>
                  map_res (\<lambda>(k, v). res_bind (fr_ref dk k) (\<lambda>k'.
                                    res_bind (fr_ref dv v) (\<lambda>v'. Inr (k', v')))) it))"

definition map_entries_own ::
    "'k from_redis \<Rightarrow> 'v from_redis \<Rightarrow> Value \<Rightarrow> ('k \<times> 'v) list parse_result" where
  "map_entries_own dk dv v0 =
     (let v = get_inner_value v0
      in case v of
           VNil \<Rightarrow> Inr []
         | _ \<Rightarrow>
             (case into_map_iter v of
                Inl v' \<Rightarrow> type_error v' ''Response type not map compatible''
              | Inr it \<Rightarrow>
                  map_res (\<lambda>(k, v). res_bind (fr_own dk k) (\<lambda>k'.
                                    res_bind (fr_own dv v) (\<lambda>v'. Inr (k', v')))) it))"

definition map_of_entries :: "('k \<times> 'v) list \<Rightarrow> 'k \<rightharpoonup> 'v" where
  "map_of_entries es = foldl (\<lambda>m (k, v). m(k \<mapsto> v)) Map.empty es"

definition from_map :: "'k from_redis \<Rightarrow> 'v from_redis \<Rightarrow> ('k \<rightharpoonup> 'v) from_redis" where
  "from_map dk dv =
     from_redis_impl (\<lambda>v. res_map map_of_entries (map_entries_ref dk dv v))
       (\<lambda>v. res_map map_of_entries (map_entries_own dk dv v))"

definition set_ref :: "'a from_redis \<Rightarrow> Value \<Rightarrow> 'a set parse_result" where
  "set_ref d v0 =
     (let v = get_inner_value v0
      in case as_sequence v of
           None \<Rightarrow> type_error v ''Response type not map compatible''
         | Some items \<Rightarrow> res_map set (map_res (fr_ref d) items))"

definition set_own :: "'a from_redis \<Rightarrow> Value \<Rightarrow> 'a set parse_result" where
  "set_own d v0 =
     (let v = get_inner_value v0
      in case into_sequence v of
           Inl v' \<Rightarrow> type_error v' ''Response type not map compatible''
         | Inr items \<Rightarrow> res_map set (map_res (fr_own d) items))"

definition from_set :: "'a from_redis \<Rightarrow> 'a set from_redis" where
  "from_set d = from_redis_impl (set_ref d) (set_own d)"

definition option_ref :: "'a from_redis \<Rightarrow> Value \<Rightarrow> 'a option parse_result" where
  "option_ref d v0 =
     (let v = get_inner_value v0 in if v = VNil then Inr None else res_map Some (fr_ref d v))"

definition option_own :: "'a from_redis \<Rightarrow> Value \<Rightarrow> 'a option parse_result" where
  "option_own d v0 =
     (let v = get_inner_value v0 in if v = VNil then Inr None else res_map Some (fr_own d v))"

definition from_option :: "'a from_redis \<Rightarrow> 'a option from_redis" where
  "from_option d = from_redis_impl (option_ref d) (option_own d)"

section \<open>Tuples\<close>

text \<open>The tuple macro at arity \<open>n\<close>, with \<open>conv\<close> the conversion of exactly \<open>n\<close> values, component
  by component.\<close>

definition tuple_one :: "nat \<Rightarrow> (Value \<Rightarrow> Value) \<Rightarrow> (Value list \<Rightarrow> 'a parse_result) \<Rightarrow> Value \<Rightarrow> 'a parse_result" where
  "tuple_one n set_err conv v0 =
     (let v = get_inner_value v0
      in case v of
           VArray items \<Rightarrow>
             (if length items \<noteq> n then type_error v ''Array response of wrong dimension'' else conv items)
         | VSet items \<Rightarrow>
             (if length items \<noteq> n then type_error (set_err v) ''Set response of wrong dimension'' else conv items)
         | VMap items \<Rightarrow>
             (if n \<noteq> length items * 2 then type_error v ''Map response of wrong dimension''
              else conv (flatten_pairs items))
         | _ \<Rightarrow> type_error v ''Not a Array response'')"

function chunks :: "nat \<Rightarrow> 'a list \<Rightarrow> 'a list list" where
  "chunks n xs = (if xs = [] \<or> n = 0 then [] else take n xs # chunks n (drop n xs))"
  by pat_completeness auto

termination
  by (relation "measure (length \<circ> snd)") auto

declare chunks.simps [simp del]

definition arity_error :: "nat \<Rightarrow> nat \<Rightarrow> ParsingError" where
  "arity_error len n =
     Described (''Vector of length '' @ show_nat len @ '' doesn't have arity of '' @ show_nat n)"

definition tuple_refs ::
    "nat \<Rightarrow> (Value list \<Rightarrow> 'a parse_result) \<Rightarrow> (Value \<Rightarrow> 'a parse_result) \<Rightarrow> Value list \<Rightarrow> 'a list parse_result" where
  "tuple_refs n conv one items =
     (if items = [] then Inr []
      else if \<forall>item \<in> set items. is_collection_of_len item n then map_res one items
      else if length items = n then res_map (\<lambda>x. [x]) (conv items)
      else map_res (\<lambda>chunk. if length chunk = n then conv chunk
                            else Inl (arity_error (length items) n)) (chunks n items))"

definition tuple_owns ::
    "nat \<Rightarrow> (Value list \<Rightarrow> 'a parse_result) \<Rightarrow> (Value \<Rightarrow> 'a parse_result) \<Rightarrow> Value list \<Rightarrow> 'a list parse_result" where
  "tuple_owns n conv one items =
     (if items = [] then Inr []
      else if \<forall>item \<in> set items. is_collection_of_len item n then map_res one items
      else map_res (\<lambda>chunk. if length chunk = n then conv chunk
                            else Inl (arity_error (length items) n)) (chunks n items))"

text \<open>A short last chunk discards what was collected.\<close>

definition tuple_each ::
    "nat \<Rightarrow> (Value list \<Rightarrow> 'a parse_result) \<Rightarrow> (Value \<Rightarrow> 'a parse_result) \<Rightarrow> Value list \<Rightarrow> 'a parse_result list" where
  "tuple_each n conv one items =
     (if items = [] then []
      else if \<forall>item \<in> set items. is_collection_of_len item n then map one items
      else if \<forall>chunk \<in> set (chunks n items). length chunk = n then map conv (chunks n items)
      else [Inl (arity_error (length items) n)])"

definition from_tuple ::
    "nat \<Rightarrow> (Value list \<Rightarrow> 'a parse_result) \<Rightarrow> (Value list \<Rightarrow> 'a parse_result) \<Rightarrow> 'a from_redis" where
  "from_tuple n conv_ref conv_own =
     (let r = tuple_one n (\<lambda>v. v) conv_ref;
          w = tuple_one n (\<lambda>v. case v of VSet items \<Rightarrow> VArray items | _ \<Rightarrow> v) conv_own
      in (from_redis_impl r w)
           \<lparr>fr_refs := tuple_refs n conv_ref r, fr_owns := tuple_owns n conv_own w,
            fr_each := tuple_each n conv_own w\<rparr>)"

fun conv2 :: "(Value \<Rightarrow> 'a parse_result) \<Rightarrow> (Value \<Rightarrow> 'b parse_result) \<Rightarrow> Value list \<Rightarrow> ('a \<times> 'b) parse_result" where
  "conv2 f g [a, b] = res_bind (f a) (\<lambda>x. res_bind (g b) (\<lambda>y. Inr (x, y)))"
| "conv2 f g _ = Inl (Described [])"

fun conv3 :: "(Value \<Rightarrow> 'a parse_result) \<Rightarrow> (Value \<Rightarrow> 'b parse_result) \<Rightarrow> (Value \<Rightarrow> 'c parse_result) \<Rightarrow>
    Value list \<Rightarrow> ('a \<times> 'b \<times> 'c) parse_result" where
  "conv3 f g h [a, b, c] =
     res_bind (f a) (\<lambda>x. res_bind (g b) (\<lambda>y. res_bind (h c) (\<lambda>z. Inr (x, y, z))))"
| "conv3 f g h _ = Inl (Described [])"

definition from_pair :: "'a from_redis \<Rightarrow> 'b from_redis \<Rightarrow> ('a \<times> 'b) from_redis" where
  "from_pair d1 d2 = from_tuple 2 (conv2 (fr_ref d1) (fr_ref d2)) (conv2 (fr_own d1) (fr_own d2))"

definition from_triple :: "'a from_redis \<Rightarrow> 'b from_redis \<Rightarrow> 'c from_redis \<Rightarrow> ('a \<times> 'b \<times> 'c) from_redis" where
  "from_triple d1 d2 d3 =
     from_tuple 3 (conv3 (fr_ref d1) (fr_ref d2) (fr_ref d3)) (conv3 (fr_own d1) (fr_own d2) (fr_own d3))"

text \<open>\<^verbatim>\<open>RedisResult\<close> of a converted value, the way \<^verbatim>\<open>?\<close> turns a \<^verbatim>\<open>ParsingError\<close> into a
  \<^verbatim>\<open>RedisError\<close>.\<close>

definition from_redis_value :: "'a from_redis \<Rightarrow> Value \<Rightarrow> 'a redis_result" where
  "from_redis_value d v = (case fr_own d v of Inr x \<Rightarrow> Inr x | Inl e \<Rightarrow> Inl (Parsing e))"

section \<open>Borrowed and owned conversions agree\<close>

text \<open>The two conversions of a type accept the same replies with the same result; only error
  texts may differ.\<close>

definition conv_agree :: "'a from_redis \<Rightarrow> bool" where
  "conv_agree d \<longleftrightarrow>
     (\<forall>v. res_ok (fr_ref d v) = res_ok (fr_own d v)) \<and>
     (\<forall>vs. res_ok (fr_refs d vs) = res_ok (fr_owns d vs)) \<and>
     (\<forall>b. fr_byte_slice d b = res_ok (fr_byte_vec d b))"

lemma res_ok_bind: "res_ok (res_bind m f) = Option.bind (res_ok m) (\<lambda>x. res_ok (f x))"
  by (cases m) auto

lemma res_ok_map: "res_ok (res_map f m) = map_option f (res_ok m)"
  by (cases m) auto

lemma res_ok_map_res:
  "(\<And>x. x \<in> set xs \<Longrightarrow> res_ok (f x) = res_ok (g x)) \<Longrightarrow> res_ok (map_res f xs) = res_ok (map_res g xs)"
  by (induction xs) (auto simp: res_ok_bind)

lemma conv_agreeD:
  assumes "conv_agree d"
  shows "res_ok (fr_ref d v) = res_ok (fr_own d v)" "res_ok (fr_refs d vs) = res_ok (fr_owns d vs)"
    "fr_byte_slice d b = res_ok (fr_byte_vec d b)"
  using assms by (simp_all add: conv_agree_def)

lemma conv_agree_impl:
  "(\<And>v. res_ok (r v) = res_ok (w v)) \<Longrightarrow> conv_agree (from_redis_impl r w)"
  by (auto simp: conv_agree_def from_redis_impl_def intro: res_ok_map_res)

lemma conv_agree_same: "conv_agree (from_redis_impl r r)"
  by (rule conv_agree_impl) simp

lemma conv_agree_num: "conv_agree (from_num f g p)"
  unfolding from_num_def by (rule conv_agree_same)

lemma conv_agree_u8: "conv_agree from_u8"
  by (simp add: from_u8_def conv_agree_def conv_agreeD [OF conv_agree_num])

lemma conv_agree_string: "conv_agree from_string"
  unfolding from_string_def
  by (rule conv_agree_impl) (auto simp: string_conv_def Let_def split: Value.split option.split)

lemma vec_agree: "conv_agree d \<Longrightarrow> res_ok (vec_ref d v) = res_ok (vec_own d v)"
  by (auto simp: vec_ref_def vec_own_def conv_agreeD split: Value.split option.split
      intro!: res_ok_map_res)

lemma conv_agree_vec: "conv_agree d \<Longrightarrow> conv_agree (from_vec d)"
  unfolding from_vec_def by (intro conv_agree_impl vec_agree)

lemma conv_agree_option: "conv_agree d \<Longrightarrow> conv_agree (from_option d)"
  unfolding from_option_def
  by (rule conv_agree_impl) (simp add: option_ref_def option_own_def Let_def res_ok_map conv_agreeD)

lemma conv_agree_set: "conv_agree d \<Longrightarrow> conv_agree (from_set d)"
  unfolding from_set_def
proof (rule conv_agree_impl)
  fix v assume d: "conv_agree d"
  have "res_ok (map_res (fr_ref d) xs) = res_ok (map_res (fr_own d) xs)" for xs
    by (rule res_ok_map_res) (simp add: conv_agreeD d)
  then show "res_ok (set_ref d v) = res_ok (set_own d v)"
    by (simp add: set_ref_def set_own_def Let_def into_sequence_as_sequence res_ok_map split: sum.split)
qed

lemma map_entries_agree:
  assumes "conv_agree dk" and "conv_agree dv"
  shows "res_ok (map_entries_ref dk dv v) = res_ok (map_entries_own dk dv v)"
proof -
  have "res_ok (map_res (\<lambda>(k, v). res_bind (fr_ref dk k) (\<lambda>k'. res_bind (fr_ref dv v) (\<lambda>v'. Inr (k', v')))) it) =
        res_ok (map_res (\<lambda>(k, v). res_bind (fr_own dk k) (\<lambda>k'. res_bind (fr_own dv v) (\<lambda>v'. Inr (k', v')))) it)"
    for it
    by (rule res_ok_map_res) (auto simp: res_ok_bind conv_agreeD assms)
  then show ?thesis
    by (simp add: map_entries_ref_def map_entries_own_def Let_def into_map_iter_as_map_iter
        split: Value.split sum.split)
qed

lemma conv_agree_map: "conv_agree dk \<Longrightarrow> conv_agree dv \<Longrightarrow> conv_agree (from_map dk dv)"
  unfolding from_map_def by (rule conv_agree_impl) (simp add: res_ok_map map_entries_agree)

lemma tuple_refs_single:
  assumes "length items = n" and "0 < n"
  shows "map_res (\<lambda>chunk. if length chunk = n then conv chunk else Inl e) (chunks n items) =
         res_map (\<lambda>x. [x]) (conv items)"
proof -
  have "chunks n items = [items]"
    using assms by (subst chunks.simps, subst chunks.simps) auto
  then show ?thesis using assms by (cases "conv items") simp_all
qed

lemma tuple_one_agree:
  "(\<And>xs. res_ok (f xs) = res_ok (g xs)) \<Longrightarrow> res_ok (tuple_one n e f v) = res_ok (tuple_one n e' g v)"
  by (simp add: tuple_one_def Let_def split: Value.split)

lemma conv_agree_tuple:
  assumes a: "\<And>xs. res_ok (f xs) = res_ok (g xs)" and n: "0 < n"
  shows "conv_agree (from_tuple n f g)"
proof -
  let ?r = "tuple_one n (\<lambda>v. v) f"
  let ?w = "tuple_one n (\<lambda>v. case v of VSet items \<Rightarrow> VArray items | _ \<Rightarrow> v) g"
  have one: "res_ok (?r v) = res_ok (?w v)" for v
    by (rule tuple_one_agree [OF a])
  have "tuple_refs n f ?r vs = tuple_owns n f ?r vs" for vs
    using tuple_refs_single [of vs n f "arity_error (length vs) n"] n
    by (cases "length vs = n") (simp_all add: tuple_refs_def tuple_owns_def)
  moreover have "res_ok (tuple_owns n f ?r vs) = res_ok (tuple_owns n g ?w vs)" for vs
    by (auto simp: tuple_owns_def one a intro!: res_ok_map_res)
  ultimately show ?thesis
    using one by (simp add: from_tuple_def Let_def conv_agree_def from_redis_impl_def)
qed

lemma conv2_agree:
  assumes "conv_agree d1" and "conv_agree d2"
  shows "res_ok (conv2 (fr_ref d1) (fr_ref d2) xs) = res_ok (conv2 (fr_own d1) (fr_own d2) xs)"
  by (cases "(fr_ref d1, fr_ref d2, xs)" rule: conv2.cases) (simp_all add: res_ok_bind conv_agreeD assms)

lemma conv3_agree:
  assumes "conv_agree d1" and "conv_agree d2" and "conv_agree d3"
  shows "res_ok (conv3 (fr_ref d1) (fr_ref d2) (fr_ref d3) xs) =
         res_ok (conv3 (fr_own d1) (fr_own d2) (fr_own d3) xs)"
  by (cases "(fr_ref d1, fr_ref d2, fr_ref d3, xs)" rule: conv3.cases)
     (simp_all add: res_ok_bind conv_agreeD assms)

lemma conv_agree_pair: "conv_agree d1 \<Longrightarrow> conv_agree d2 \<Longrightarrow> conv_agree (from_pair d1 d2)"
  unfolding from_pair_def by (intro conv_agree_tuple conv2_agree) simp_all

lemma conv_agree_triple:
  "conv_agree d1 \<Longrightarrow> conv_agree d2 \<Longrightarrow> conv_agree d3 \<Longrightarrow> conv_agree (from_triple d1 d2 d3)"
  unfolding from_triple_def by (intro conv_agree_tuple conv3_agree) simp_all

lemmas conv_agree_base = conv_agree_num conv_agree_u8 conv_agree_string
  conv_agree_same [of bool_ref, folded from_bool_def] conv_agree_same [of unit_ref, folded from_unit_def]
  conv_agree_same [of Inr, folded from_value_def] conv_agree_same [of bytes_ref, folded from_bytes_def]
  conv_agree_same [of cstring_ref, folded from_cstring_def]

text \<open>Every \<^verbatim>\<open>FromRedisValue\<close> impl has two conversions, one that borrows the reply and one that
  consumes it.  For all scalar types they accept the same replies with the same results, and the
  impls of vectors, options, sets, maps, pairs, triples and fixed arrays inherit this from their
  element types, including the grouping of flat replies into tuples.\<close>

theorem borrowed_and_owned_conversions_agree:
  assumes "conv_agree d1" and "conv_agree d2" and "conv_agree d3"
  shows "conv_agree (from_signed w) \<and> conv_agree (from_unsigned w) \<and> conv_agree from_f64 \<and>
         conv_agree from_u8 \<and> conv_agree from_bool \<and> conv_agree from_string \<and>
         conv_agree from_cstring \<and> conv_agree from_unit \<and> conv_agree from_value \<and>
         conv_agree (from_vec d1) \<and> conv_agree (from_option d1) \<and> conv_agree (from_set d1) \<and>
         conv_agree (from_map d1 d2) \<and> conv_agree (from_pair d1 d2) \<and>
         conv_agree (from_triple d1 d2 d3) \<and> conv_agree (from_array n d1)"
  using assms
  by (simp add: conv_agree_base conv_agree_vec conv_agree_option conv_agree_set conv_agree_map
      conv_agree_pair conv_agree_triple from_signed_def from_unsigned_def from_f64_def
      from_array_def conv_agree_same)

section \<open>The flat arrays of RESP2 and the maps of RESP3\<close>

lemma chunks_flatten: "chunks 2 (flatten_pairs m) = map (\<lambda>(k, v). [k, v]) m"
  by (induction m rule: flatten_pairs.induct) (subst chunks.simps, simp add: numeral_2_eq_2)+

lemma map_res_map: "map_res f (map g xs) = map_res (f \<circ> g) xs"
  by (induction xs) auto

lemma fr_own_pair_singleton:
  "fr_own (from_pair dk dv) (VMap [(k, v)]) = conv2 (fr_own dk) (fr_own dv) [k, v]"
  by (simp add: from_pair_def from_tuple_def Let_def from_redis_impl_def tuple_one_def get_inner_value_def)

text \<open>A reply that is a field/value map converts to the same map and to the same vector of pairs
  in both protocol versions: as the flat array that RESP2 sends and as the map that RESP3 sends.
  For vectors of pairs at least one field or value is not itself a two-element collection.\<close>

theorem flat_array_and_map_convert_alike:
  assumes "m = [] \<or> (\<exists>item \<in> set (flatten_pairs m). \<not> is_collection_of_len item 2)"
  shows "fr_own (from_map dk dv) (VArray (flatten_pairs m)) = fr_own (from_map dk dv) (VMap m) \<and>
         fr_own (from_vec (from_pair dk dv)) (VArray (flatten_pairs m)) =
         fr_own (from_vec (from_pair dk dv)) (VMap m)"
proof -
  have "tuple_owns 2 (conv2 (fr_own dk) (fr_own dv)) w (flatten_pairs m) =
        map_res (\<lambda>item. fr_own (from_pair dk dv) (VMap [item])) m" for w
  proof (cases "m = []")
    case False
    have "map_res (\<lambda>chunk. if length chunk = 2 then conv2 (fr_own dk) (fr_own dv) chunk
              else Inl (arity_error (length (flatten_pairs m)) 2)) (map (\<lambda>(k, v). [k, v]) m) =
          map_res (\<lambda>item. fr_own (from_pair dk dv) (VMap [item])) m"
      unfolding map_res_map by (rule map_res_cong) (auto simp: fr_own_pair_singleton)
    moreover have "flatten_pairs m \<noteq> []" using False by (cases m) auto
    ultimately show ?thesis
      using assms False by (auto simp: tuple_owns_def chunks_flatten)
  qed (simp add: tuple_owns_def)
  then have "fr_own (from_vec (from_pair dk dv)) (VArray (flatten_pairs m)) =
         fr_own (from_vec (from_pair dk dv)) (VMap m)"
    by (simp add: from_vec_def from_redis_impl_def vec_own_def)
       (simp add: from_pair_def from_tuple_def Let_def from_redis_impl_def)
  moreover have "fr_own (from_map dk dv) (VArray (flatten_pairs m)) = fr_own (from_map dk dv) (VMap m)"
    by (simp add: from_map_def from_redis_impl_def map_entries_own_def get_inner_value_def
        into_map_iter_def)
  ultimately show ?thesis by blast
qed

end
