(* ===== verification/Pipelines.thy ===== *)
theory Pipelines
  imports Resp_Roundtrip From_Value
begin

text \<open>
  Pipelines of \<^verbatim>\<open>pipeline.rs\<close>: building a pipeline, its bytes (optionally wrapped in MULTI/EXEC),
  and turning the replies into the result, with ignored replies dropped and server errors
  collected.  The record \<open>connection_like\<close> is the trait \<^verbatim>\<open>ConnectionLike\<close> of \<^verbatim>\<open>connection.rs\<close>, as
  far as commands and pipelines use it.
\<close>

record Pipeline =
  commands :: "Cmd list"
  transaction_mode :: bool
  ignored_commands :: "nat set"
  ignore_errors :: bool

definition pipeline_with_capacity :: "nat \<Rightarrow> Pipeline" where
  "pipeline_with_capacity capacity =
     \<lparr>commands = [], transaction_mode = False, ignored_commands = {}, ignore_errors = False\<rparr>"

definition pipeline_new :: Pipeline where
  "pipeline_new = pipeline_with_capacity 0"

definition atomic :: "Pipeline \<Rightarrow> Pipeline" where
  "atomic p = p\<lparr>transaction_mode := True\<rparr>"

definition set_ignore_errors :: "Pipeline \<Rightarrow> Pipeline" where
  "set_ignore_errors p = p\<lparr>ignore_errors := True\<rparr>"

definition is_transaction :: "Pipeline \<Rightarrow> bool" where
  "is_transaction p = transaction_mode p"

definition pipeline_len :: "Pipeline \<Rightarrow> nat" where
  "pipeline_len p = length (commands p)"

definition pipeline_is_empty :: "Pipeline \<Rightarrow> bool" where
  "pipeline_is_empty p \<longleftrightarrow> commands p = []"

section \<open>Building\<close>

definition add_command :: "Pipeline \<Rightarrow> Cmd \<Rightarrow> Pipeline" where
  "add_command p c = p\<lparr>commands := commands p @ [c]\<rparr>"

definition pipeline_cmd :: "Pipeline \<Rightarrow> bytes \<Rightarrow> Pipeline" where
  "pipeline_cmd p name = add_command p (cmd name)"

definition ignore :: "Pipeline \<Rightarrow> Pipeline" where
  "ignore p =
     (if length (commands p) = 0 then p
      else p\<lparr>ignored_commands := insert (length (commands p) - 1) (ignored_commands p)\<rparr>)"

text \<open>\<^verbatim>\<open>get_last_command\<close> hands out a mutable reference, so it takes the update that is made
  through it; it panics on an empty pipeline.\<close>

definition get_last_command :: "(Cmd \<Rightarrow> Cmd run) \<Rightarrow> Pipeline \<Rightarrow> Pipeline run" where
  "get_last_command upd p =
     (if length (commands p) = 0 then Panic
      else
        (let idx = length (commands p) - 1
         in run_bind (upd (commands p ! idx)) (\<lambda>c. Ret (p\<lparr>commands := (commands p)[idx := c]\<rparr>))))"

definition pipeline_arg :: "('a, Cmd) to_redis_args \<Rightarrow> 'a \<Rightarrow> Pipeline \<Rightarrow> Pipeline run" where
  "pipeline_arg d x p = get_last_command (cmd_arg d x) p"

definition pipeline_set_cache_config :: "CommandCacheConfig \<Rightarrow> Pipeline \<Rightarrow> Pipeline run" where
  "pipeline_set_cache_config cfg p = get_last_command (\<lambda>c. Ret (set_cache_config c cfg)) p"

definition pipeline_clear :: "Pipeline \<Rightarrow> Pipeline" where
  "pipeline_clear p = p\<lparr>commands := [], ignored_commands := {}\<rparr>"

section \<open>Bytes\<close>

fun sum_cmd_len :: "Cmd list \<Rightarrow> nat run" where
  "sum_cmd_len [] = Ret 0"
| "sum_cmd_len (c # cs) = run_bind (cmd_len c) (\<lambda>n. run_bind (sum_cmd_len cs) (\<lambda>m. Ret (n + m)))"

fun write_commands :: "(int \<Rightarrow> bytes) \<Rightarrow> bytes \<Rightarrow> Cmd list \<Rightarrow> bytes run" where
  "write_commands itoa rv [] = Ret rv"
| "write_commands itoa rv (c # cs) =
     run_bind (write_packed_command_preallocated itoa c rv) (\<lambda>rv'. write_commands itoa rv' cs)"

definition write_pipeline :: "(int \<Rightarrow> bytes) \<Rightarrow> bytes \<Rightarrow> Cmd list \<Rightarrow> bool \<Rightarrow> bytes run" where
  "write_pipeline itoa rv cmds atomic' =
     run_bind (sum_cmd_len cmds) (\<lambda>cmds_len.
       if atomic' then
         (let multi = cmd ''MULTI''; exec = cmd ''EXEC''
          in run_bind (cmd_len multi) (\<lambda>_. run_bind (cmd_len exec) (\<lambda>_.
             run_bind (write_packed_command_preallocated itoa multi rv) (\<lambda>rv1.
             run_bind (write_commands itoa rv1 cmds) (\<lambda>rv2.
             write_packed_command_preallocated itoa exec rv2)))))
       else write_commands itoa rv cmds)"

definition encode_pipeline :: "(int \<Rightarrow> bytes) \<Rightarrow> Cmd list \<Rightarrow> bool \<Rightarrow> bytes run" where
  "encode_pipeline itoa cmds atomic' = write_pipeline itoa [] cmds atomic'"

definition get_packed_pipeline :: "(int \<Rightarrow> bytes) \<Rightarrow> Pipeline \<Rightarrow> bytes run" where
  "get_packed_pipeline itoa p = encode_pipeline itoa (commands p) (transaction_mode p)"

section \<open>Results\<close>

definition filter_ignored_results :: "Pipeline \<Rightarrow> Value list \<Rightarrow> Value list" where
  "filter_ignored_results p resp =
     (if ignored_commands p = {} then resp
      else map snd (filter (\<lambda>(index, result). index \<notin> ignored_commands p) (enumerate 0 resp)))"

text \<open>The indexed server errors of a response.\<close>

definition indexed_errors :: "Value list \<Rightarrow> (nat \<times> ServerError) list" where
  "indexed_errors response =
     List.map_filter (\<lambda>(index, value). case value of VServerError e \<Rightarrow> Some (index, e) | _ \<Rightarrow> None)
       (enumerate 0 response)"

definition compose_response :: "'a from_redis \<Rightarrow> Pipeline \<Rightarrow> Value list \<Rightarrow> 'a redis_result" where
  "compose_response d p response =
     (if ignore_errors p then from_redis_value d (VArray (filter_ignored_results p response))
      else
        (let errs = indexed_errors response
         in if errs = [] then
              res_bind (extract_error (VArray (filter_ignored_results p response))) (from_redis_value d)
            else Inl (PipelineErr errs)))"

definition complete_request :: "'a from_redis \<Rightarrow> Pipeline \<Rightarrow> Value list \<Rightarrow> 'a redis_result" where
  "complete_request d p response =
     (if is_transaction p then
        (case (if response = [] then None else Some (last response)) of
           Some VNil \<Rightarrow> from_redis_value d VNil
         | Some (VArray items) \<Rightarrow> compose_response d p items
         | _ \<Rightarrow> Inl (error_of UnexpectedReturnType ''Invalid response when parsing multi response''))
      else compose_response d p response)"

section \<open>Queries on a connection\<close>

record 'con connection_like =
  cl_req_packed_command :: "bytes \<Rightarrow> 'con \<Rightarrow> (Value redis_result \<times> 'con) run"
  cl_req_packed_commands :: "bytes \<Rightarrow> nat \<Rightarrow> nat \<Rightarrow> 'con \<Rightarrow> (Value list redis_result \<times> 'con) run"
  cl_req_command :: "Cmd \<Rightarrow> 'con \<Rightarrow> (Value redis_result \<times> 'con) run"
  cl_supports_pipelining :: "'con \<Rightarrow> bool"

definition pipeline_query ::
    "(int \<Rightarrow> bytes) \<Rightarrow> 'con connection_like \<Rightarrow> 'a from_redis \<Rightarrow> Pipeline \<Rightarrow> 'con \<Rightarrow>
     ('a redis_result \<times> 'con) run" where
  "pipeline_query itoa K d p con =
     (if \<not> cl_supports_pipelining K con
      then Ret (Inl (error_of Client ''This connection does not support pipelining.''), con)
      else
        run_bind
          (if transaction_mode p then
             run_bind (encode_pipeline itoa (commands p) True) (\<lambda>bs.
               cl_req_packed_commands K bs (length (commands p) + 1) 1 con)
           else
             run_bind (encode_pipeline itoa (commands p) False) (\<lambda>bs.
               cl_req_packed_commands K bs 0 (length (commands p)) con))
          (\<lambda>(response, con'). Ret (res_bind response (complete_request d p), con')))"

definition cmd_query ::
    "'con connection_like \<Rightarrow> 'a from_redis \<Rightarrow> Cmd \<Rightarrow> 'con \<Rightarrow> ('a redis_result \<times> 'con) run" where
  "cmd_query K d c con =
     run_bind (cl_req_command K c con) (\<lambda>(r, con').
       Ret (res_bind r (\<lambda>val. res_bind (extract_error val) (from_redis_value d)), con'))"

section \<open>Lemmas\<close>

lemma sum_cmd_len_wf:
  "\<forall>c \<in> set cs. wf_cmd c \<Longrightarrow> sum_cmd_len cs = Ret (\<Sum>c\<leftarrow>cs. length (resp_command (cmd_wire_args c)))"
  by (induction cs) (simp_all add: cmd_len_wf)

lemma write_commands_wf:
  "itoa_ok itoa \<Longrightarrow> \<forall>c \<in> set cs. wf_cmd c \<Longrightarrow>
     write_commands itoa rv cs = Ret (rv @ concat (map (resp_command \<circ> cmd_wire_args) cs))"
  by (induction cs arbitrary: rv) (simp_all add: write_packed_command_preallocated_wf)

text \<open>The commands a pipeline stands for.\<close>

definition pipeline_cmds :: "Cmd list \<Rightarrow> bool \<Rightarrow> Cmd list" where
  "pipeline_cmds cmds atomic' = (if atomic' then cmd ''MULTI'' # cmds @ [cmd ''EXEC''] else cmds)"

lemma encode_pipeline_wf:
  assumes "itoa_ok itoa" and "\<forall>c \<in> set cs. wf_cmd c"
  shows "encode_pipeline itoa cs a = Ret (concat (map (resp_command \<circ> cmd_wire_args) (pipeline_cmds cs a)))"
  using assms by (simp add: encode_pipeline_def write_pipeline_def sum_cmd_len_wf write_commands_wf
      cmd_len_wf write_packed_command_preallocated_wf pipeline_cmds_def Let_def)

lemma filter_ignored_nths: "filter_ignored_results p resp = nths resp (- ignored_commands p)"
proof -
  have "map snd (filter (\<lambda>(i, r). i \<notin> A) (enumerate n xs)) = nths xs {j. n + j \<notin> A}"
    for A and n and xs :: "Value list"
    by (induction xs arbitrary: n) (simp_all add: nths_Cons)
  from this [of "ignored_commands p" 0 resp] show ?thesis
    by (simp add: filter_ignored_results_def Compl_eq nths_all)
qed

lemma indexed_errors_set:
  "set (indexed_errors response) =
     {(i, e). i < length response \<and> response ! i = VServerError e}"
  by (auto simp: indexed_errors_def map_filter_def in_set_enumerate_eq split: Value.splits)
     (rule_tac x = "(a, VServerError b)" in image_eqI, auto)

lemma indexed_errors_Nil_iff:
  "indexed_errors vs = [] \<longleftrightarrow> \<not> (\<exists>i < length vs. \<exists>e. vs ! i = VServerError e)"
proof
  assume "indexed_errors vs = []"
  then show "\<not> (\<exists>i < length vs. \<exists>e. vs ! i = VServerError e)"
    using indexed_errors_set [of vs] by auto
next
  assume n: "\<not> (\<exists>i < length vs. \<exists>e. vs ! i = VServerError e)"
  then have "set (indexed_errors vs) = {}" unfolding indexed_errors_set by auto
  then show "indexed_errors vs = []" by simp
qed

lemma indexed_errors_sorted: "sorted_wrt (<) (map fst (indexed_errors response))"
proof -
  have "sorted_wrt (<) (map fst es) \<and> (\<forall>x \<in> set (map fst es). n \<le> x)"
    if "es = List.map_filter (\<lambda>(i, v). case v of VServerError e \<Rightarrow> Some (i, e) | _ \<Rightarrow> None) (enumerate n xs)"
    for n es and xs :: "Value list"
    using that
  proof (induction xs arbitrary: n es)
    case (Cons x xs)
    from Cons.IH [OF refl, of "Suc n"] show ?case
      unfolding Cons.prems by (cases x) (auto simp: map_filter_simps Suc_le_eq less_imp_le)
  qed (simp add: map_filter_simps)
  then show ?thesis by (simp add: indexed_errors_def)
qed

section \<open>Properties\<close>

lemma frames_commands:
  assumes "combine_ok C" and "\<forall>c \<in> set cs. len_ok (length (cmd_wire_args c))"
    and "\<forall>c \<in> set cs. \<forall>a \<in> set (cmd_wire_args c). len_ok (length a)"
  shows "frames C (concat (map (resp_command \<circ> cmd_wire_args) cs))
           (map (\<lambda>c. VArray (map BulkString (cmd_wire_args c))) cs) []"
  using assms
proof (induction cs)
  case (Cons c cs)
  have "p_reply C (resp_command (cmd_wire_args c) @ r) = POk (VArray (map BulkString (cmd_wire_args c))) r" for r
    using Cons.prems by (intro resp_command_reads) auto
  with Cons show ?case by (auto intro!: frames_next simp: codec_decode_Some)
qed (simp add: frames_done)

text \<open>C19.  The bytes of a pipeline are the commands one after the other, between MULTI and EXEC if
  the pipeline is atomic: a server that decodes them frame by frame sees exactly this sequence of
  commands with their arguments, and no byte is left over.\<close>

theorem pipeline_bytes_decode_to_commands:
  assumes "combine_ok C" and "itoa_ok itoa" and "\<forall>c \<in> set (commands p). wf_cmd c"
    and "\<forall>c \<in> set (commands p). len_ok (length (cmd_wire_args c))"
    and "\<forall>c \<in> set (commands p). \<forall>a \<in> set (cmd_wire_args c). len_ok (length a)"
  shows "\<exists>bs. get_packed_pipeline itoa p = Ret bs \<and>
           frames C bs (map (\<lambda>c. VArray (map BulkString (cmd_wire_args c)))
             (pipeline_cmds (commands p) (transaction_mode p))) []"
proof -
  have "cmd_wire_args (cmd name) = [name]" for name by (simp add: cmd_wire_args_def)
  then have "\<forall>c \<in> set (pipeline_cmds (commands p) (transaction_mode p)).
      len_ok (length (cmd_wire_args c)) \<and> (\<forall>a \<in> set (cmd_wire_args c). len_ok (length a))"
    using assms(4,5) by (auto simp: pipeline_cmds_def len_ok_def)
  then show ?thesis
    using frames_commands [OF assms(1), of "pipeline_cmds (commands p) (transaction_mode p)"]
    by (simp add: get_packed_pipeline_def encode_pipeline_wf [OF assms(2,3)])
qed

theorem pipeline_bytes_decode_to_commands_witness:
  "\<exists>bs. get_packed_pipeline show_int (atomic (pipeline_cmd pipeline_new ''PING'')) = Ret bs \<and>
     frames std_combine bs [VArray [BulkString ''MULTI''], VArray [BulkString ''PING''],
       VArray [BulkString ''EXEC'']] []"
proof -
  let ?p = "atomic (pipeline_cmd pipeline_new ''PING'')"
  have c: "commands ?p = [cmd ''PING'']" "transaction_mode ?p"
    by (simp_all add: atomic_def pipeline_cmd_def add_command_def pipeline_new_def pipeline_with_capacity_def)
  have a: "cmd_wire_args (cmd name) = [name]" for name by (simp add: cmd_wire_args_def)
  show ?thesis
    using pipeline_bytes_decode_to_commands [OF std_combine_ok itoa_ok_show_int, of ?p]
    by (simp add: c a len_ok_def pipeline_cmds_def)
qed



end
