(* ===== verification/Arg_Roundtrip.thy ===== *)
theory Arg_Roundtrip
  imports Command From_Value
begin

text \<open>
  Properties that join the two directions of \<^verbatim>\<open>types.rs\<close>: an argument written into a command is
  the argument \<^verbatim>\<open>to_redis_args\<close> gives, and a scalar that was stored as an argument and comes back
  as a bulk string converts to the scalar it was.
\<close>

section \<open>The two sinks receive the same arguments\<close>

text \<open>An impl used with the \<^verbatim>\<open>Cmd\<close> sink and with the \<^verbatim>\<open>Vec<Vec<u8>>\<close> sink: both append what
  \<^verbatim>\<open>to_redis_args\<close> returns, for single values and for slices, and count alike.\<close>

definition same_args :: "('a, Cmd) to_redis_args \<Rightarrow> ('a, bytes list) to_redis_args \<Rightarrow> bool" where
  "same_args dC dV \<longleftrightarrow>
     cmd_sink.writes (write_redis_args dC) (to_redis_args_of dV) \<and>
     vec_sink.writes (write_redis_args dV) (to_redis_args_of dV) \<and>
     cmd_sink.writes (write_args_from_slice dC) (\<lambda>xs. write_args_from_slice dV xs []) \<and>
     vec_sink.writes (write_args_from_slice dV) (\<lambda>xs. write_args_from_slice dV xs []) \<and>
     num_of_args dC = num_of_args dV"

lemma vec_writes_at_nil: "vec_sink.writes wr f \<Longrightarrow> wr x [] = f x"
  by (cases "f x") (simp_all add: vec_sink_writes_iff)

lemma same_args_impl:
  assumes "cmd_sink.writes wrC f" and "vec_sink.writes wrV f"
  shows "same_args (to_redis_args_impl wrC num n) (to_redis_args_impl wrV num' n)"
proof -
  have 1: "(\<lambda>x. wrV x []) = f" using vec_writes_at_nil [OF assms(2)] by blast
  have 2: "(\<lambda>xs. make_arg_iter_ref wrV xs []) = (\<lambda>xs. concat_run (map f xs))"
    using vec_writes_at_nil [OF vec_sink.writes_iter [OF assms(2)]] by blast
  show ?thesis
    using assms cmd_sink.writes_iter [OF assms(1)] vec_sink.writes_iter [OF assms(2)]
    by (simp add: same_args_def to_redis_args_of_def [abs_def] to_redis_args_impl_def 1 2)
qed

lemma same_argsD:
  assumes "same_args dC dV"
  shows "cmd_sink.writes (write_redis_args dC) (to_redis_args_of dV)"
    "vec_sink.writes (write_redis_args dV) (to_redis_args_of dV)"
    "cmd_sink.writes (write_args_from_slice dC) (\<lambda>xs. write_args_from_slice dV xs [])"
    "vec_sink.writes (write_args_from_slice dV) (\<lambda>xs. write_args_from_slice dV xs [])"
    "num_of_args dC = num_of_args dV"
  using assms by (simp_all add: same_args_def)

lemma same_args_scalar:
  "same_args (to_args_int itoa cmd_write_arg) (to_args_int itoa vec_write_arg)"
  "same_args (to_args_float ryu cmd_write_arg) (to_args_float ryu vec_write_arg)"
  "same_args (to_args_bool cmd_write_arg) (to_args_bool vec_write_arg)"
  "same_args (to_args_string cmd_write_arg) (to_args_string vec_write_arg)"
  unfolding to_args_int_def to_args_float_def to_args_bool_def to_args_string_def
  by (rule same_args_impl, rule cmd_sink.writes_one, rule vec_sink.writes_one)+

lemma same_args_u8: "same_args (to_args_u8 itoa cmd_write_arg) (to_args_u8 itoa vec_write_arg)"
proof -
  have v: "(\<lambda>x. vec_write_arg [] (t x)) = (\<lambda>x. [t x])" for t :: "'x \<Rightarrow> bytes"
    by (simp add: vec_write_arg_def)
  show ?thesis
    using cmd_sink.writes_one [of "\<lambda>x. itoa (int (byte_val x))"] cmd_sink.writes_one [of "\<lambda>x. x"]
      vec_sink.writes_one [of "\<lambda>x. itoa (int (byte_val x))"] vec_sink.writes_one [of "\<lambda>x. x"]
    by (simp add: same_args_def to_args_u8_def to_redis_args_of_def [abs_def] v)
qed

lemma same_args_option:
  assumes "same_args dC dV"
  shows "same_args (to_args_option dC) (to_args_option dV)"
  unfolding to_args_option_def same_argsD(5) [OF assms]
  by (rule same_args_impl [OF cmd_sink.writes_option [OF same_argsD(1) [OF assms]]
        vec_sink.writes_option [OF same_argsD(2) [OF assms]]])

lemma same_args_vec:
  assumes "same_args dC dV" and "is_single_vec_arg dC = is_single_vec_arg dV"
  shows "same_args (to_args_vec dC) (to_args_vec dV)"
  unfolding to_args_vec_def same_argsD(5) [OF assms(1)] assms(2)
  by (rule same_args_impl [OF same_argsD(3,4) [OF assms(1)]])

lemma same_args_set:
  assumes "same_args dC dV"
  shows "same_args (to_args_set dC) (to_args_set dV)"
  unfolding to_args_set_def
  by (rule same_args_impl [OF cmd_sink.writes_iter [OF same_argsD(1) [OF assms]]
        vec_sink.writes_iter [OF same_argsD(2) [OF assms]]])

lemma same_args_pair:
  assumes "same_args d1 e1" and "same_args d2 e2"
  shows "same_args (to_args_pair d1 d2) (to_args_pair e1 e2)"
  unfolding to_args_pair_def case_prod_unfold
  by (rule same_args_impl [OF
        cmd_sink.writes_seq [OF same_argsD(1) [OF assms(1)] same_argsD(1) [OF assms(2)]]
        vec_sink.writes_seq [OF same_argsD(2) [OF assms(1)] same_argsD(2) [OF assms(2)]]])

lemma same_args_map:
  assumes "same_args dk ek" and "same_args dv ev"
  shows "same_args (to_args_map dk dv) (to_args_map ek ev)"
  unfolding to_args_map_def case_prod_unfold same_argsD(5) [OF assms(1)] same_argsD(5) [OF assms(2)]
  by (rule same_args_impl [OF
        cmd_sink.writes_iter [OF cmd_sink.writes_if [OF
          cmd_sink.writes_seq [OF same_argsD(1) [OF assms(1)] same_argsD(1) [OF assms(2)]]]]
        vec_sink.writes_iter [OF vec_sink.writes_if [OF
          vec_sink.writes_seq [OF same_argsD(2) [OF assms(1)] same_argsD(2) [OF assms(2)]]]]])

lemma same_args_cmd_arg:
  assumes "same_args dC dV" and "wf_cmd c" and "to_redis_args_of dV x = Ret as"
  shows "\<exists>c'. cmd_arg dC x c = Ret c' \<and> wf_cmd c' \<and> args_iter c' = Ret (cmd_args_of c @ map Simple as)"
  using cmd_sink.writesD_Ret [OF same_argsD(1) [OF assms(1)] assms(2,3)]
  by (auto simp: cmd_arg_def wf_cmd_args_iter)

text \<open>Adding a value to a command with \<^verbatim>\<open>Cmd::arg\<close> appends to its arguments exactly the list that
  \<^verbatim>\<open>to_redis_args\<close> gives for the value, and keeps the command well formed.  This holds for
  integers, bytes, booleans and strings and is inherited by options, vectors, sets, pairs and maps
  of values for which it holds.\<close>

theorem cmd_arg_appends_to_redis_args:
  assumes "same_args d1 e1" and "same_args d2 e2"
    and "is_single_vec_arg d1 = is_single_vec_arg e1" and "wf_cmd c"
  shows "same_args (to_args_int itoa cmd_write_arg) (to_args_int itoa vec_write_arg) \<and>
         same_args (to_args_u8 itoa cmd_write_arg) (to_args_u8 itoa vec_write_arg) \<and>
         same_args (to_args_bool cmd_write_arg) (to_args_bool vec_write_arg) \<and>
         same_args (to_args_string cmd_write_arg) (to_args_string vec_write_arg) \<and>
         same_args (to_args_option d1) (to_args_option e1) \<and>
         same_args (to_args_vec d1) (to_args_vec e1) \<and>
         same_args (to_args_set d1) (to_args_set e1) \<and>
         same_args (to_args_pair d1 d2) (to_args_pair e1 e2) \<and>
         same_args (to_args_map d1 d2) (to_args_map e1 e2) \<and>
         (\<forall>x as. to_redis_args_of e1 x = Ret as \<longrightarrow>
            (\<exists>c'. cmd_arg d1 x c = Ret c' \<and> wf_cmd c' \<and>
                  args_iter c' = Ret (cmd_args_of c @ map Simple as)))"
  by (intro conjI allI impI same_args_scalar same_args_u8 same_args_option same_args_vec same_args_set
      same_args_pair same_args_map assms) (rule same_args_cmd_arg [OF assms(1,4)])

section \<open>Scalars survive the trip through the server\<close>

lemma from_utf8_ascii: "is_ascii s \<Longrightarrow> from_utf8 s = Some s"
  by (simp add: from_utf8_def utf8_valid_ascii)

lemma int_from_bulk:
  assumes "itoa_ok itoa" and "0 < w" and "- (2 ^ (w - 1)) \<le> i" and "i \<le> 2 ^ (w - 1) - 1"
  shows "fr_own (from_signed w) (BulkString (itoa i)) = Inr i"
proof -
  have "itoa i = show_int i" using assms(1) by (simp add: itoa_ok_def)
  then show ?thesis
    using assms parse_int_show_int [of "- (2 ^ (w - 1))" i "2 ^ (w - 1) - 1"]
    by (simp add: from_signed_def from_num_def from_redis_impl_def num_ref_def get_inner_value_def
        from_utf8_ascii)
qed



end
