(* ===== verification/Scripts.thy ===== *)
theory Scripts
  imports Pipelines Arg_Roundtrip
begin

text \<open>
  Lua scripts (\<^verbatim>\<open>script.rs\<close>): a script is called by its hash and is loaded when the server does not know it.
  The hash function of the \<^verbatim>\<open>sha1_smol\<close> crate is a parameter.  The connection is one that answers commands, the
  blocking and the asynchronous one alike.  The theorem runs an invocation on a server that keeps the loaded
  scripts.
\<close>

record Script =
  sc_code :: bytes
  sc_hash :: bytes

definition script_new :: "(bytes \<Rightarrow> bytes) \<Rightarrow> bytes \<Rightarrow> Script" where
  "script_new sha1 code = \<lparr>sc_code = code, sc_hash = sha1 code\<rparr>"

definition load_cmd :: "Script \<Rightarrow> Cmd" where
  "load_cmd s = cmd_write_arg (cmd_write_arg (cmd ''SCRIPT'') ''LOAD'') (sc_code s)"

text \<open>\<^verbatim>\<open>debug_assert_eq!\<close> checks the hash the server gives.\<close>

definition script_load :: "'con connection_like \<Rightarrow> Script \<Rightarrow> 'con \<Rightarrow> (bytes redis_result \<times> 'con) run" where
  "script_load K s con =
     run_bind (cmd_query K from_string (load_cmd s) con) (\<lambda>(r, con'). case r of
        Inl e \<Rightarrow> Ret (Inl e, con')
      | Inr hash \<Rightarrow> if hash = sc_hash s then Ret (Inr hash, con') else Panic)"

record ScriptInvocation =
  si_script :: Script
  si_args :: "bytes list"
  si_keys :: "bytes list"

definition script_key :: "('a, bytes list) to_redis_args \<Rightarrow> 'a \<Rightarrow> Script \<Rightarrow> ScriptInvocation run" where
  "script_key d key s = map_run (\<lambda>keys. \<lparr>si_script = s, si_args = [], si_keys = keys\<rparr>) (to_redis_args_of d key)"

definition script_arg :: "('a, bytes list) to_redis_args \<Rightarrow> 'a \<Rightarrow> Script \<Rightarrow> ScriptInvocation run" where
  "script_arg d arg s = map_run (\<lambda>args. \<lparr>si_script = s, si_args = args, si_keys = []\<rparr>) (to_redis_args_of d arg)"

definition prepare_invoke :: "Script \<Rightarrow> ScriptInvocation" where
  "prepare_invoke s = \<lparr>si_script = s, si_args = [], si_keys = []\<rparr>"

definition invocation_arg :: "('a, bytes list) to_redis_args \<Rightarrow> 'a \<Rightarrow> ScriptInvocation \<Rightarrow> ScriptInvocation run" where
  "invocation_arg d arg call = map_run (\<lambda>args. call\<lparr>si_args := args\<rparr>) (write_redis_args d arg (si_args call))"

definition invocation_key :: "('a, bytes list) to_redis_args \<Rightarrow> 'a \<Rightarrow> ScriptInvocation \<Rightarrow> ScriptInvocation run" where
  "invocation_key d key call = map_run (\<lambda>keys. call\<lparr>si_keys := keys\<rparr>) (write_redis_args d key (si_keys call))"

definition estimate_buflen :: "ScriptInvocation \<Rightarrow> nat" where
  "estimate_buflen call = foldl (\<lambda>acc e. acc + length e) 0 (si_keys call @ si_args call) + 7 + length (sc_hash (si_script call)) + 4"

definition eval_cmd :: "(int \<Rightarrow> bytes) \<Rightarrow> ScriptInvocation \<Rightarrow> Cmd run" where
  "eval_cmd itoa call =
     (let args_len = 3 + length (si_keys call) + length (si_args call);
          c = cmd_with_capacity args_len (estimate_buflen call);
          bytes_args = to_args_vec (to_args_vec (to_args_u8 itoa cmd_write_arg))
      in run_bind (cmd_arg (to_args_int itoa cmd_write_arg) (int (length (si_keys call)))
                     (cmd_write_arg (cmd_write_arg c ''EVALSHA'') (sc_hash (si_script call)))) (\<lambda>c1.
         run_bind (cmd_arg bytes_args (si_keys call) c1) (cmd_arg bytes_args (si_args call))))"

definition invocation_invoke ::
    "(int \<Rightarrow> bytes) \<Rightarrow> 'con connection_like \<Rightarrow> 'a from_redis \<Rightarrow> ScriptInvocation \<Rightarrow> 'con \<Rightarrow> ('a redis_result \<times> 'con) run" where
  "invocation_invoke itoa K d call con =
     run_bind (eval_cmd itoa call) (\<lambda>c.
     run_bind (cmd_query K d c con) (\<lambda>(r, con1). case r of
        Inr val \<Rightarrow> Ret (Inr val, con1)
      | Inl err \<Rightarrow>
          (if error_kind err = Server NoScript
           then run_bind (script_load K (si_script call) con1) (\<lambda>(l, con2). case l of
                  Inl e \<Rightarrow> Ret (Inl e, con2)
                | Inr _ \<Rightarrow> cmd_query K d c con2)
           else Ret (Inl err, con1))))"

definition script_invoke ::
    "(int \<Rightarrow> bytes) \<Rightarrow> 'con connection_like \<Rightarrow> 'a from_redis \<Rightarrow> Script \<Rightarrow> 'con \<Rightarrow> ('a redis_result \<times> 'con) run" where
  "script_invoke itoa K d s con = invocation_invoke itoa K d (prepare_invoke s) con"

section \<open>The arguments of a call\<close>

lemma wf_cmd_with_capacity: "wf_cmd (cmd_with_capacity n k)" "cmd_args_of (cmd_with_capacity n k) = []"
  by (simp_all add: wf_cmd_def cmd_with_capacity_def cmd_args_of_def args_iter_def)

lemma same_args_byte_vectors:
  "same_args (to_args_vec (to_args_vec (to_args_u8 itoa cmd_write_arg))) (to_args_vec (to_args_vec (to_args_u8 itoa vec_write_arg)))"
  by (intro same_args_vec same_args_u8) (simp_all add: to_args_u8_def to_args_vec_def to_redis_args_impl_def)

lemma to_redis_args_of_bytes: "to_redis_args_of (to_args_vec (to_args_vec (to_args_u8 itoa vec_write_arg))) xs = Ret xs"
proof -
  have "make_arg_iter_ref (\<lambda>items out. Ret (vec_write_arg out items)) xs out = Ret (out @ xs)" for out
    by (induction xs arbitrary: out) (simp_all add: vec_write_arg_def)
  then show ?thesis
    by (simp add: to_redis_args_of_def to_args_vec_def to_args_u8_def to_redis_args_impl_def)
qed

lemma cmd_arg_byte_vectors:
  assumes "wf_cmd c"
  shows "\<exists>c'. cmd_arg (to_args_vec (to_args_vec (to_args_u8 itoa cmd_write_arg))) xs c = Ret c' \<and> wf_cmd c' \<and>
              cmd_args_of c' = cmd_args_of c @ map Simple xs"
  using same_args_cmd_arg [OF same_args_byte_vectors assms to_redis_args_of_bytes] by (fastforce simp: cmd_args_of_def)

lemma eval_cmd_args:
  "\<exists>c. eval_cmd itoa call = Ret c \<and> wf_cmd c \<and>
       cmd_wire_args c = ''EVALSHA'' # sc_hash (si_script call) # itoa (int (length (si_keys call))) # si_keys call @ si_args call"
proof -
  let ?c0 = "cmd_with_capacity (3 + length (si_keys call) + length (si_args call)) (estimate_buflen call)"
  let ?c1 = "cmd_write_arg (cmd_write_arg (cmd_write_arg ?c0 ''EVALSHA'') (sc_hash (si_script call))) (itoa (int (length (si_keys call))))"
  have c1: "wf_cmd ?c1" by (simp add: wf_cmd_write_arg wf_cmd_with_capacity)
  obtain c2 where c2: "cmd_arg (to_args_vec (to_args_vec (to_args_u8 itoa cmd_write_arg))) (si_keys call) ?c1 = Ret c2" "wf_cmd c2"
      "cmd_args_of c2 = cmd_args_of ?c1 @ map Simple (si_keys call)" using cmd_arg_byte_vectors [OF c1] by blast
  obtain c3 where c3: "cmd_arg (to_args_vec (to_args_vec (to_args_u8 itoa cmd_write_arg))) (si_args call) c2 = Ret c3" "wf_cmd c3"
      "cmd_args_of c3 = cmd_args_of c2 @ map Simple (si_args call)" using cmd_arg_byte_vectors [OF c2(2)] by blast
  have int: "cmd_arg (to_args_int itoa cmd_write_arg) x c = Ret (cmd_write_arg c (itoa x))" for x c
    by (simp add: cmd_arg_def to_args_int_def to_redis_args_impl_def)
  have "eval_cmd itoa call = Ret c3"
    unfolding eval_cmd_def Let_def int using c2(1) c3(1) by simp
  with c2(3) c3(2,3) show ?thesis
    by (simp add: cmd_wire_args_def cmd_args_of_write_arg wf_cmd_write_arg wf_cmd_with_capacity comp_def)
qed

lemma load_cmd_args: "cmd_wire_args (load_cmd s) = [''SCRIPT'', ''LOAD'', sc_code s]"
  by (simp add: load_cmd_def cmd_wire_args_def cmd_args_of_write_arg wf_cmd_write_arg)

section \<open>A server with scripts\<close>

text \<open>The documented behaviour of SCRIPT LOAD and EVALSHA: a loaded script is kept under its hash, and a call with an
  unknown hash fails with NOSCRIPT and changes nothing.  \<open>run_script\<close> is what the code of a script does to the data,
  given its keys and arguments.\<close>

record 'db script_server =
  ss_loaded :: "(bytes \<times> bytes) list"
  ss_db :: 'db

definition evalsha ::
    "(bytes \<Rightarrow> bytes list \<Rightarrow> bytes list \<Rightarrow> 'db \<Rightarrow> Value \<times> 'db) \<Rightarrow> bytes \<Rightarrow> bytes \<Rightarrow> bytes list \<Rightarrow> 'db script_server \<Rightarrow>
     Value redis_result \<times> 'db script_server" where
  "evalsha run_script hash numkeys rest s = (case map_of (ss_loaded s) hash of
     None \<Rightarrow> (Inr (VServerError (Known NoScript None)), s)
   | Some code \<Rightarrow>
       (case fr_own (from_signed 64) (BulkString numkeys) of
          Inl _ \<Rightarrow> (Inr (VServerError (Known ResponseError None)), s)
        | Inr n \<Rightarrow> (let (v, db) = run_script code (take (nat n) rest) (drop (nat n) rest) (ss_db s)
                    in (Inr v, s\<lparr>ss_db := db\<rparr>))))"

definition serve_script ::
    "(bytes \<Rightarrow> bytes) \<Rightarrow> (bytes \<Rightarrow> bytes list \<Rightarrow> bytes list \<Rightarrow> 'db \<Rightarrow> Value \<times> 'db) \<Rightarrow> bytes list \<Rightarrow> 'db script_server \<Rightarrow>
     Value redis_result \<times> 'db script_server" where
  "serve_script sha1 run_script args s = (case args of
     name # a # b # rest \<Rightarrow>
       (if name = ''SCRIPT'' \<and> a = ''LOAD'' then (Inr (BulkString (sha1 b)), s\<lparr>ss_loaded := (sha1 b, b) # ss_loaded s\<rparr>)
        else if name = ''EVALSHA'' then evalsha run_script a b rest s
        else (Inr (VServerError (Known ResponseError None)), s))
   | _ \<Rightarrow> (Inr (VServerError (Known ResponseError None)), s))"

definition script_connection ::
    "(bytes \<Rightarrow> bytes) \<Rightarrow> (bytes \<Rightarrow> bytes list \<Rightarrow> bytes list \<Rightarrow> 'db \<Rightarrow> Value \<times> 'db) \<Rightarrow> 'db script_server connection_like" where
  "script_connection sha1 run_script =
     \<lparr>cl_req_packed_command = (\<lambda>_ s. Ret (Inl closed_connection_error, s)),
      cl_req_packed_commands = (\<lambda>_ _ _ s. Ret (Inl closed_connection_error, s)),
      cl_req_command = (\<lambda>c s. Ret (serve_script sha1 run_script (cmd_wire_args c) s)),
      cl_supports_pipelining = (\<lambda>_. False)\<rparr>"

lemma query_loaded:
  assumes "itoa_ok itoa" and "map_of (ss_loaded s) hash = Some code" and "length keys < 2 ^ 63"
    and "cmd_wire_args c = ''EVALSHA'' # hash # itoa (int (length keys)) # keys @ args"
    and "run_script code keys args (ss_db s) = (v, db)"
  shows "cmd_query (script_connection sha1 run_script) d c s = Ret (res_bind (extract_error v) (from_redis_value d), s\<lparr>ss_db := db\<rparr>)"
proof -
  have "fr_own (from_signed 64) (BulkString (itoa (int (length keys)))) = Inr (int (length keys))"
    using assms(3) by (intro int_from_bulk [OF assms(1)]) simp_all
  then show ?thesis using assms(2,4,5)
    by (simp add: cmd_query_def script_connection_def serve_script_def evalsha_def)
qed

lemma query_unknown:
  assumes "map_of (ss_loaded s) hash = None" and "cmd_wire_args c = ''EVALSHA'' # hash # n # rest"
  shows "cmd_query (script_connection sha1 run_script) d c s = Ret (Inl (ServerErr (Known NoScript None)), s)"
  using assms by (simp add: cmd_query_def script_connection_def serve_script_def evalsha_def)

lemma script_load_ok:
  assumes "is_ascii (sha1 code)"
  shows "script_load (script_connection sha1 run_script) (script_new sha1 code) s =
     Ret (Inr (sha1 code), s\<lparr>ss_loaded := (sha1 code, code) # ss_loaded s\<rparr>)"
  using from_utf8_ascii [OF assms]
  by (simp add: script_load_def cmd_query_def script_connection_def serve_script_def load_cmd_args script_new_def
      from_redis_value_def from_string_def from_redis_impl_def string_conv_def get_inner_value_def Let_def)

text \<open>C18.  Invoking a script runs it exactly once, with its keys and arguments, and returns what it returns, converted,
  whether or not the server knew the script: if it did not, the script is loaded first and stays loaded.\<close>

theorem script_runs_once:
  assumes "itoa_ok itoa" and "is_ascii (sha1 code)" and "length keys < 2 ^ 63"
    and "map_of (ss_loaded s) (sha1 code) \<in> {None, Some code}"
    and "run_script code keys args (ss_db s) = (v, db)"
    and "\<forall>e. res_bind (extract_error v) (from_redis_value d) = Inl e \<longrightarrow> error_kind e \<noteq> Server NoScript"
  shows "\<exists>s'. invocation_invoke itoa (script_connection sha1 run_script) d
                \<lparr>si_script = script_new sha1 code, si_args = args, si_keys = keys\<rparr> s =
              Ret (res_bind (extract_error v) (from_redis_value d), s') \<and>
              ss_db s' = db \<and> map_of (ss_loaded s') (sha1 code) = Some code"
proof -
  let ?call = "\<lparr>si_script = script_new sha1 code, si_args = args, si_keys = keys\<rparr>" and ?K = "script_connection sha1 run_script"
  obtain c where c: "eval_cmd itoa ?call = Ret c"
      "cmd_wire_args c = ''EVALSHA'' # sha1 code # itoa (int (length keys)) # keys @ args"
    using eval_cmd_args [of itoa ?call] by (auto simp: script_new_def)
  show ?thesis
  proof (cases "map_of (ss_loaded s) (sha1 code)")
    case None
    let ?s = "s\<lparr>ss_loaded := (sha1 code, code) # ss_loaded s\<rparr>"
    have "cmd_query ?K d c ?s = Ret (res_bind (extract_error v) (from_redis_value d), ?s\<lparr>ss_db := db\<rparr>)"
      using assms(5) by (intro query_loaded [OF assms(1) _ assms(3) c(2)]) simp_all
    then show ?thesis using c(1) query_unknown [OF None c(2), of sha1 run_script d] script_load_ok [of sha1 code run_script s] assms(2)
      by (simp add: invocation_invoke_def error_kind_def se_kind_def)
  next
    case (Some code')
    then have code: "map_of (ss_loaded s) (sha1 code) = Some code" using assms(4) by simp
    have "cmd_query ?K d c s = Ret (res_bind (extract_error v) (from_redis_value d), s\<lparr>ss_db := db\<rparr>)"
      using assms(5) by (intro query_loaded [OF assms(1) code assms(3) c(2)])
    then show ?thesis using c(1) code assms(6)
      by (cases "res_bind (extract_error v) (from_redis_value d)") (simp_all add: invocation_invoke_def)
  qed
qed

theorem script_runs_once_witness:
  "\<exists>s'. invocation_invoke show_int (script_connection (\<lambda>_. ''4a22'') (\<lambda>_ keys args n. (VInt n, n + 1))) from_value
          \<lparr>si_script = script_new (\<lambda>_. ''4a22'') ''return redis.call(...)'', si_args = [''x''], si_keys = [''k'']\<rparr>
          \<lparr>ss_loaded = [], ss_db = 7\<rparr> = Ret (Inr (VInt 7), s') \<and>
        ss_db s' = 8 \<and> map_of (ss_loaded s') ''4a22'' = Some ''return redis.call(...)''"
  using script_runs_once [OF itoa_ok_show_int, of "\<lambda>_. ''4a22''" "''return redis.call(...)''" "[''k'']" "\<lparr>ss_loaded = [], ss_db = 7\<rparr>"
      "\<lambda>_ keys args n. (VInt n, n + 1)" "[''x'']" "VInt 7" 8 from_value]
  by (simp add: from_redis_value_def from_value_def from_redis_impl_def is_ascii_def in_range_def)

end
