(* ===== verification/Sync_Connection.thy ===== *)
theory Sync_Connection
  imports Pipelines
begin

text \<open>
  The synchronous connection of \<^verbatim>\<open>connection.rs\<close>: connection setup (HELLO/AUTH, SELECT, CLIENT
  TRACKING, CLIENT SETINFO and the check of their replies), sending, reading with the counter of
  stale replies that a read timeout leaves behind, requests, pipelines, and leaving the
  publish/subscribe state.

  The transport is the environment of the model: \<open>cn_reads\<close> is the sequence of results that
  \<^verbatim>\<open>parser.parse_value(reader)\<close> will have, and reading past its end is the end of the stream;
  \<open>cn_write_errs\<close> is the sequence of outcomes of \<^verbatim>\<open>write_all\<close> (success once it is used up).  What
  the connection writes and what it hands to the push sender is logged in \<open>cn_sent\<close> and
  \<open>cn_pushed\<close>.  Sockets, TLS and timeouts are not modelled.
\<close>

datatype ProtocolVersion = RESP2 | RESP3

definition supports_resp3 :: "ProtocolVersion \<Rightarrow> bool" where
  "supports_resp3 v \<longleftrightarrow> v \<noteq> RESP2"

type_synonym PushInfo = "PushKind \<times> Value list"

definition push_info_disconnect :: PushInfo where
  "push_info_disconnect = (Disconnection, [])"

record RedisConnectionInfo =
  ci_db :: int
  ci_username :: "bytes option"
  ci_password :: "bytes option"
  ci_protocol :: ProtocolVersion
  ci_skip_set_lib_name :: bool
  ci_lib_name :: "bytes option"
  ci_lib_ver :: "bytes option"

datatype CacheMode = CacheAll | OptIn

record Connection =
  cn_reads :: "Value redis_result list"
  cn_write_errs :: "io_kind option list"
  cn_sent :: "bytes list"
  cn_open :: bool
  cn_pubsub :: bool
  cn_protocol :: ProtocolVersion
  cn_push_sender :: bool
  cn_pushed :: "PushInfo list"
  cn_messages_to_skip :: nat
  cn_db :: int

section \<open>Connection setup\<close>

definition authenticate_cmd :: "bytes option \<Rightarrow> bytes \<Rightarrow> Cmd" where
  "authenticate_cmd username password =
     (let command = cmd ''AUTH'';
          command = (case username of Some u \<Rightarrow> cmd_write_arg command u | None \<Rightarrow> command)
      in cmd_write_arg command password)"

definition resp3_hello :: "RedisConnectionInfo \<Rightarrow> Cmd" where
  "resp3_hello info =
     (let hello_cmd = cmd_write_arg (cmd ''HELLO'') ''3''
      in case ci_password info of
           Some password \<Rightarrow>
             (let username = (case ci_username info of None \<Rightarrow> ''default'' | Some u \<Rightarrow> u)
              in cmd_write_arg (cmd_write_arg (cmd_write_arg hello_cmd ''AUTH'') username) password)
         | None \<Rightarrow> hello_cmd)"

record ConnectionSetupComponents =
  resp3_auth_cmd_idx :: "nat option"
  resp2_auth_cmd_idx :: "nat option"
  select_cmd_idx :: "nat option"
  cache_cmd_idx :: "nat option"

text \<open>\<open>pkg_version\<close> is the version the crate was built with.\<close>

definition connection_setup_pipeline ::
    "(int \<Rightarrow> bytes) \<Rightarrow> bytes \<Rightarrow> RedisConnectionInfo \<Rightarrow> bool \<Rightarrow> CacheMode option \<Rightarrow>
     Pipeline \<times> ConnectionSetupComponents" where
  "connection_setup_pipeline itoa pkg_version info check_username cache_config =
     (let (pipeline, resp3_idx, resp2_idx) =
            (if supports_resp3 (ci_protocol info)
             then (add_command pipeline_new (resp3_hello info), Some 0, None)
             else (case ci_password info of
                     Some password \<Rightarrow>
                       (add_command pipeline_new
                          (authenticate_cmd (if check_username then ci_username info else None) password),
                        None, Some 0)
                   | None \<Rightarrow> (pipeline_new, None, None)));
          (pipeline, select_idx) =
            (if ci_db info \<noteq> 0
             then (add_command pipeline (cmd_write_arg (cmd ''SELECT'') (itoa (ci_db info))),
                   Some (pipeline_len pipeline))
             else (pipeline, None));
          (pipeline, cache_idx) =
            (case cache_config of
               Some mode \<Rightarrow>
                 (let tracking = cmd_write_arg (cmd_write_arg (cmd ''CLIENT'') ''TRACKING'') ''ON'';
                      tracking = (case mode of CacheAll \<Rightarrow> tracking | OptIn \<Rightarrow> cmd_write_arg tracking ''OPTIN'');
                      pipeline = add_command pipeline tracking
                  in (pipeline, Some (pipeline_len pipeline - 1)))
             | None \<Rightarrow> (pipeline, None));
          pipeline =
            (if ci_skip_set_lib_name info then pipeline
             else
               (let setinfo = (\<lambda>name value.
                      cmd_write_arg (cmd_write_arg (cmd_write_arg (cmd ''CLIENT'') ''SETINFO'') name) value);
                    pipeline = ignore (add_command pipeline (setinfo ''LIB-NAME''
                      (case ci_lib_name info of None \<Rightarrow> ''redis-rs'' | Some n \<Rightarrow> n)))
                in ignore (add_command pipeline (setinfo ''LIB-VER''
                      (case ci_lib_ver info of None \<Rightarrow> pkg_version | Some n \<Rightarrow> n)))))
      in (pipeline,
          \<lparr>resp3_auth_cmd_idx = resp3_idx, resp2_auth_cmd_idx = resp2_idx,
           select_cmd_idx = select_idx, cache_cmd_idx = cache_idx\<rparr>))"

definition get_resp3_hello_command_error :: "RedisError \<Rightarrow> RedisError" where
  "get_resp3_hello_command_error err =
     (case error_detail err of
        Some detail \<Rightarrow>
          (if prefix ''unknown command `HELLO`'' detail
           then error_of RESP3NotSupported
                  ''Redis Server doesn't support HELLO command therefore resp3 cannot be used''
           else err)
      | None \<Rightarrow> err)"

definition check_resp3_auth :: "Value \<Rightarrow> unit redis_result" where
  "check_resp3_auth result =
     (case result of
        VServerError err \<Rightarrow> Inl (get_resp3_hello_command_error (ServerErr err))
      | _ \<Rightarrow> Inr ())"

datatype AuthResult = AuthSucceeded | ShouldRetryWithoutUsername

definition check_resp2_auth :: "Value \<Rightarrow> AuthResult redis_result" where
  "check_resp2_auth result =
     (case result of
        Okay \<Rightarrow> Inr AuthSucceeded
      | VServerError err \<Rightarrow>
          (case se_details err of
             None \<Rightarrow> Inl (error_of AuthenticationFailed ''Password authentication failed'')
           | Some err_msg \<Rightarrow>
               (if \<not> sublist ''wrong number of arguments for 'auth' command'' err_msg
                then Inl (error_of AuthenticationFailed ''Password authentication failed'')
                else Inr ShouldRetryWithoutUsername))
      | _ \<Rightarrow> Inl (error_of (Server ResponseError)
                  ''Redis server refused to authenticate, returns Ok() != Value::Okay''))"

definition check_db_select :: "Value \<Rightarrow> unit redis_result" where
  "check_db_select value =
     (case value of
        VServerError err \<Rightarrow>
          (case se_details err of
             Some err_msg \<Rightarrow>
               Inl (General (Server ResponseError) ''Redis server refused to switch database'' (Some err_msg))
           | None \<Rightarrow> Inl (error_of (Server ResponseError) ''Redis server refused to switch database''))
      | _ \<Rightarrow> Inr ())"

text \<open>The detail of this error is the debug text of the reply, not modelled.\<close>

definition check_caching :: "Value \<Rightarrow> unit redis_result" where
  "check_caching result =
     (case result of
        Okay \<Rightarrow> Inr ()
      | _ \<Rightarrow> Inl (General (Server ResponseError) ''Client-side caching returned unknown response'' (Some [])))"

definition check_indexed :: "Value list \<Rightarrow> nat option \<Rightarrow> bytes \<Rightarrow> (Value \<Rightarrow> unit redis_result) \<Rightarrow> unit redis_result" where
  "check_indexed results idx missing check =
     (case idx of
        None \<Rightarrow> Inr ()
      | Some index \<Rightarrow>
          (case get_idx results index of
             None \<Rightarrow> Inl (error_of Client missing)
           | Some value \<Rightarrow> check value))"

definition check_connection_setup ::
    "Value list \<Rightarrow> ConnectionSetupComponents \<Rightarrow> AuthResult redis_result run" where
  "check_connection_setup results comps =
     (if resp2_auth_cmd_idx comps \<noteq> None \<and> resp3_auth_cmd_idx comps \<noteq> None then Panic
      else
        (let auth =
               (case resp3_auth_cmd_idx comps of
                  Some index \<Rightarrow>
                    res_bind (check_indexed results (Some index) ''Missing RESP3 auth response'' check_resp3_auth)
                      (\<lambda>_. Inr AuthSucceeded)
                | None \<Rightarrow>
                    (case resp2_auth_cmd_idx comps of
                       Some index \<Rightarrow>
                         (case get_idx results index of
                            None \<Rightarrow> Inl (error_of Client ''Missing RESP2 auth response'')
                          | Some value \<Rightarrow> check_resp2_auth value)
                     | None \<Rightarrow> Inr AuthSucceeded))
         in Ret (res_bind auth (\<lambda>a.
              if a = ShouldRetryWithoutUsername then Inr ShouldRetryWithoutUsername
              else
                res_bind (check_indexed results (select_cmd_idx comps) ''Missing SELECT DB response'' check_db_select) (\<lambda>_.
                res_bind (check_indexed results (cache_cmd_idx comps) ''Missing Caching response'' check_caching) (\<lambda>_.
                Inr AuthSucceeded))))))"

section \<open>Sending and reading\<close>

definition send_push :: "PushInfo \<Rightarrow> Connection \<Rightarrow> Connection" where
  "send_push push c = (if cn_push_sender c then c\<lparr>cn_pushed := cn_pushed c @ [push]\<rparr> else c)"

definition try_send :: "Value redis_result \<Rightarrow> Connection \<Rightarrow> Connection" where
  "try_send value c = (case value of Inr (VPush kind data) \<Rightarrow> send_push (kind, data) c | _ \<Rightarrow> c)"

definition send_disconnect :: "Connection \<Rightarrow> Connection" where
  "send_disconnect c = send_push push_info_disconnect c"

definition close_connection :: "Connection \<Rightarrow> Connection" where
  "close_connection c = (send_disconnect c)\<lparr>cn_open := False\<rparr>"

definition parse_next :: "Connection \<Rightarrow> Value redis_result \<times> Connection" where
  "parse_next c = (case cn_reads c of
     [] \<Rightarrow> (Inl (io_error UnexpectedEof), c)
   | r # rs \<Rightarrow> (r, c\<lparr>cn_reads := rs\<rparr>))"

lemma messages_to_skip_send [simp]:
  "cn_messages_to_skip (try_send r c) = cn_messages_to_skip c"
  "cn_reads (try_send r c) = cn_reads c"
  "cn_reads (send_push p c) = cn_reads c"
  "cn_messages_to_skip (snd (parse_next c)) = cn_messages_to_skip c"
  by (auto simp: try_send_def send_push_def parse_next_def split: sum.split Value.split list.split)

function conn_read :: "bool \<Rightarrow> Connection \<Rightarrow> Value redis_result \<times> Connection" where
  "conn_read is_response c =
     (let (result, c1) = parse_next c;
          c2 = try_send result c1
      in case result of
           Inr _ \<Rightarrow>
             (if cn_messages_to_skip c2 > 0
              then conn_read is_response (c2\<lparr>cn_messages_to_skip := cn_messages_to_skip c2 - 1\<rparr>)
              else (result, c2))
         | Inl err \<Rightarrow>
             (case as_io_error err of
                None \<Rightarrow>
                  (if cn_messages_to_skip c2 > 0
                   then conn_read is_response (c2\<lparr>cn_messages_to_skip := cn_messages_to_skip c2 - 1\<rparr>)
                   else (result, c2))
              | Some k \<Rightarrow>
                  (result,
                   if k = UnexpectedEof then close_connection c2
                   else if is_response then c2\<lparr>cn_messages_to_skip := cn_messages_to_skip c2 + 1\<rparr>
                   else c2)))"
  by pat_completeness auto

termination
  by (relation "measure (\<lambda>(r, c). cn_messages_to_skip c)")
     (auto simp: parse_next_def split: list.splits)

declare conn_read.simps [simp del]

definition recv_response :: "Connection \<Rightarrow> Value redis_result \<times> Connection" where
  "recv_response c = conn_read True c"

text \<open>\<^verbatim>\<open>ActualConnection::send_bytes\<close> followed by \<^verbatim>\<open>Connection::send_bytes\<close>.\<close>

definition actual_send_bytes :: "bytes \<Rightarrow> Connection \<Rightarrow> Value redis_result \<times> Connection" where
  "actual_send_bytes bs c =
     (case cn_write_errs c of
        Some k # outs \<Rightarrow>
          (let e = io_error k; c = c\<lparr>cn_write_errs := outs\<rparr>
           in (Inl e, if is_unrecoverable_error e then c\<lparr>cn_open := False\<rparr> else c))
      | None # outs \<Rightarrow> (Inr Okay, c\<lparr>cn_write_errs := outs, cn_sent := cn_sent c @ [bs]\<rparr>)
      | [] \<Rightarrow> (Inr Okay, c\<lparr>cn_sent := cn_sent c @ [bs]\<rparr>))"

definition send_bytes :: "bytes \<Rightarrow> Connection \<Rightarrow> Value redis_result \<times> Connection" where
  "send_bytes bs c =
     (if bs = [] then (Inl make_empty_command, c)
      else
        (let (result, c1) = actual_send_bytes bs c
         in (result,
             case result of
               Inl e \<Rightarrow> (if supports_resp3 (cn_protocol c1) \<and> is_connection_dropped e then send_disconnect c1 else c1)
             | Inr _ \<Rightarrow> c1)))"

lemma send_bytes_reads [simp]: "cn_reads (snd (send_bytes bs c)) = cn_reads c"
  by (auto simp: send_bytes_def actual_send_bytes_def send_disconnect_def Let_def
      split: list.split option.split prod.split)

text \<open>A result that counts as one message when stale replies are skipped.\<close>

definition is_message :: "Value redis_result \<Rightarrow> bool" where
  "is_message r = (case r of Inr _ \<Rightarrow> True | Inl e \<Rightarrow> as_io_error e = None)"

lemma conn_read_Cons:
  assumes "cn_reads c = x # xs"
  shows "conn_read b c =
     (let c2 = try_send x (c\<lparr>cn_reads := xs\<rparr>); n = cn_messages_to_skip c
      in if is_message x
         then (if n > 0 then conn_read b (c2\<lparr>cn_messages_to_skip := n - 1\<rparr>) else (x, c2))
         else (x, case x of Inl e \<Rightarrow>
                    (if as_io_error e = Some UnexpectedEof then close_connection c2
                     else if b then c2\<lparr>cn_messages_to_skip := n + 1\<rparr> else c2)
                  | Inr _ \<Rightarrow> c2))"
  by (subst conn_read.simps)
     (auto simp: parse_next_def assms is_message_def Let_def split: sum.split option.split)

lemma conn_read_Nil:
  "cn_reads c = [] \<Longrightarrow> conn_read b c = (Inl (io_error UnexpectedEof), close_connection c)"
  by (subst conn_read.simps) (simp add: parse_next_def try_send_def as_io_error_def io_error_def)

lemma close_connection_reads [simp]: "cn_reads (close_connection c) = cn_reads c"
  by (simp add: close_connection_def send_disconnect_def)

lemma conn_read_reads:
  "conn_read b c = (r, c') \<Longrightarrow> length (cn_reads c') \<le> length (cn_reads c) \<and>
     ((\<exists>v. r = Inr v) \<longrightarrow> length (cn_reads c') < length (cn_reads c))"
proof (induction "cn_messages_to_skip c" arbitrary: c rule: less_induct)
  case less
  show ?case
  proof (cases "cn_reads c")
    case Nil
    with less.prems show ?thesis by (auto simp: conn_read_Nil)
  next
    case (Cons x xs)
    let ?c2 = "try_send x (c\<lparr>cn_reads := xs\<rparr>)"
    let ?c3 = "?c2\<lparr>cn_messages_to_skip := cn_messages_to_skip c - 1\<rparr>"
    show ?thesis
    proof (cases "is_message x \<and> cn_messages_to_skip c > 0")
      case True
      then have "conn_read b ?c3 = (r, c')"
        using less.prems by (simp add: conn_read_Cons [OF Cons] Let_def)
      from less.hyps [OF _ this] True Cons show ?thesis by auto
    next
      case False
      with less.prems show ?thesis
        by (auto simp: conn_read_Cons [OF Cons] Let_def Cons split: if_splits sum.splits)
    qed
  qed
qed

section \<open>Requests\<close>

text \<open>The loop of \<^verbatim>\<open>req_command\<close> and \<^verbatim>\<open>req_packed_command\<close>: push messages are not replies.\<close>

function read_reply :: "Connection \<Rightarrow> Value redis_result \<times> Connection" where
  "read_reply c =
     (case conn_read True c of
        (Inr (VPush _ _), c') \<Rightarrow> read_reply c'
      | (r, c') \<Rightarrow> (r, c'))"
  by pat_completeness auto

termination
  by (relation "measure (\<lambda>c. length (cn_reads c))") (auto dest: conn_read_reads [OF sym])

declare read_reply.simps [simp del]

definition resp2_is_pub_sub_state_cleared :: "bool \<times> bool \<Rightarrow> bytes \<Rightarrow> int \<Rightarrow> bool \<times> (bool \<times> bool)" where
  "resp2_is_pub_sub_state_cleared st kind num =
     (let (unsub, punsub) = st;
          unsub = (unsub \<or> (kind \<noteq> [] \<and> hd kind = CHR ''u''));
          punsub = (punsub \<or> (kind \<noteq> [] \<and> hd kind = CHR ''p''))
      in (unsub \<and> punsub \<and> num = 0, (unsub, punsub)))"

definition resp3_is_pub_sub_state_cleared :: "bool \<times> bool \<Rightarrow> PushKind \<Rightarrow> int \<Rightarrow> bool \<times> (bool \<times> bool)" where
  "resp3_is_pub_sub_state_cleared st kind num =
     (let (unsub, punsub) = st;
          unsub = (unsub \<or> kind = Unsubscribe);
          punsub = (punsub \<or> kind = PUnsubscribe)
      in (unsub \<and> punsub \<and> num = 0, (unsub, punsub)))"

definition no_sub_err_is_pub_sub_state_cleared :: "bool \<times> bool \<Rightarrow> ServerError \<Rightarrow> bool \<times> (bool \<times> bool)" where
  "no_sub_err_is_pub_sub_state_cleared st err =
     (let (unsub, punsub) = st;
          starts = (\<lambda>s. case se_details err of Some d \<Rightarrow> prefix (CHR 0x27 # s) d | None \<Rightarrow> False);
          unsub = (unsub \<or> starts ''unsub'');
          punsub = (punsub \<or> starts ''punsub'')
      in (unsub \<and> punsub, (unsub, punsub)))"

text \<open>One turn of the loop in \<^verbatim>\<open>clear_active_subscriptions\<close>: whether the loop ends, with its
  result, or goes on with the two flags.\<close>

definition unsubscribe_turn :: "Value \<Rightarrow> bool \<times> bool \<Rightarrow> unit redis_result option \<times> (bool \<times> bool)" where
  "unsubscribe_turn resp st =
     (case resp of
        VPush kind data \<Rightarrow>
          (if length data \<ge> 2 then
             (case data ! 1 of
                VInt num \<Rightarrow>
                  (let (cleared, st') = resp3_is_pub_sub_state_cleared st kind (sint num)
                   in (if cleared then Some (Inr ()) else None, st'))
              | _ \<Rightarrow> (None, st))
           else (None, st))
      | VServerError err \<Rightarrow>
          (if se_kind err = Some NoSub then
             (let (cleared, st') = no_sub_err_is_pub_sub_state_cleared st err
              in (if cleared then Some (Inr ()) else None, st'))
           else (Some (Inl (ServerErr err)), st))
      | VArray vec \<Rightarrow>
          (case from_redis_value (from_triple (from_vec from_u8) from_unit (from_signed 64)) (VArray vec) of
             Inl e \<Rightarrow> (Some (Inl e), st)
           | Inr (kind, _, num) \<Rightarrow>
               (let (cleared, st') = resp2_is_pub_sub_state_cleared st kind num
                in (if cleared then Some (Inr ()) else None, st')))
      | _ \<Rightarrow> (Some (Inl (General Client ''Unexpected unsubscribe response'' (Some []))), st))"

function clear_loop :: "bool \<times> bool \<Rightarrow> Connection \<Rightarrow> unit redis_result \<times> Connection" where
  "clear_loop st c =
     (case recv_response c of
        (Inl e, c') \<Rightarrow> (Inl e, c')
      | (Inr resp, c') \<Rightarrow>
          (case unsubscribe_turn resp st of
             (Some r, _) \<Rightarrow> (r, c')
           | (None, st') \<Rightarrow> clear_loop st' c'))"
  by pat_completeness auto

termination
  by (relation "measure (\<lambda>(st, c). length (cn_reads c))")
     (auto simp: recv_response_def dest: conn_read_reads [OF sym])

declare clear_loop.simps [simp del]

definition clear_active_subscriptions :: "(int \<Rightarrow> bytes) \<Rightarrow> Connection \<Rightarrow> (unit redis_result \<times> Connection) run" where
  "clear_active_subscriptions itoa c =
     run_bind (get_packed_command itoa (cmd ''UNSUBSCRIBE'')) (\<lambda>unsubscribe.
     run_bind (get_packed_command itoa (cmd ''PUNSUBSCRIBE'')) (\<lambda>punsubscribe.
       Ret (case send_bytes unsubscribe c of
              (Inl e, c1) \<Rightarrow> (Inl e, c1)
            | (Inr _, c1) \<Rightarrow>
                (case send_bytes punsubscribe c1 of
                   (Inl e, c2) \<Rightarrow> (Inl e, c2)
                 | (Inr _, c2) \<Rightarrow> clear_loop (False, False) c2))))"

definition exit_pubsub :: "(int \<Rightarrow> bytes) \<Rightarrow> Connection \<Rightarrow> (unit redis_result \<times> Connection) run" where
  "exit_pubsub itoa c =
     run_bind (clear_active_subscriptions itoa c) (\<lambda>(res, c').
       Ret (res, c'\<lparr>cn_pubsub := (case res of Inr _ \<Rightarrow> False | Inl _ \<Rightarrow> True)\<rparr>))"

text \<open>The common start of the three request methods: leave the publish/subscribe state, then send.\<close>

definition leave_pubsub :: "(int \<Rightarrow> bytes) \<Rightarrow> Connection \<Rightarrow> (unit redis_result \<times> Connection) run" where
  "leave_pubsub itoa c = (if cn_pubsub c then exit_pubsub itoa c else Ret (Inr (), c))"

definition req_packed_command :: "(int \<Rightarrow> bytes) \<Rightarrow> bytes \<Rightarrow> Connection \<Rightarrow> (Value redis_result \<times> Connection) run" where
  "req_packed_command itoa bs c =
     run_bind (leave_pubsub itoa c) (\<lambda>(r, c0). Ret (
       case r of Inl e \<Rightarrow> (Inl e, c0)
       | Inr _ \<Rightarrow>
           (case send_bytes bs c0 of
              (Inl e, c1) \<Rightarrow> (Inl e, c1)
            | (Inr _, c1) \<Rightarrow> read_reply c1)))"

definition req_command :: "(int \<Rightarrow> bytes) \<Rightarrow> Cmd \<Rightarrow> Connection \<Rightarrow> (Value redis_result \<times> Connection) run" where
  "req_command itoa cm c =
     run_bind (get_packed_command itoa cm) (\<lambda>pcmd.
     run_bind (leave_pubsub itoa c) (\<lambda>(r, c0). Ret (
       case r of Inl e \<Rightarrow> (Inl e, c0)
       | Inr _ \<Rightarrow>
           (case send_bytes pcmd c0 of
              (Inl e, c1) \<Rightarrow> (Inl e, c1)
            | (Inr _, c1) \<Rightarrow> if is_no_response cm then (Inr VNil, c1) else read_reply c1))))"

text \<open>The loop of \<^verbatim>\<open>req_packed_commands\<close>.  The index of a server error among the first \<open>offset\<close>
  replies is \<^verbatim>\<open>idx - 1\<close>, which underflows at the first reply.\<close>

function replies_loop ::
    "nat \<Rightarrow> nat \<Rightarrow> nat \<Rightarrow> Value list \<Rightarrow> RedisError option \<Rightarrow> (nat \<times> ServerError) list \<Rightarrow> Connection \<Rightarrow>
     (Value list redis_result \<times> Connection) run" where
  "replies_loop offset cnt idx rv first_err server_errs c =
     (if idx < offset + cnt then
        (case conn_read True c of
           (response, c') \<Rightarrow>
             (case response of
                Inr (VServerError err) \<Rightarrow>
                  (if idx < offset then
                     (if idx = 0 then Panic
                      else replies_loop offset cnt (idx + 1) rv first_err (server_errs @ [(idx - 1, err)]) c')
                   else replies_loop offset cnt (idx + 1) (rv @ [VServerError err]) first_err server_errs c')
              | Inr (VPush _ _) \<Rightarrow> replies_loop offset (cnt + 1) (idx + 1) rv first_err server_errs c'
              | Inr item \<Rightarrow>
                  replies_loop offset cnt (idx + 1) (if idx \<ge> offset then rv @ [item] else rv) first_err server_errs c'
              | Inl err \<Rightarrow>
                  replies_loop offset cnt (idx + 1) rv
                    (case first_err of None \<Rightarrow> Some err | Some e \<Rightarrow> Some e) server_errs c'))
      else
        Ret (if server_errs \<noteq> [] then Inl (TransactionAborted server_errs)
             else (case first_err of None \<Rightarrow> Inr rv | Some e \<Rightarrow> Inl e), c))"
  by pat_completeness auto

termination
  by (relation "measures [\<lambda>(offset, cnt, idx, rv, f, s, c). length (cn_reads c),
                          \<lambda>(offset, cnt, idx, rv, f, s, c). offset + cnt - idx]")
     (auto dest!: conn_read_reads [OF sym])

declare replies_loop.simps [simp del]

definition req_packed_commands ::
    "(int \<Rightarrow> bytes) \<Rightarrow> bytes \<Rightarrow> nat \<Rightarrow> nat \<Rightarrow> Connection \<Rightarrow> (Value list redis_result \<times> Connection) run" where
  "req_packed_commands itoa bs offset cnt c =
     run_bind (leave_pubsub itoa c) (\<lambda>(r, c0).
       case r of Inl e \<Rightarrow> Ret (Inl e, c0)
       | Inr _ \<Rightarrow>
           (case send_bytes bs c0 of
              (Inl e, c1) \<Rightarrow> Ret (Inl e, c1)
            | (Inr _, c1) \<Rightarrow> replies_loop offset cnt 0 [] None [] c1))"

definition connection_ops :: "(int \<Rightarrow> bytes) \<Rightarrow> Connection connection_like" where
  "connection_ops itoa =
     \<lparr>cl_req_packed_command = req_packed_command itoa,
      cl_req_packed_commands = req_packed_commands itoa,
      cl_req_command = req_command itoa,
      cl_supports_pipelining = (\<lambda>_. True)\<rparr>"

definition check_connection :: "(int \<Rightarrow> bytes) \<Rightarrow> Connection \<Rightarrow> (bool \<times> Connection) run" where
  "check_connection itoa c =
     run_bind (cmd_query (connection_ops itoa) from_string (cmd ''PING'') c)
       (\<lambda>(r, c'). Ret (case r of Inr _ \<Rightarrow> True | Inl _ \<Rightarrow> False, c'))"

definition execute_connection_pipeline ::
    "(int \<Rightarrow> bytes) \<Rightarrow> Connection \<Rightarrow> Pipeline \<times> ConnectionSetupComponents \<Rightarrow>
     (AuthResult redis_result \<times> Connection) run" where
  "execute_connection_pipeline itoa rv pc =
     (case pc of (pipeline, instructions) \<Rightarrow>
        if pipeline_is_empty pipeline then Ret (Inr AuthSucceeded, rv)
        else
          run_bind (get_packed_pipeline itoa pipeline) (\<lambda>bs.
          run_bind (req_packed_commands itoa bs 0 (pipeline_len pipeline) rv) (\<lambda>(results, rv').
            case results of
              Inl e \<Rightarrow> Ret (Inl e, rv')
            | Inr results \<Rightarrow>
                run_bind (check_connection_setup results instructions) (\<lambda>r. Ret (r, rv')))))"

definition setup_connection ::
    "(int \<Rightarrow> bytes) \<Rightarrow> bytes \<Rightarrow> Connection \<Rightarrow> RedisConnectionInfo \<Rightarrow> CacheMode option \<Rightarrow>
     Connection redis_result run" where
  "setup_connection itoa pkg_version con info cache_config =
     (let rv = con\<lparr>cn_db := ci_db info, cn_pubsub := False, cn_protocol := ci_protocol info,
                   cn_push_sender := False, cn_messages_to_skip := 0\<rparr>
      in run_bind (execute_connection_pipeline itoa rv
                     (connection_setup_pipeline itoa pkg_version info True cache_config)) (\<lambda>(r, rv1).
         case r of
           Inl e \<Rightarrow> Ret (Inl e)
         | Inr AuthSucceeded \<Rightarrow> Ret (Inr rv1)
         | Inr ShouldRetryWithoutUsername \<Rightarrow>
             run_bind (execute_connection_pipeline itoa rv1
                         (connection_setup_pipeline itoa pkg_version info False cache_config)) (\<lambda>(r2, rv2).
               Ret (case r2 of Inl e \<Rightarrow> Inl e | Inr _ \<Rightarrow> Inr rv2))))"

end
