(* ===== verification/Sync_Replies.thy ===== *)
theory Sync_Replies
  imports Sync_Connection
begin

text \<open>
  Which reply belongs to which request on a synchronous connection (\<^verbatim>\<open>Connection::read\<close>,
  \<^verbatim>\<open>req_command\<close>, \<^verbatim>\<open>req_packed_commands\<close> of \<^verbatim>\<open>connection.rs\<close>): after read timeouts, in pipelines
  with push messages in between, and in transactions.
\<close>

section \<open>Timeouts\<close>

definition is_push :: "Value \<Rightarrow> bool" where
  "is_push v = (case v of VPush _ _ \<Rightarrow> True | _ \<Rightarrow> False)"

text \<open>A read that times out: an I/O error other than the end of the stream.\<close>

definition is_timeout_read :: "Value redis_result \<Rightarrow> bool" where
  "is_timeout_read r =
     (case r of Inl e \<Rightarrow> (case as_io_error e of None \<Rightarrow> False | Some k \<Rightarrow> k \<noteq> UnexpectedEof) | Inr _ \<Rightarrow> False)"

text \<open>The replies in a stream of reads.\<close>

definition replies_of :: "Value redis_result list \<Rightarrow> Value list" where
  "replies_of rs = List.map_filter res_ok rs"

lemma replies_of_simps [simp]:
  "replies_of [] = []" "replies_of (Inr v # rs) = v # replies_of rs" "replies_of (Inl e # rs) = replies_of rs"
  by (simp_all add: replies_of_def map_filter_simps)

text \<open>The results of \<open>n\<close> requests in a row, each waiting for its reply.\<close>

fun requests :: "nat \<Rightarrow> Connection \<Rightarrow> Value redis_result list" where
  "requests 0 c = []"
| "requests (Suc n) c = (case read_reply c of (r, c') \<Rightarrow> r # requests n c')"

definition calm :: "Value redis_result \<Rightarrow> bool" where
  "calm r \<longleftrightarrow> is_timeout_read r \<or> (\<exists>v. r = Inr v \<and> \<not> is_push v)"

lemma try_send_calm: "calm r \<Longrightarrow> try_send r c = c"
proof (cases r)
  case (Inr v)
  moreover assume "calm r"
  ultimately have "\<not> is_push v" by (simp add: calm_def is_timeout_read_def)
  then show ?thesis by (cases v) (simp_all add: Inr try_send_def is_push_def)
qed (simp add: try_send_def)

lemma calm_cases:
  assumes "calm x"
  obtains w where "x = Inr w" "\<not> is_push w" | e where "x = Inl e" "is_timeout_read (Inl e)"
  using assms by (cases x) (auto simp: calm_def is_timeout_read_def)

lemma conn_read_reply:
  assumes "cn_reads c = Inr w # xs" and "\<not> is_push w"
  shows "conn_read b c =
     (if cn_messages_to_skip c = 0 then (Inr w, c\<lparr>cn_reads := xs\<rparr>)
      else conn_read b (c\<lparr>cn_reads := xs, cn_messages_to_skip := cn_messages_to_skip c - 1\<rparr>))"
  using conn_read_Cons [OF assms(1), of b] try_send_calm [of "Inr w"] assms(2)
  by (simp add: calm_def is_message_def)

lemma conn_read_timeout:
  assumes "cn_reads c = Inl e # xs" and "is_timeout_read (Inl e)"
  shows "conn_read True c = (Inl e, c\<lparr>cn_reads := xs, cn_messages_to_skip := cn_messages_to_skip c + 1\<rparr>)"
  using conn_read_Cons [OF assms(1), of True] try_send_calm [of "Inl e"] assms(2)
  by (auto simp: calm_def is_message_def is_timeout_read_def split: option.splits)

lemma conn_read_aligned:
  assumes "\<forall>r \<in> set (cn_reads c). calm r" and "replies_of (cn_reads c) = stale @ v # rest"
    and "cn_messages_to_skip c = length stale"
  shows "\<exists>r c' stale'. conn_read True c = (r, c') \<and>
           (r = Inr v \<and> \<not> is_push v \<or> (\<exists>e. r = Inl e \<and> is_timeout_read (Inl e))) \<and>
           replies_of (cn_reads c') = stale' @ rest \<and> cn_messages_to_skip c' = length stale' \<and>
           (\<forall>r \<in> set (cn_reads c'). calm r)"
  using assms
proof (induction stale arbitrary: c)
  case Nil
  then obtain x xs where x: "cn_reads c = x # xs" by (cases "cn_reads c") auto
  then have "calm x" using Nil.prems by simp
  then show ?case
  proof (cases x rule: calm_cases)
    case (1 w)
    with Nil.prems x show ?thesis
      using conn_read_reply [of c w xs True] by (auto intro!: exI [of _ "[]"])
  next
    case (2 e)
    with Nil.prems x show ?thesis
      using conn_read_timeout [of c e xs] by (auto intro!: exI [of _ "[v]"])
  qed
next
  case (Cons y ys)
  then obtain x xs where x: "cn_reads c = x # xs" by (cases "cn_reads c") auto
  then have "calm x" using Cons.prems by simp
  then show ?case
  proof (cases x rule: calm_cases)
    case (1 w)
    let ?c3 = "c\<lparr>cn_reads := xs, cn_messages_to_skip := length ys\<rparr>"
    have "conn_read True c = conn_read True ?c3"
      using conn_read_reply [of c w xs True] Cons.prems x 1 by simp
    moreover have "replies_of (cn_reads ?c3) = ys @ v # rest" using Cons.prems x 1 by simp
    ultimately show ?thesis using Cons.IH [of ?c3] Cons.prems x by simp
  next
    case (2 e)
    with Cons.prems x show ?thesis
      using conn_read_timeout [of c e xs] by (auto intro!: exI [of _ "y # ys @ [v]"])
  qed
qed

lemma read_reply_calm:
  assumes r: "conn_read True c = (r, c')" "\<forall>v. r = Inr v \<longrightarrow> \<not> is_push v"
  shows "read_reply c = (r, c')"
proof (cases r)
  case (Inr v)
  with r(2) show ?thesis by (subst read_reply.simps, cases v) (simp_all add: r(1) is_push_def)
qed (subst read_reply.simps, simp add: r(1))


definition fresh_connection :: "Value redis_result list \<Rightarrow> Connection" where
  "fresh_connection rs =
     \<lparr>cn_reads = rs, cn_write_errs = [], cn_sent = [], cn_open = True, cn_pubsub = False,
      cn_protocol = RESP2, cn_push_sender = False, cn_pushed = [], cn_messages_to_skip = 0, cn_db = 0\<rparr>"


section \<open>Pipelines and transactions\<close>

lemma conn_read_ok:
  assumes "cn_reads c = Inr w # xs" and "cn_messages_to_skip c = 0"
  shows "\<exists>c'. conn_read b c = (Inr w, c') \<and> cn_reads c' = xs \<and> cn_messages_to_skip c' = 0"
  using conn_read_Cons [OF assms(1), of b] assms(2) by (simp add: is_message_def)

abbreviation no_push :: "Value list \<Rightarrow> Value list" where
  "no_push vs \<equiv> filter (\<lambda>v. \<not> is_push v) vs"

definition loop_result :: "Value list \<Rightarrow> RedisError option \<Rightarrow> (nat \<times> ServerError) list \<Rightarrow> Value list redis_result" where
  "loop_result rv first_err server_errs =
     (if server_errs \<noteq> [] then Inl (TransactionAborted server_errs)
      else (case first_err of None \<Rightarrow> Inr rv | Some e \<Rightarrow> Inl e))"

lemma replies_loop_done:
  "\<not> idx < offset + cnt \<Longrightarrow> replies_loop offset cnt idx rv fe se c = Ret (loop_result rv fe se, c)"
  by (subst replies_loop.simps) (simp add: loop_result_def)

lemma replies_loop_reply:
  assumes "conn_read True c = (Inr v, c')" and "idx < offset + cnt" and "offset \<le> idx" and "\<not> is_push v"
  shows "replies_loop offset cnt idx rv fe se c = replies_loop offset cnt (idx + 1) (rv @ [v]) fe se c'"
  using assms by (subst replies_loop.simps, cases v) (simp_all add: is_push_def)

lemma replies_loop_push:
  assumes "conn_read True c = (Inr v, c')" and "idx < offset + cnt" and "is_push v"
  shows "replies_loop offset cnt idx rv fe se c = replies_loop offset (cnt + 1) (idx + 1) rv fe se c'"
  using assms by (subst replies_loop.simps, cases v) (simp_all add: is_push_def)

lemma replies_loop_queued:
  assumes "conn_read True c = (Inr v, c')" and "0 < idx" and "idx < offset" and "\<not> is_push v"
  shows "replies_loop offset cnt idx rv fe se c =
     replies_loop offset cnt (idx + 1) rv fe
       (case v of VServerError e \<Rightarrow> se @ [(idx - 1, e)] | _ \<Rightarrow> se) c'"
  using assms by (subst replies_loop.simps, cases v) (simp_all add: is_push_def)

lemma replies_loop_multi:
  assumes "conn_read True c = (Inr v, c')" and "0 < offset" and "\<not> is_push v" and "\<nexists>e. v = VServerError e"
  shows "replies_loop offset cnt 0 rv fe se c = replies_loop offset cnt 1 rv fe se c'"
  using assms by (subst replies_loop.simps, cases v) (simp_all add: is_push_def)

lemma replies_loop_replies:
  assumes "cn_reads c = map Inr msgs @ rest" and "cn_messages_to_skip c = 0" and "offset \<le> idx"
    and "idx + length (no_push msgs) = offset + cnt" and "msgs = [] \<or> \<not> is_push (last msgs)"
  shows "\<exists>c'. replies_loop offset cnt idx rv fe se c = Ret (loop_result (rv @ no_push msgs) fe se, c') \<and>
              cn_reads c' = rest \<and> cn_messages_to_skip c' = 0"
  using assms
proof (induction msgs arbitrary: c cnt idx rv)
  case Nil
  then show ?case by (simp add: replies_loop_done)
next
  case (Cons v msgs)
  then obtain c1 where c1: "conn_read True c = (Inr v, c1)" "cn_reads c1 = map Inr msgs @ rest"
      "cn_messages_to_skip c1 = 0"
    using conn_read_ok [of c v "map Inr msgs @ rest" True] by auto
  show ?case
  proof (cases "is_push v")
    case True
    then have "msgs \<noteq> []" using Cons.prems(5) by auto
    then have l: "\<not> is_push (last msgs)" "last msgs \<in> set msgs" using Cons.prems(5) by simp_all
    then have "last msgs \<in> set (no_push msgs)" by simp
    then have "no_push msgs \<noteq> []" by force
    with \<open>msgs \<noteq> []\<close> l show ?thesis
      using replies_loop_push [OF c1(1) _ True, of idx offset cnt] True Cons.prems
        Cons.IH [OF c1(2,3), of "idx + 1" "cnt + 1" rv] by (cases "no_push msgs") simp_all
  next
    case False
    have "msgs = [] \<or> \<not> is_push (last msgs)" using Cons.prems(5) by auto
    then show ?thesis
      using replies_loop_reply [OF c1(1) _ _ False, of idx offset cnt rv] False Cons.prems
        Cons.IH [OF c1(2,3), of "idx + 1" cnt "rv @ [v]"] by simp
  qed
qed

lemma indexed_errors_Cons:
  "indexed_errors (v # vs) =
     (case v of VServerError e \<Rightarrow> [(0, e)] | _ \<Rightarrow> []) @ map (\<lambda>(i, e). (Suc i, e)) (indexed_errors vs)"
proof -
  have "List.map_filter (\<lambda>(i, v). case v of VServerError e \<Rightarrow> Some (i, e) | _ \<Rightarrow> None) (enumerate (Suc n) xs) =
        map (\<lambda>(i, e). (Suc i, e))
          (List.map_filter (\<lambda>(i, v). case v of VServerError e \<Rightarrow> Some (i, e) | _ \<Rightarrow> None) (enumerate n xs))"
    for n and xs :: "Value list"
    by (induction xs arbitrary: n) (auto simp: map_filter_simps split: Value.split)
  from this [of 0 vs] show ?thesis
    by (cases v) (simp_all add: indexed_errors_def map_filter_simps)
qed

lemma replies_loop_queue:
  assumes "cn_reads c = map Inr qs @ rest" and "cn_messages_to_skip c = 0" and "0 < idx"
    and "idx + length qs = offset" and "\<forall>q \<in> set qs. \<not> is_push q"
  shows "\<exists>c'. replies_loop offset cnt idx rv fe se c =
           replies_loop offset cnt offset rv fe (se @ map (\<lambda>(i, e). (i + (idx - 1), e)) (indexed_errors qs)) c' \<and>
           cn_reads c' = rest \<and> cn_messages_to_skip c' = 0"
  using assms
proof (induction qs arbitrary: c idx se)
  case Nil
  then show ?case by (auto simp: indexed_errors_def map_filter_simps)
next
  case (Cons q qs)
  then obtain c1 where c1: "conn_read True c = (Inr q, c1)" "cn_reads c1 = map Inr qs @ rest"
      "cn_messages_to_skip c1 = 0"
    using conn_read_ok [of c q "map Inr qs @ rest" True] by auto
  let ?se = "case q of VServerError e \<Rightarrow> se @ [(idx - 1, e)] | _ \<Rightarrow> se"
  have "replies_loop offset cnt idx rv fe se c = replies_loop offset cnt (idx + 1) rv fe ?se c1"
    using replies_loop_queued [OF c1(1)] Cons.prems by simp
  moreover have "?se @ map (\<lambda>(i, e). (i + idx, e)) (indexed_errors qs) =
      se @ map (\<lambda>(i, e). (i + (idx - 1), e)) (indexed_errors (q # qs))"
    using Cons.prems(3)
    by (cases q) (auto simp: indexed_errors_Cons)
  moreover obtain c' where "replies_loop offset cnt (idx + 1) rv fe ?se c1 =
      replies_loop offset cnt offset rv fe (?se @ map (\<lambda>(i, e). (i + idx, e)) (indexed_errors qs)) c'"
      "cn_reads c' = rest" "cn_messages_to_skip c' = 0"
    using Cons.IH [OF c1(2,3), of "idx + 1" ?se] Cons.prems by auto
  ultimately show ?case by (intro exI [of _ c']) (simp del: append_assoc)
qed

lemma send_bytes_ok:
  assumes "bs \<noteq> []" and "cn_write_errs c = []"
  shows "send_bytes bs c = (Inr Okay, c\<lparr>cn_sent := cn_sent c @ [bs]\<rparr>)"
  using assms by (simp add: send_bytes_def actual_send_bytes_def)

text \<open>On a connection that is not in publish/subscribe state and whose writes succeed, a pipeline
  receives as results exactly the replies that are not push messages, in order, however many push
  messages the server sends in between, and leaves the rest of the stream for the next request.\<close>

theorem pipeline_replies_skip_pushes:
  assumes "cn_reads c = map Inr msgs @ rest" and "cn_messages_to_skip c = 0" and "\<not> cn_pubsub c"
    and "cn_write_errs c = []" and "bs \<noteq> []" and "length (no_push msgs) = n"
    and "msgs = [] \<or> \<not> is_push (last msgs)"
  shows "\<exists>c'. req_packed_commands itoa bs 0 n c = Ret (Inr (no_push msgs), c') \<and>
              cn_reads c' = rest \<and> cn_messages_to_skip c' = 0"
proof -
  let ?c1 = "c\<lparr>cn_sent := cn_sent c @ [bs]\<rparr>"
  have "req_packed_commands itoa bs 0 n c = replies_loop 0 n 0 [] None [] ?c1"
    using assms by (simp add: req_packed_commands_def leave_pubsub_def send_bytes_ok)
  then show ?thesis
    using replies_loop_replies [of ?c1 msgs rest 0 0 n "[]" None "[]"] assms
    by (simp add: loop_result_def)
qed

lemma replies_after_skipped:
  assumes "cn_reads c = map Inr (multi # qs @ xs) @ rest" and "cn_messages_to_skip c = 0"
    and "\<not> cn_pubsub c" and "cn_write_errs c = []" and "bs \<noteq> []"
    and "\<forall>v \<in> set (multi # qs @ xs). \<not> is_push v" and "\<nexists>e. multi = VServerError e"
  shows "\<exists>c'. req_packed_commands itoa bs (length qs + 1) (length xs) c =
           Ret (if indexed_errors qs = [] then Inr xs else Inl (TransactionAborted (indexed_errors qs)), c') \<and>
           cn_reads c' = rest \<and> cn_messages_to_skip c' = 0"
proof -
  let ?c1 = "c\<lparr>cn_sent := cn_sent c @ [bs]\<rparr>" and ?n = "length xs" and ?o = "length qs + 1"
  obtain c2 where c2: "conn_read True ?c1 = (Inr multi, c2)" "cn_reads c2 = map Inr qs @ (map Inr xs @ rest)"
      "cn_messages_to_skip c2 = 0"
    using conn_read_ok [of ?c1 multi "map Inr (qs @ xs) @ rest" True] assms by auto
  obtain c3 where c3: "replies_loop ?o ?n 1 [] None [] c2 = replies_loop ?o ?n ?o [] None (indexed_errors qs) c3"
      "cn_reads c3 = map Inr xs @ rest" "cn_messages_to_skip c3 = 0"
    using replies_loop_queue [OF c2(2,3), of 1 ?o ?n "[]" None "[]"] assms(6) by auto
  have "no_push xs = xs" "xs = [] \<or> \<not> is_push (last xs)" using assms(6) by auto
  then obtain c4 where "replies_loop ?o ?n ?o [] None (indexed_errors qs) c3 =
        Ret (loop_result xs None (indexed_errors qs), c4)" "cn_reads c4 = rest" "cn_messages_to_skip c4 = 0"
    using replies_loop_replies [of c3 xs rest ?o ?o ?n "[]" None] c3(2,3) by auto
  moreover have "req_packed_commands itoa bs ?o ?n c = replies_loop ?o ?n 0 [] None [] ?c1"
    using assms by (simp add: req_packed_commands_def leave_pubsub_def send_bytes_ok)
  moreover have "\<dots> = replies_loop ?o ?n 1 [] None [] c2"
    using replies_loop_multi [OF c2(1)] assms(6,7) by simp
  ultimately show ?thesis using c3(1) by (simp add: loop_result_def)
qed

lemma transaction_replies:
  assumes "cn_reads c = map Inr (multi # qs @ [ex]) @ rest" and "cn_messages_to_skip c = 0"
    and "\<not> cn_pubsub c" and "cn_write_errs c = []" and "bs \<noteq> []"
    and "\<forall>v \<in> set (multi # qs @ [ex]). \<not> is_push v" and "\<nexists>e. multi = VServerError e"
  shows "\<exists>c'. req_packed_commands itoa bs (length qs + 1) 1 c =
           Ret (if indexed_errors qs = [] then Inr [ex] else Inl (TransactionAborted (indexed_errors qs)), c') \<and>
           cn_reads c' = rest \<and> cn_messages_to_skip c' = 0"
  using replies_after_skipped [OF assms] by simp

text \<open>C17.  An atomic pipeline of \<open>n\<close> commands over a connection without push messages: the server
  answers MULTI, the \<open>n\<close> queued commands and EXEC.  If a command was refused when it was queued,
  the result is the aborted-transaction error that lists exactly the refused commands by their
  position in the pipeline.  Otherwise the result is made from the reply to EXEC alone: its items
  are the results of the commands, and nil means that the transaction did not run.\<close>

theorem transaction_query_result:
  assumes "itoa_ok itoa" and "\<forall>k \<in> set (commands p). wf_cmd k" and "transaction_mode p"
    and "length (commands p) = length qs"
    and "cn_reads c = map Inr (multi # qs @ [ex]) @ rest" and "cn_messages_to_skip c = 0"
    and "\<not> cn_pubsub c" and "cn_write_errs c = []"
    and "\<forall>v \<in> set (multi # qs @ [ex]). \<not> is_push v" and "\<nexists>e. multi = VServerError e"
  shows "\<exists>c'. pipeline_query itoa (connection_ops itoa) d p c =
           Ret (if \<exists>i < length qs. \<exists>e. qs ! i = VServerError e
                then Inl (TransactionAborted (indexed_errors qs))
                else (case ex of
                        VNil \<Rightarrow> from_redis_value d VNil
                      | VArray items \<Rightarrow> compose_response d p items
                      | _ \<Rightarrow> Inl (error_of UnexpectedReturnType ''Invalid response when parsing multi response'')), c') \<and>
           cn_reads c' = rest"
proof -
  obtain bs where bs: "encode_pipeline itoa (commands p) True = Ret bs" "bs \<noteq> []"
    using encode_pipeline_wf [OF assms(1,2), of True]
    by (simp add: pipeline_cmds_def resp_command_def)
  from transaction_replies [OF assms(5-8) bs(2) assms(9,10), of itoa] obtain c' where c':
    "req_packed_commands itoa bs (length qs + 1) 1 c =
       Ret (if indexed_errors qs = [] then Inr [ex] else Inl (TransactionAborted (indexed_errors qs)), c')"
    "cn_reads c' = rest" by blast
  have e: "(\<exists>i < length qs. \<exists>e. qs ! i = VServerError e) \<longleftrightarrow> indexed_errors qs \<noteq> []"
    by (simp add: indexed_errors_Nil_iff)
  show ?thesis
    unfolding e using c' bs(1) assms(3,4)
    by (cases ex) (auto simp: pipeline_query_def connection_ops_def complete_request_def is_transaction_def)
qed

theorem transaction_query_result_witness:
  "\<exists>c'. pipeline_query show_int (connection_ops show_int) from_value (atomic (pipeline_cmd pipeline_new ''PING''))
          (fresh_connection [Inr Okay, Inr (SimpleString ''QUEUED''), Inr (VArray [SimpleString ''PONG''])]) =
        Ret (Inr (VArray [SimpleString ''PONG'']), c') \<and> cn_reads c' = []"
proof -
  let ?p = "atomic (pipeline_cmd pipeline_new ''PING'')"
  have p: "commands ?p = [cmd ''PING'']" "transaction_mode ?p" "\<not> ignore_errors ?p" "ignored_commands ?p = {}"
    by (simp_all add: atomic_def pipeline_cmd_def add_command_def pipeline_new_def pipeline_with_capacity_def)
  show ?thesis
    using transaction_query_result [OF itoa_ok_show_int, of ?p "[SimpleString ''QUEUED'']"
        "fresh_connection [Inr Okay, Inr (SimpleString ''QUEUED''), Inr (VArray [SimpleString ''PONG''])]"
        Okay "VArray [SimpleString ''PONG'']" "[]" from_value]
    by (simp add: p fresh_connection_def is_push_def compose_response_def indexed_errors_def
        map_filter_simps filter_ignored_results_def from_redis_value_def from_value_def from_redis_impl_def)
qed

text \<open>When the server refuses MULTI itself, counting the refused command at position
  \<^verbatim>\<open>idx - 1\<close> underflows at the first reply, so an atomic pipeline panics (in a build with overflow
  checks) instead of returning the server's error.\<close>

theorem refused_multi_underflows:
  assumes "cn_reads c = Inr (VServerError e) # rest" and "cn_messages_to_skip c = 0"
    and "\<not> cn_pubsub c" and "cn_write_errs c = []" and "bs \<noteq> []"
  shows "req_packed_commands itoa bs (n + 1) 1 c = Panic"
proof -
  let ?c1 = "c\<lparr>cn_sent := cn_sent c @ [bs]\<rparr>"
  obtain c2 where "conn_read True ?c1 = (Inr (VServerError e), c2)"
    using conn_read_ok [of ?c1 "VServerError e" rest True] assms by auto
  then have "replies_loop (n + 1) 1 0 [] None [] ?c1 = Panic"
    by (subst replies_loop.simps) simp
  then show ?thesis
    using assms by (simp add: req_packed_commands_def leave_pubsub_def send_bytes_ok)
qed

text \<open>C22.  The counter of stale replies counts push messages as replies.  If a request times out and
  the server then sends a push message before the late reply, the push message uses up the
  counter and the next request is answered with the late reply of the request that timed out.\<close>

theorem push_after_timeout_shifts_replies:
  assumes "cn_reads c = Inl e # Inr (VPush kind data) # Inr r1 # Inr r2 # rest"
    and "is_timeout_read (Inl e)" and "\<not> is_push r1" and "cn_messages_to_skip c = 0"
  shows "requests 2 c = [Inl e, Inr r1]"
proof -
  let ?c1 = "c\<lparr>cn_reads := Inr (VPush kind data) # Inr r1 # Inr r2 # rest, cn_messages_to_skip := Suc 0\<rparr>"
  let ?c2 = "try_send (Inr (VPush kind data)) (?c1\<lparr>cn_reads := Inr r1 # Inr r2 # rest\<rparr>)\<lparr>cn_messages_to_skip := 0\<rparr>"
  have 1: "read_reply c = (Inl e, ?c1)"
    using conn_read_timeout [OF assms(1,2)] assms(4) by (intro read_reply_calm) auto
  have "conn_read True ?c1 = conn_read True ?c2"
    using conn_read_Cons [of ?c1 "Inr (VPush kind data)" "Inr r1 # Inr r2 # rest" True]
    by (simp add: is_message_def)
  also have "\<dots> = (Inr r1, ?c2\<lparr>cn_reads := Inr r2 # rest\<rparr>)"
    using conn_read_reply [of ?c2 r1 "Inr r2 # rest" True] assms(3) by simp
  finally have 2: "read_reply ?c1 = (Inr r1, ?c2\<lparr>cn_reads := Inr r2 # rest\<rparr>)"
    using assms(3) by (intro read_reply_calm) auto
  show ?thesis by (simp add: numeral_2_eq_2 1 2)
qed

theorem push_after_timeout_shifts_replies_witness:
  "requests 2 (fresh_connection [Inl (io_error TimedOut), Inr (VPush Invalidate []), Inr (VInt 1), Inr (VInt 2)]) =
     [Inl (io_error TimedOut), Inr (VInt 1)]"
  using push_after_timeout_shifts_replies
    [of "fresh_connection [Inl (io_error TimedOut), Inr (VPush Invalidate []), Inr (VInt 1), Inr (VInt 2)]"
      "io_error TimedOut" Invalidate "[]" "VInt 1" "VInt 2" "[]"]
  by (simp add: fresh_connection_def is_timeout_read_def is_push_def io_error_def as_io_error_def)

section \<open>Connection setup\<close>

lemma commands_add_command [simp]: "commands (add_command p k) = commands p @ [k]"
  by (simp add: add_command_def)

lemma commands_ignore [simp]: "commands (ignore p) = commands p"
  by (simp add: ignore_def Let_def)

lemma commands_pipeline_new [simp]: "commands pipeline_new = []"
  by (simp add: pipeline_new_def pipeline_with_capacity_def)

text \<open>The pipeline is built in four stages, each of which appends to the commands before it.\<close>

lemma connection_setup_pipeline_stages:
  assumes "connection_setup_pipeline itoa ver info check_username cache = (p, comps)"
  shows "\<exists>setinfo. commands p =
           (if ci_protocol info = RESP3 then [resp3_hello info]
            else case ci_password info of None \<Rightarrow> []
                 | Some pw \<Rightarrow> [authenticate_cmd (if check_username then ci_username info else None) pw]) @
           (if ci_db info = 0 then [] else [cmd_write_arg (cmd ''SELECT'') (itoa (ci_db info))]) @
           (case cache of None \<Rightarrow> []
            | Some mode \<Rightarrow>
                [if mode = OptIn
                 then cmd_write_arg (cmd_write_arg (cmd_write_arg (cmd ''CLIENT'') ''TRACKING'') ''ON'') ''OPTIN''
                 else cmd_write_arg (cmd_write_arg (cmd ''CLIENT'') ''TRACKING'') ''ON'']) @
           setinfo"
    and "resp3_auth_cmd_idx comps = (if ci_protocol info = RESP3 then Some 0 else None)"
    and "resp2_auth_cmd_idx comps =
           (if ci_protocol info \<noteq> RESP3 \<and> ci_password info \<noteq> None then Some 0 else None)"
    and "select_cmd_idx comps =
           (if ci_db info = 0 then None
            else Some (if ci_protocol info = RESP3 \<or> ci_password info \<noteq> None then 1 else 0))"
    and "cache_cmd_idx comps =
           (if cache = None then None
            else Some ((if ci_protocol info = RESP3 \<or> ci_password info \<noteq> None then 1 else 0) +
                       (if ci_db info = 0 then 0 else 1)))"
proof -
  let ?auth = "if supports_resp3 (ci_protocol info)
             then (add_command pipeline_new (resp3_hello info), Some (0::nat), None)
             else (case ci_password info of
                     Some password \<Rightarrow>
                       (add_command pipeline_new
                          (authenticate_cmd (if check_username then ci_username info else None) password),
                        None, Some (0::nat))
                   | None \<Rightarrow> (pipeline_new, None, None))"
  obtain p1 i3 i2 where st1: "?auth = (p1, i3, i2)" by (rule prod_cases3)
  have 1: "commands p1 = (if ci_protocol info = RESP3 then [resp3_hello info]
            else case ci_password info of None \<Rightarrow> []
                 | Some pw \<Rightarrow> [authenticate_cmd (if check_username then ci_username info else None) pw])"
      "i3 = (if ci_protocol info = RESP3 then Some 0 else None)"
      "i2 = (if ci_protocol info \<noteq> RESP3 \<and> ci_password info \<noteq> None then Some 0 else None)"
    using st1 by (cases "ci_protocol info"; cases "ci_password info"; auto simp: supports_resp3_def)+
  have len1: "length (commands p1) = (if ci_protocol info = RESP3 \<or> ci_password info \<noteq> None then 1 else 0)"
    unfolding 1 by (cases "ci_password info") auto
  note sel = assms [unfolded connection_setup_pipeline_def, unfolded st1 Let_def prod.case]
  show "\<exists>setinfo. commands p =
           (if ci_protocol info = RESP3 then [resp3_hello info]
            else case ci_password info of None \<Rightarrow> []
                 | Some pw \<Rightarrow> [authenticate_cmd (if check_username then ci_username info else None) pw]) @
           (if ci_db info = 0 then [] else [cmd_write_arg (cmd ''SELECT'') (itoa (ci_db info))]) @
           (case cache of None \<Rightarrow> []
            | Some mode \<Rightarrow>
                [if mode = OptIn
                 then cmd_write_arg (cmd_write_arg (cmd_write_arg (cmd ''CLIENT'') ''TRACKING'') ''ON'') ''OPTIN''
                 else cmd_write_arg (cmd_write_arg (cmd ''CLIENT'') ''TRACKING'') ''ON'']) @
           setinfo"
    using sel unfolding 1(1) [symmetric]
    by (cases "ci_db info = 0"; cases "ci_skip_set_lib_name info"; cases cache; cases "the cache") auto
  show "resp3_auth_cmd_idx comps = (if ci_protocol info = RESP3 then Some 0 else None)"
    "resp2_auth_cmd_idx comps = (if ci_protocol info \<noteq> RESP3 \<and> ci_password info \<noteq> None then Some 0 else None)"
    using sel unfolding 1 [symmetric] by (auto split: prod.splits)
  show "select_cmd_idx comps =
           (if ci_db info = 0 then None
            else Some (if ci_protocol info = RESP3 \<or> ci_password info \<noteq> None then 1 else 0))"
    using sel unfolding len1 [symmetric] by (auto simp: pipeline_len_def split: prod.splits)
  show "cache_cmd_idx comps =
           (if cache = None then None
            else Some ((if ci_protocol info = RESP3 \<or> ci_password info \<noteq> None then 1 else 0) +
                       (if ci_db info = 0 then 0 else 1)))"
    using sel unfolding len1 [symmetric]
    by (cases "ci_db info = 0"; cases cache) (auto simp: pipeline_len_def)
qed

lemma wire_args_built:
  "cmd_wire_args (cmd a) = [a]"
  "cmd_wire_args (cmd_write_arg (cmd a) b) = [a, b]"
  "cmd_wire_args (cmd_write_arg (cmd_write_arg (cmd a) b) c) = [a, b, c]"
  "cmd_wire_args (cmd_write_arg (cmd_write_arg (cmd_write_arg (cmd a) b) c) d) = [a, b, c, d]"
  by (simp_all add: cmd_wire_args_def wf_cmd_write_arg cmd_args_of_write_arg)

text \<open>The setup pipeline and the positions recorded for checking its replies fit together: the
  recorded authentication, SELECT and CLIENT TRACKING positions hold exactly these commands, a
  position is recorded whenever the setting asks for it, HELLO and AUTH are never both sent, and
  so the check of the replies never fails its assertion.\<close>

theorem setup_positions_point_at_commands:
  assumes "connection_setup_pipeline itoa ver info check_username cache = (p, comps)"
  shows "(\<forall>i. resp3_auth_cmd_idx comps = Some i \<longrightarrow> get_idx (commands p) i = Some (resp3_hello info)) \<and>
         (resp3_auth_cmd_idx comps \<noteq> None \<longleftrightarrow> ci_protocol info = RESP3) \<and>
         (\<forall>i. resp2_auth_cmd_idx comps = Some i \<longrightarrow>
            (\<exists>pw. ci_password info = Some pw \<and> get_idx (commands p) i =
               Some (authenticate_cmd (if check_username then ci_username info else None) pw))) \<and>
         (resp2_auth_cmd_idx comps \<noteq> None \<longleftrightarrow> ci_protocol info = RESP2 \<and> ci_password info \<noteq> None) \<and>
         (\<forall>i. select_cmd_idx comps = Some i \<longrightarrow>
            map_option cmd_wire_args (get_idx (commands p) i) = Some [''SELECT'', itoa (ci_db info)]) \<and>
         (select_cmd_idx comps \<noteq> None \<longleftrightarrow> ci_db info \<noteq> 0) \<and>
         (\<forall>i. cache_cmd_idx comps = Some i \<longrightarrow>
            map_option cmd_wire_args (get_idx (commands p) i) =
              Some ([''CLIENT'', ''TRACKING'', ''ON''] @ (if cache = Some OptIn then [''OPTIN''] else []))) \<and>
         (cache_cmd_idx comps \<noteq> None \<longleftrightarrow> cache \<noteq> None) \<and>
         check_connection_setup results comps \<noteq> Panic"
proof -
  note st = connection_setup_pipeline_stages [OF assms]
  obtain setinfo where cmds: "commands p =
      (if ci_protocol info = RESP3 then [resp3_hello info]
            else case ci_password info of None \<Rightarrow> []
                 | Some pw \<Rightarrow> [authenticate_cmd (if check_username then ci_username info else None) pw]) @
      (if ci_db info = 0 then [] else [cmd_write_arg (cmd ''SELECT'') (itoa (ci_db info))]) @
      (case cache of None \<Rightarrow> []
       | Some mode \<Rightarrow>
           [if mode = OptIn
            then cmd_write_arg (cmd_write_arg (cmd_write_arg (cmd ''CLIENT'') ''TRACKING'') ''ON'') ''OPTIN''
            else cmd_write_arg (cmd_write_arg (cmd ''CLIENT'') ''TRACKING'') ''ON'']) @ setinfo"
    using st(1) by blast
  show ?thesis
    unfolding cmds st(2-) check_connection_setup_def
    by (cases "ci_protocol info"; cases "ci_password info"; cases "ci_db info = 0"; cases cache)
       (simp_all add: get_idx_append get_idx_def wire_args_built)
qed

end
