(* ===== verification/Slot_Range_Map.thy ===== *)
theory Slot_Range_Map
  imports Redis_Prelude
begin

text \<open>
  The map from slot ranges to values of \<^verbatim>\<open>cluster_handling/slot_range_map.rs\<close>, a \<^verbatim>\<open>BTreeMap\<close> from the
  end of a range to its start and value, kept here as the list of its entries in key order.  Three
  components look slots up in such a map: the slot map, the topology snapshot and the round robin
  counters.  What they rely on is the locale \<open>slot_lookup\<close>.
\<close>

type_synonym 'v slot_range_map = "(u16 \<times> u16 \<times> 'v) list"

section \<open>Operations\<close>

definition srm_new :: "'v slot_range_map" where
  "srm_new = []"

fun srm_insert :: "u16 \<Rightarrow> u16 \<Rightarrow> 'v \<Rightarrow> 'v slot_range_map \<Rightarrow> 'v slot_range_map" where
  "srm_insert start end' value [] = [(end', start, value)]"
| "srm_insert start end' value ((e, s, v) # m) =
     (if end' < e then (end', start, value) # (e, s, v) # m
      else if end' = e then (end', start, value) # m
      else (e, s, v) # srm_insert start end' value m)"

definition srm_get :: "'v slot_range_map \<Rightarrow> u16 \<Rightarrow> 'v option" where
  "srm_get m slot =
     (case List.find (\<lambda>(e, _, _). slot \<le> e) m of
        None \<Rightarrow> None
      | Some (e, start, v) \<Rightarrow> (if start \<le> slot then Some v else None))"

definition srm_values :: "'v slot_range_map \<Rightarrow> 'v list" where
  "srm_values m = map (\<lambda>(_, _, v). v) m"

definition srm_iter :: "'v slot_range_map \<Rightarrow> (u16 \<times> u16 \<times> 'v) list" where
  "srm_iter m = map (\<lambda>(e, s, v). (s, e, v)) m"

definition srm_clear :: "'v slot_range_map \<Rightarrow> 'v slot_range_map" where
  "srm_clear m = []"

section \<open>Disjoint ranges\<close>

definition apart :: "u16 \<times> u16 \<times> 'v \<Rightarrow> u16 \<times> u16 \<times> 'v \<Rightarrow> bool" where
  "apart r r' \<longleftrightarrow> fst (snd r) < fst r' \<or> fst (snd r') < fst r"

lemma apart_simp [simp]: "apart (s, e, v) (s', e', v') \<longleftrightarrow> e < s' \<or> e' < s"
  by (simp add: apart_def)

fun disjoint_ranges :: "(u16 \<times> u16 \<times> 'v) list \<Rightarrow> bool" where
  "disjoint_ranges [] \<longleftrightarrow> True"
| "disjoint_ranges (r # rs) \<longleftrightarrow> fst r \<le> fst (snd r) \<and> list_all (apart r) rs \<and> disjoint_ranges rs"

lemma apart_sym: "apart r r' \<Longrightarrow> apart r' r"
  by (auto simp: apart_def)

lemma disjoint_ranges_append:
  "disjoint_ranges (rs @ rs') \<longleftrightarrow>
     disjoint_ranges rs \<and> disjoint_ranges rs' \<and> (\<forall>r \<in> set rs. \<forall>r' \<in> set rs'. apart r r')"
  by (induction rs) (auto simp: list_all_iff)

lemma disjoint_ranges_iff_sorted_wrt:
  "disjoint_ranges rs \<longleftrightarrow> sorted_wrt apart rs \<and> (\<forall>r \<in> set rs. fst r \<le> fst (snd r))"
  by (induction rs) (auto simp: list_all_iff)

section \<open>The interface of the lookup\<close>

locale slot_lookup =
  fixes empty :: 'm and insert' :: "u16 \<Rightarrow> u16 \<Rightarrow> 'v \<Rightarrow> 'm \<Rightarrow> 'm" and get :: "'m \<Rightarrow> u16 \<Rightarrow> 'v option"
    and ranges :: "'m \<Rightarrow> (u16 \<times> u16 \<times> 'v) set" and inv :: "'m \<Rightarrow> bool"
  assumes empty_law: "inv empty \<and> ranges empty = {}"
    and insert_law: "inv m \<Longrightarrow> s \<le> e \<Longrightarrow> \<forall>r \<in> ranges m. apart (s, e, v) r \<Longrightarrow>
           inv (insert' s e v m) \<and> ranges (insert' s e v m) = insert (s, e, v) (ranges m)"
    and get_law: "inv m \<Longrightarrow> get m slot = Some v \<longleftrightarrow> (\<exists>s e. (s, e, v) \<in> ranges m \<and> s \<le> slot \<and> slot \<le> e)"
begin

lemma insert_all:
  assumes "inv m" and "disjoint_ranges rs" and "\<forall>r \<in> set rs. \<forall>r' \<in> ranges m. apart r r'"
  shows "inv (foldl (\<lambda>m (s, e, v). insert' s e v m) m rs) \<and>
         ranges (foldl (\<lambda>m (s, e, v). insert' s e v m) m rs) = ranges m \<union> set rs"
  using assms
proof (induction rs arbitrary: m)
  case (Cons r rs)
  obtain s e v where r: "r = (s, e, v)" by (cases r)
  have "inv (insert' s e v m)" "ranges (insert' s e v m) = insert (s, e, v) (ranges m)"
    using insert_law [of m s e v] Cons.prems by (auto simp: r)
  moreover have "\<forall>r \<in> set rs. apart r (s, e, v)" using Cons.prems(2) by (auto simp: r list_all_iff intro: apart_sym)
  ultimately show ?case
    using Cons.IH [of "insert' s e v m"] Cons.prems by (simp add: r)
qed simp

lemma get_from_empty:
  "disjoint_ranges rs \<Longrightarrow>
     get (foldl (\<lambda>m (s, e, v). insert' s e v m) empty rs) slot = Some v \<longleftrightarrow>
     (\<exists>s e. (s, e, v) \<in> set rs \<and> s \<le> slot \<and> slot \<le> e)"
  using insert_all [of empty rs] empty_law by (simp add: get_law)

lemma inv_from_empty:
  "disjoint_ranges rs \<Longrightarrow>
     inv (foldl (\<lambda>m (s, e, v). insert' s e v m) empty rs) \<and>
     ranges (foldl (\<lambda>m (s, e, v). insert' s e v m) empty rs) = set rs"
  using insert_all [of empty rs] empty_law by simp

end

section \<open>The map implements the interface\<close>

definition srm_ok :: "'v slot_range_map \<Rightarrow> bool" where
  "srm_ok m \<longleftrightarrow> sorted_wrt (\<lambda>(e, _, _) (_, s', _). e < s') m \<and> (\<forall>(e, s, _) \<in> set m. s \<le> e)"

lemma set_srm_insert_apart:
  "srm_ok m \<Longrightarrow> start \<le> end' \<Longrightarrow> \<forall>(e, s, v) \<in> set m. apart (start, end', value) (s, e, v) \<Longrightarrow>
     srm_ok (srm_insert start end' value m) \<and>
     set (srm_insert start end' value m) = insert (end', start, value) (set m)"
proof (induction start end' "value" m rule: srm_insert.induct)
  case (2 start end' val e s v m)
  have ok: "srm_ok m" "s \<le> e" "\<forall>(e', s', _) \<in> set m. e < s'" "\<forall>(e', s', _) \<in> set m. s' \<le> e'"
    using 2(2) by (auto simp: srm_ok_def)
  have a: "end' < s \<or> e < start" using 2(4) by simp
  show ?case
  proof (cases "end' < e")
    case True
    then have lt: "end' < s" using a 2(3) by auto
    have "end' < s'" if "(e', s', v') \<in> set m" for e' s' v'
      using ok(2,3) that lt by fastforce
    then show ?thesis using True 2(2,3) lt by (auto simp: srm_ok_def)
  next
    case False
    then have gt: "e < start" using a ok(2) by auto
    then have ne: "end' \<noteq> e" using 2(3) by auto
    have IH: "srm_ok (srm_insert start end' val m)"
        "set (srm_insert start end' val m) = insert (end', start, val) (set m)"
      using 2(1) [OF False ne ok(1) 2(3)] 2(4) by auto
    then show ?thesis using False ne gt ok by (auto simp: srm_ok_def)
  qed
qed (simp add: srm_ok_def)

lemma srm_get_iff:
  "srm_ok m \<Longrightarrow> srm_get m slot = Some v \<longleftrightarrow> (\<exists>s e. (e, s, v) \<in> set m \<and> s \<le> slot \<and> slot \<le> e)"
proof (induction m)
  case (Cons x m)
  obtain e s v' where x: "x = (e, s, v')" by (cases x)
  have later: "e < s' \<and> s' \<le> e'" if "(e', s', w) \<in> set m" for e' s' w
    using Cons.prems that by (auto simp: srm_ok_def x)
  show ?case
  proof (cases "slot \<le> e")
    case True
    then have "\<not> s' \<le> slot" if "(e', s', w) \<in> set m" for e' s' w
      using later [OF that] by auto
    then show ?thesis using True by (auto simp: srm_get_def x)
  next
    case False
    then have "srm_get (x # m) slot = srm_get m slot" by (simp add: srm_get_def x)
    then show ?thesis using Cons False by (auto simp: srm_ok_def x)
  qed
qed (simp add: srm_get_def)

lemma set_srm_iter: "set (srm_iter m) = {(s, e, v). (e, s, v) \<in> set m}"
  by (force simp: srm_iter_def)

interpretation srm: slot_lookup srm_new srm_insert srm_get "\<lambda>m. set (srm_iter m)" srm_ok
proof
  show "srm_ok srm_new \<and> set (srm_iter srm_new) = {}" by (simp add: srm_new_def srm_ok_def srm_iter_def)
next
  fix m :: "'a slot_range_map" and s e v
  assume "srm_ok m" "s \<le> e" and a: "\<forall>r \<in> set (srm_iter m). apart (s, e, v) r"
  moreover have "\<forall>(e', s', v') \<in> set m. apart (s, e, v) (s', e', v')"
    using a by (auto simp: set_srm_iter)
  ultimately have "srm_ok (srm_insert s e v m)" "set (srm_insert s e v m) = insert (e, s, v) (set m)"
    using set_srm_insert_apart [of m s e v] by blast+
  then show "srm_ok (srm_insert s e v m) \<and> set (srm_iter (srm_insert s e v m)) = insert (s, e, v) (set (srm_iter m))"
    by (auto simp: set_srm_iter)
next
  fix m :: "'a slot_range_map" and slot v
  assume "srm_ok m"
  then show "srm_get m slot = Some v \<longleftrightarrow> (\<exists>s e. (s, e, v) \<in> set (srm_iter m) \<and> s \<le> slot \<and> slot \<le> e)"
    by (simp add: srm_get_iff set_srm_iter)
qed

lemma srm_iter_disjoint: "srm_ok m \<Longrightarrow> disjoint_ranges (srm_iter m)"
  by (induction m) (auto simp: srm_ok_def srm_iter_def list_all_iff)

lemma srm_values_iter: "srm_values m = map (\<lambda>(_, _, v). v) (srm_iter m)"
  by (simp add: srm_values_def srm_iter_def comp_def case_prod_beta)

end
