(* ===== verification/Command_Properties.thy ===== *)
theory Command_Properties
  imports Redis_Prelude
begin

text \<open>
  The table of command properties of \<^verbatim>\<open>commands/mod.rs\<close>: which commands only read, and which of
  these have replies that a client side cache may keep.  Names are upper case, with the second
  word of a two word command after a space.
\<close>

datatype Properties = ReadOnlyCacheable | ReadOnly | Neither

definition cacheable_commands :: "bytes list" where
  "cacheable_commands =
     [''BITCOUNT'', ''BITFIELD_RO'', ''BITPOS'', ''DUMP'', ''EXISTS'', ''GEODIST'',
      ''GEOHASH'', ''GEOPOS'', ''GET'', ''GETBIT'', ''GETRANGE'', ''HEXISTS'', ''HGET'',
      ''HGETALL'', ''HKEYS'', ''HLEN'', ''HMGET'', ''HSTRLEN'', ''HVALS'', ''JSON.ARRINDEX'',
      ''JSON.ARRLEN'', ''JSON.GET'', ''JSON.OBJLEN'', ''JSON.OBJKEYS'', ''JSON.MGET'',
      ''JSON.RESP'', ''JSON.STRLEN'', ''JSON.TYPE'', ''LCS'', ''LINDEX'', ''LLEN'', ''LPOS'',
      ''LRANGE'', ''MGET'', ''SCARD'', ''SDIFF'', ''SINTER'', ''SINTERCARD'', ''SISMEMBER'',
      ''SMEMBERS'', ''SMISMEMBER'', ''STRLEN'', ''SUBSTR'', ''SUNION'', ''TYPE'', ''ZCARD'',
      ''ZCOUNT'', ''ZDIFF'', ''ZINTER'', ''ZINTERCARD'', ''ZLEXCOUNT'', ''ZMSCORE'',
      ''ZRANGE'', ''ZRANGEBYLEX'', ''ZRANGEBYSCORE'', ''ZRANK'', ''ZREVRANGE'',
      ''ZREVRANGEBYLEX'', ''ZREVRANGEBYSCORE'', ''ZREVRANK'', ''ZSCORE'', ''ZUNION'']"

definition readonly_commands :: "bytes list" where
  "readonly_commands =
     [''ACL CAT'', ''ACL DELUSER'', ''ACL DRYRUN'', ''ACL GENPASS'', ''ACL GETUSER'',
      ''ACL HELP'', ''ACL LIST'', ''ACL LOAD'', ''ACL LOG'', ''ACL SAVE'', ''ACL SETUSER'',
      ''ACL USERS'', ''ACL WHOAMI'', ''AUTH'', ''BF.CARD'', ''BF.EXISTS'', ''BF.INFO'',
      ''BF.MEXISTS'', ''BF.SCANDUMP'', ''BGREWRITEAOF'', ''BGSAVE'', ''PFCOUNT'',
      ''CLIENT ID'', ''CLIENT CACHING'', ''CLIENT CAPA'', ''CLIENT GETNAME'',
      ''CLIENT GETREDIR'', ''CLIENT HELP'', ''CLIENT INFO'', ''CLIENT KILL'',
      ''CLIENT LIST'', ''CLIENT NO-EVICT'', ''CLIENT NO-TOUCH'', ''CLIENT PAUSE'',
      ''CLIENT REPLY'', ''CLIENT SETINFO'', ''CLIENT SETNAME'', ''CLIENT TRACKING'',
      ''CLIENT TRACKINGINFO'', ''CLIENT UNBLOCK'', ''CLIENT UNPAUSE'',
      ''CLUSTER COUNT-FAILURE-REPORTS'', ''CLUSTER COUNTKEYSINSLOT'', ''CLUSTER FAILOVER'',
      ''CLUSTER GETKEYSINSLOT'', ''CLUSTER HELP'', ''CLUSTER INFO'', ''CLUSTER KEYSLOT'',
      ''CLUSTER LINKS'', ''CLUSTER MYID'', ''CLUSTER MYSHARDID'', ''CLUSTER NODES'',
      ''CLUSTER REPLICATE'', ''CLUSTER SAVECONFIG'', ''CLUSTER SHARDS'', ''CLUSTER SLOTS'',
      ''COMMAND COUNT'', ''COMMAND DOCS'', ''COMMAND GETKEYS'', ''COMMAND GETKEYSANDFLAGS'',
      ''COMMAND HELP'', ''COMMAND INFO'', ''COMMAND LIST'', ''CONFIG GET'', ''CONFIG HELP'',
      ''CONFIG RESETSTAT'', ''CONFIG REWRITE'', ''CONFIG SET'', ''DBSIZE'', ''ECHO'',
      ''EVAL_RO'', ''EVALSHA_RO'', ''EXPIRETIME'', ''FCALL_RO'', ''FT.AGGREGATE'',
      ''FT.EXPLAIN'', ''FT.EXPLAINCLI'', ''FT.INFO'', ''FT.PROFILE'', ''FT.SEARCH'',
      ''FT._ALIASLIST'', ''FT._LIST'', ''FUNCTION DUMP'', ''FUNCTION HELP'',
      ''FUNCTION KILL'', ''FUNCTION LIST'', ''FUNCTION STATS'', ''GEORADIUSBYMEMBER_RO'',
      ''GEORADIUS_RO'', ''GEOSEARCH'', ''HELLO'', ''HRANDFIELD'', ''HSCAN'', ''INFO'',
      ''JSON.DEBUG'', ''KEYS'', ''LASTSAVE'', ''LATENCY DOCTOR'', ''LATENCY GRAPH'',
      ''LATENCY HELP'', ''LATENCY HISTOGRAM'', ''LATENCY HISTORY'', ''LATENCY LATEST'',
      ''LATENCY RESET'', ''LOLWUT'', ''MEMORY DOCTOR'', ''MEMORY HELP'',
      ''MEMORY MALLOC-STATS'', ''MEMORY PURGE'', ''MEMORY STATS'', ''MEMORY USAGE'',
      ''MODULE HELP'', ''MODULE LIST'', ''MODULE LOAD'', ''MODULE LOADEX'',
      ''MODULE UNLOAD'', ''OBJECT ENCODING'', ''OBJECT FREQ'', ''OBJECT HELP'',
      ''OBJECT IDLETIME'', ''OBJECT REFCOUNT'', ''PEXPIRETIME'', ''PING'', ''PTTL'',
      ''PUBLISH'', ''PUBSUB CHANNELS'', ''PUBSUB HELP'', ''PUBSUB NUMPAT'',
      ''PUBSUB NUMSUB'', ''PUBSUB SHARDCHANNELS'', ''PUBSUB SHARDNUMSUB'', ''RANDOMKEY'',
      ''REPLICAOF'', ''RESET'', ''ROLE'', ''SAVE'', ''SCAN'', ''SCRIPT DEBUG'',
      ''SCRIPT EXISTS'', ''SCRIPT FLUSH'', ''SCRIPT KILL'', ''SCRIPT LOAD'', ''SCRIPT SHOW'',
      ''SELECT'', ''SHUTDOWN'', ''SLOWLOG GET'', ''SLOWLOG HELP'', ''SLOWLOG LEN'',
      ''SLOWLOG RESET'', ''SORT_RO'', ''SPUBLISH'', ''SRANDMEMBER'', ''SSCAN'',
      ''SSUBSCRIBE'', ''SUBSCRIBE'', ''SUNSUBSCRIBE'', ''TIME'', ''TOUCH'', ''TTL'',
      ''UNSUBSCRIBE'', ''XINFO CONSUMERS'', ''XINFO GROUPS'', ''XINFO STREAM'', ''XLEN'',
      ''XPENDING'', ''XRANGE'', ''XREAD'', ''XREVRANGE'', ''ZRANDMEMBER'', ''ZSCAN'']"

definition command_properties :: "bytes \<Rightarrow> Properties" where
  "command_properties cmd =
     (if cmd \<in> set cacheable_commands then ReadOnlyCacheable
      else if cmd \<in> set readonly_commands then ReadOnly
      else Neither)"

definition is_readonly_cmd :: "bytes \<Rightarrow> bool" where
  "is_readonly_cmd cmd = (case command_properties cmd of ReadOnly \<Rightarrow> True | ReadOnlyCacheable \<Rightarrow> True | Neither \<Rightarrow> False)"

definition is_cachable_cmd :: "bytes \<Rightarrow> bool" where
  "is_cachable_cmd cmd \<longleftrightarrow> command_properties cmd = ReadOnlyCacheable"

lemma cachable_is_readonly: "is_cachable_cmd cmd \<Longrightarrow> is_readonly_cmd cmd"
  by (simp add: is_cachable_cmd_def is_readonly_cmd_def)

end
