(* ===== verification/Cluster_Routing.thy ===== *)
theory Cluster_Routing
  imports Resp_Roundtrip Command_Properties
begin

text \<open>
  Routing of requests in a cluster (\<^verbatim>\<open>cluster_handling/routing.rs\<close>): hash slots and hash tags,
  the tables that say how a command finds its node, the trait \<^verbatim>\<open>Routable\<close> with its two
  implementations, and the split of a multi key command over the slots of its keys.

  \<open>crc16\<close> is the checksum of the crate of that name, with its XMODEM parameters.  The order in
  which a \<^verbatim>\<open>HashMap\<close> is iterated is the parameter \<open>hm\<close>, of which only is known that it yields
  every entry once.
\<close>

section \<open>Slots\<close>

datatype SlotAddr = Master | ReplicaOptional | ReplicaRequired

datatype Slot = Slot u16

datatype Route = Route u16 SlotAddr

definition SLOT_SIZE :: u16 where
  "SLOT_SIZE = 16384"

fun slot_num :: "Slot \<Rightarrow> u16" where
  "slot_num (Slot s) = s"

fun route_slot :: "Route \<Rightarrow> u16" where
  "route_slot (Route s a) = s"

fun route_slot_addr :: "Route \<Rightarrow> SlotAddr" where
  "route_slot_addr (Route s a) = a"

definition slot_new :: "u16 \<Rightarrow> Slot option" where
  "slot_new slot = (if slot < SLOT_SIZE then Some (Slot slot) else None)"

definition get_hashtag :: "bytes \<Rightarrow> bytes option" where
  "get_hashtag key =
     Option.bind (position (\<lambda>v. v = CHR ''{'') key) (\<lambda>open'.
     Option.bind (position (\<lambda>v. v = CHR ''}'') (drop open' key)) (\<lambda>close.
       let rv = take (close - 1) (drop (open' + 1) key)
       in if rv \<noteq> [] then Some rv else None))"

definition slot_for_key :: "(bytes \<Rightarrow> u16) \<Rightarrow> bytes \<Rightarrow> Slot" where
  "slot_for_key crc16 key =
     Slot (crc16 (case get_hashtag key of Some tag \<Rightarrow> tag | None \<Rightarrow> key) mod SLOT_SIZE)"

definition route_with_slot :: "Slot \<Rightarrow> SlotAddr \<Rightarrow> Route" where
  "route_with_slot slot addr = Route (slot_num slot) addr"

definition route_with_key :: "(bytes \<Rightarrow> u16) \<Rightarrow> bytes \<Rightarrow> SlotAddr \<Rightarrow> Route" where
  "route_with_key crc16 key addr = route_with_slot (slot_for_key crc16 key) addr"

definition get_route :: "(bytes \<Rightarrow> u16) \<Rightarrow> bool \<Rightarrow> bytes \<Rightarrow> Route" where
  "get_route crc16 is_readonly key =
     (if is_readonly then route_with_key crc16 key ReplicaOptional
      else route_with_key crc16 key Master)"

section \<open>Routing information\<close>

datatype LogicalAggregateOp = AndOp

datatype AggregateOp = MinOp | SumOp

datatype ResponsePolicy =
    OneSucceeded
  | FirstSucceededNonEmptyOrAllEmpty
  | AllSucceeded
  | AggregateLogical LogicalAggregateOp
  | Aggregate AggregateOp
  | CombineArrays
  | Special
  | CombineMaps

datatype MultiSlotArgPattern = KeysOnly | KeyValuePairs | KeysAndLastArg | KeyWithTwoArgTriples

datatype SingleNodeRoutingInfo =
    Random
  | RandomPrimary
  | SpecificNode Route
  | ByAddress bytes u16

datatype MultipleNodeRoutingInfo =
    AllNodes
  | AllMasters
  | MultiSlot "(Route \<times> nat list) list" MultiSlotArgPattern

datatype RoutingInfo =
    SingleNode SingleNodeRoutingInfo
  | MultiNode MultipleNodeRoutingInfo "ResponsePolicy option"

definition single_node_of_route :: "Route option \<Rightarrow> SingleNodeRoutingInfo" where
  "single_node_of_route value = (case value of Some r \<Rightarrow> SpecificNode r | None \<Rightarrow> Random)"

definition for_command :: "bytes \<Rightarrow> ResponsePolicy option" where
  "for_command name =
     (if name = ''SCRIPT EXISTS'' then Some (AggregateLogical AndOp)
      else if name \<in> {''DBSIZE'', ''DEL'', ''EXISTS'', ''SLOWLOG LEN'', ''TOUCH'', ''UNLINK'',
                     ''LATENCY RESET'', ''PUBSUB NUMPAT''} then Some (Aggregate SumOp)
      else if name = ''WAIT'' then Some (Aggregate MinOp)
      else if name \<in> {''ACL SETUSER'', ''ACL DELUSER'', ''ACL SAVE'', ''CLIENT SETNAME'',
                     ''CLIENT SETINFO'', ''CONFIG SET'', ''CONFIG RESETSTAT'', ''CONFIG REWRITE'',
                     ''FLUSHALL'', ''FLUSHDB'', ''FUNCTION DELETE'', ''FUNCTION FLUSH'',
                     ''FUNCTION LOAD'', ''FUNCTION RESTORE'', ''MEMORY PURGE'', ''MSET'', ''JSON.MSET'',
                     ''PING'', ''SCRIPT FLUSH'', ''SCRIPT LOAD'', ''SLOWLOG RESET'', ''UNWATCH'',
                     ''WATCH''} then Some AllSucceeded
      else if name \<in> {''KEYS'', ''FT._ALIASLIST'', ''FT._LIST'', ''MGET'', ''JSON.MGET'', ''SLOWLOG GET'',
                     ''PUBSUB CHANNELS'', ''PUBSUB SHARDCHANNELS''} then Some CombineArrays
      else if name \<in> {''PUBSUB NUMSUB'', ''PUBSUB SHARDNUMSUB''} then Some CombineMaps
      else if name \<in> {''FUNCTION KILL'', ''SCRIPT KILL''} then Some OneSucceeded
      else if name = ''RANDOMKEY'' then Some FirstSucceededNonEmptyOrAllEmpty
      else if name \<in> {''LATENCY GRAPH'', ''LATENCY HISTOGRAM'', ''LATENCY HISTORY'', ''LATENCY DOCTOR'',
                     ''LATENCY LATEST'', ''FUNCTION STATS'', ''MEMORY MALLOC-STATS'', ''MEMORY DOCTOR'',
                     ''MEMORY STATS'', ''INFO''} then Some Special
      else None)"

datatype RouteBy =
    ByAllNodes
  | ByAllPrimaries
  | ByFirstKey
  | ByMultiShard MultiSlotArgPattern
  | ByRandom
  | BySecondArg
  | BySecondArgAfterKeyCount
  | BySecondArgSlot
  | ByStreamsIndex
  | ByThirdArgAfterKeyCount
  | ByUndefined

definition all_nodes_commands :: "bytes list" where
  "all_nodes_commands =
     [''ACL SETUSER'', ''ACL DELUSER'', ''ACL SAVE'', ''CLIENT SETNAME'', ''CLIENT SETINFO'',
      ''SLOWLOG GET'', ''SLOWLOG LEN'', ''SLOWLOG RESET'', ''CONFIG SET'',
      ''CONFIG RESETSTAT'', ''CONFIG REWRITE'', ''SCRIPT FLUSH'', ''SCRIPT LOAD'',
      ''LATENCY RESET'', ''LATENCY GRAPH'', ''LATENCY HISTOGRAM'', ''LATENCY HISTORY'',
      ''LATENCY DOCTOR'', ''LATENCY LATEST'', ''PUBSUB NUMPAT'', ''PUBSUB CHANNELS'',
      ''PUBSUB NUMSUB'', ''PUBSUB SHARDCHANNELS'', ''PUBSUB SHARDNUMSUB'', ''SCRIPT KILL'',
      ''FUNCTION KILL'', ''FUNCTION STATS'']"

definition all_primaries_commands :: "bytes list" where
  "all_primaries_commands =
     [''DBSIZE'', ''DEBUG'', ''FLUSHALL'', ''FLUSHDB'', ''FT._ALIASLIST'', ''FT._LIST'',
      ''FUNCTION DELETE'', ''FUNCTION FLUSH'', ''FUNCTION LOAD'', ''FUNCTION RESTORE'',
      ''INFO'', ''KEYS'', ''MEMORY DOCTOR'', ''MEMORY MALLOC-STATS'', ''MEMORY PURGE'',
      ''MEMORY STATS'', ''PING'', ''SCRIPT EXISTS'', ''UNWATCH'', ''WAIT'', ''RANDOMKEY'',
      ''WAITAOF'']"

definition keyless_commands :: "bytes list" where
  "keyless_commands =
     [''ACL DRYRUN'', ''ACL GENPASS'', ''ACL GETUSER'', ''ACL HELP'', ''ACL LIST'',
      ''ACL LOG'', ''ACL USERS'', ''ACL WHOAMI'', ''AUTH'', ''BGSAVE'', ''CLIENT GETNAME'',
      ''CLIENT GETREDIR'', ''CLIENT ID'', ''CLIENT INFO'', ''CLIENT KILL'', ''CLIENT PAUSE'',
      ''CLIENT REPLY'', ''CLIENT TRACKINGINFO'', ''CLIENT UNBLOCK'', ''CLIENT UNPAUSE'',
      ''CLUSTER COUNT-FAILURE-REPORTS'', ''CLUSTER INFO'', ''CLUSTER KEYSLOT'',
      ''CLUSTER MEET'', ''CLUSTER MYSHARDID'', ''CLUSTER NODES'', ''CLUSTER REPLICAS'',
      ''CLUSTER RESET'', ''CLUSTER SET-CONFIG-EPOCH'', ''CLUSTER SHARDS'', ''CLUSTER SLOTS'',
      ''COMMAND COUNT'', ''COMMAND GETKEYS'', ''COMMAND LIST'', ''COMMAND'', ''CONFIG GET'',
      ''ECHO'', ''FUNCTION LIST'', ''LASTSAVE'', ''LOLWUT'', ''MODULE LIST'',
      ''MODULE LOAD'', ''MODULE LOADEX'', ''MODULE UNLOAD'', ''READONLY'', ''READWRITE'',
      ''SAVE'', ''SCRIPT SHOW'', ''TFCALL'', ''TFCALLASYNC'', ''TFUNCTION DELETE'',
      ''TFUNCTION LIST'', ''TFUNCTION LOAD'', ''TIME'']"

definition second_arg_commands :: "bytes list" where
  "second_arg_commands =
     [''BITOP'', ''MEMORY USAGE'', ''PFDEBUG'', ''XGROUP CREATE'', ''XGROUP CREATECONSUMER'',
      ''XGROUP DELCONSUMER'', ''XGROUP DESTROY'', ''XGROUP SETID'', ''XINFO CONSUMERS'',
      ''XINFO GROUPS'', ''XINFO STREAM'', ''OBJECT ENCODING'', ''OBJECT FREQ'',
      ''OBJECT IDLETIME'', ''OBJECT REFCOUNT'', ''JSON.DEBUG'']"

definition base_routing :: "bytes \<Rightarrow> RouteBy" where
  "base_routing name =
     (if name \<in> set all_nodes_commands then ByAllNodes
      else if name \<in> set all_primaries_commands then ByAllPrimaries
      else if name \<in> {''MGET'', ''DEL'', ''EXISTS'', ''UNLINK'', ''TOUCH'', ''WATCH''} then ByMultiShard KeysOnly
      else if name = ''MSET'' then ByMultiShard KeyValuePairs
      else if name = ''JSON.MGET'' then ByMultiShard KeysAndLastArg
      else if name = ''JSON.MSET'' then ByMultiShard KeyWithTwoArgTriples
      else if name \<in> {''SCAN'', ''SHUTDOWN'', ''SLAVEOF'', ''REPLICAOF''} then ByUndefined
      else if name \<in> {''BLMPOP'', ''BZMPOP'', ''EVAL'', ''EVALSHA'', ''EVALSHA_RO'', ''EVAL_RO'',
                     ''FCALL'', ''FCALL_RO''} then ByThirdArgAfterKeyCount
      else if name \<in> set second_arg_commands then BySecondArg
      else if name \<in> {''LMPOP'', ''SINTERCARD'', ''ZDIFF'', ''ZINTER'', ''ZINTERCARD'', ''ZMPOP'', ''ZUNION''}
        then BySecondArgAfterKeyCount
      else if name \<in> {''XREAD'', ''XREADGROUP''} then ByStreamsIndex
      else if name \<in> set keyless_commands then ByRandom
      else if name \<in> {''CLUSTER ADDSLOTS'', ''CLUSTER COUNTKEYSINSLOT'', ''CLUSTER DELSLOTS'',
                     ''CLUSTER DELSLOTSRANGE'', ''CLUSTER GETKEYSINSLOT'', ''CLUSTER SETSLOT''}
        then BySecondArgSlot
      else ByFirstKey)"

section \<open>Routable requests\<close>

text \<open>The trait \<^verbatim>\<open>Routable\<close>, as the record of its required methods.  \<open>rt_len\<close> bounds the positions
  that hold an argument; it makes the loop over the keys of a request terminate.\<close>

record 'r routable =
  rt_arg_idx :: "'r \<Rightarrow> nat \<Rightarrow> bytes option run"
  rt_position :: "'r \<Rightarrow> bytes \<Rightarrow> nat option run"
  rt_len :: "'r \<Rightarrow> nat"

definition container_commands :: "bytes list" where
  "container_commands =
     [''XGROUP'', ''OBJECT'', ''SLOWLOG'', ''FUNCTION'', ''MODULE'', ''COMMAND'', ''PUBSUB'', ''CONFIG'',
      ''MEMORY'', ''XINFO'', ''CLIENT'', ''ACL'', ''SCRIPT'', ''CLUSTER'', ''LATENCY'']"

definition routable_command :: "'r routable \<Rightarrow> 'r \<Rightarrow> bytes option run" where
  "routable_command R r =
     run_bind (rt_arg_idx R r 0) (\<lambda>first.
       case map_option to_ascii_uppercase first of
         None \<Rightarrow> Ret None
       | Some primary_command \<Rightarrow>
           (if primary_command \<notin> set container_commands then Ret (Some primary_command)
            else
              run_bind (rt_arg_idx R r 1) (\<lambda>second.
                Ret (Some (case second of
                   Some secondary_command \<Rightarrow> primary_command @ '' '' @ to_ascii_uppercase secondary_command
                 | None \<Rightarrow> primary_command)))))"

definition cmd_position :: "Cmd \<Rightarrow> bytes \<Rightarrow> nat option run" where
  "cmd_position c candidate =
     map_run (position (\<lambda>a. case a of Simple d \<Rightarrow> eq_ignore_ascii_case d candidate | Cursor \<Rightarrow> False))
       (args_iter c)"

definition cmd_routable :: "Cmd routable" where
  "cmd_routable = \<lparr>rt_arg_idx = arg_idx, rt_position = cmd_position, rt_len = (\<lambda>c. length (cargs c))\<rparr>"

fun value_arg_idx :: "Value \<Rightarrow> nat \<Rightarrow> bytes option" where
  "value_arg_idx (VArray args) idx =
     (case get_idx args idx of Some (BulkString d) \<Rightarrow> Some d | _ \<Rightarrow> None)"
| "value_arg_idx _ idx = None"

fun value_position :: "Value \<Rightarrow> bytes \<Rightarrow> nat option" where
  "value_position (VArray args) candidate =
     position (\<lambda>a. case a of BulkString d \<Rightarrow> eq_ignore_ascii_case d candidate | _ \<Rightarrow> False) args"
| "value_position _ candidate = None"

definition value_routable :: "Value routable" where
  "value_routable =
     \<lparr>rt_arg_idx = (\<lambda>v k. Ret (value_arg_idx v k)), rt_position = (\<lambda>v c. Ret (value_position v c)),
      rt_len = (\<lambda>v. case v of VArray args \<Rightarrow> length args | _ \<Rightarrow> 0)\<rparr>"

section \<open>Splitting a command over slots\<close>

text \<open>\<^verbatim>\<open>routes.entry(route).or_insert(Vec::new())\<close> followed by \<^verbatim>\<open>push\<close> of the given positions, on the
  entries of the map in the order of their insertion.\<close>

fun push_route :: "Route \<Rightarrow> nat list \<Rightarrow> (Route \<times> nat list) list \<Rightarrow> (Route \<times> nat list) list" where
  "push_route r ks [] = [(r, ks)]"
| "push_route r ks ((r', is) # m) = (if r' = r then (r', is @ ks) # m else (r', is) # push_route r ks m)"

definition incr_add_next_arg ::
    "'r routable \<Rightarrow> 'r \<Rightarrow> nat list \<Rightarrow> nat \<Rightarrow> (nat list \<times> nat) option run" where
  "incr_add_next_arg R r arg_indices curr_arg_idx =
     run_bind (rt_arg_idx R r (curr_arg_idx + 1)) (\<lambda>a.
       Ret (map_option (\<lambda>_. (arg_indices @ [curr_arg_idx + 1], curr_arg_idx + 1)) a))"

text \<open>What one turn of the loop pushes for the key at \<open>idx\<close>: the positions, the last of them, and
  whether the loop ends with the shared last argument.\<close>

definition key_args ::
    "'r routable \<Rightarrow> 'r \<Rightarrow> nat \<Rightarrow> MultiSlotArgPattern \<Rightarrow> nat \<Rightarrow> (nat list \<times> nat \<times> bool) option run" where
  "key_args R r first_key_index args_pattern idx =
     (case args_pattern of
        KeysOnly \<Rightarrow> Ret (Some ([idx], idx, False))
      | KeyValuePairs \<Rightarrow>
          map_run (map_option (\<lambda>(is, c). (is, c, False))) (incr_add_next_arg R r [idx] idx)
      | KeysAndLastArg \<Rightarrow>
          map_run (\<lambda>a. Some ([idx], idx, a = None)) (rt_arg_idx R r (first_key_index + idx + 2))
      | KeyWithTwoArgTriples \<Rightarrow>
          run_bind (incr_add_next_arg R r [idx] idx) (\<lambda>a.
            case a of
              None \<Rightarrow> Ret None
            | Some (is, c) \<Rightarrow> map_run (map_option (\<lambda>(is, c). (is, c, False))) (incr_add_next_arg R r is c)))"

lemma key_args_progress: "key_args R r f p idx = Ret (Some (is, k, b)) \<Longrightarrow> idx \<le> k"
  by (cases p) (auto simp: key_args_def incr_add_next_arg_def monad_simps split: option.splits)

function multi_shard_loop ::
    "(bytes \<Rightarrow> u16) \<Rightarrow> 'r routable \<Rightarrow> 'r \<Rightarrow> bool \<Rightarrow> nat \<Rightarrow> MultiSlotArgPattern \<Rightarrow> nat \<Rightarrow>
     (Route \<times> nat list) list \<Rightarrow> (Route \<times> nat list) list option run" where
  "multi_shard_loop crc16 R r is_readonly first_key_index args_pattern idx routes =
     (if rt_len R r \<le> first_key_index + idx then Ret (Some routes)
      else
        (case rt_arg_idx R r (first_key_index + idx) of
           Panic \<Rightarrow> Panic
         | Ret None \<Rightarrow> Ret (Some routes)
         | Ret (Some arg) \<Rightarrow>
             (case key_args R r first_key_index args_pattern idx of
                Panic \<Rightarrow> Panic
              | Ret None \<Rightarrow> Ret None
              | Ret (Some (arg_indices, last_idx, ends)) \<Rightarrow>
                  (let routes' = push_route (get_route crc16 is_readonly arg) arg_indices routes
                   in if ends then Ret (Some (map (\<lambda>(route, is). (route, is @ [idx + 1])) routes'))
                      else multi_shard_loop crc16 R r is_readonly first_key_index args_pattern (last_idx + 1) routes'))))"
  by pat_completeness auto

termination
  by (relation "measure (\<lambda>(_, R, r, _, f, _, idx, _). rt_len R r - (f + idx))")
     (auto dest!: key_args_progress)

declare multi_shard_loop.simps [simp del]

definition multi_shard ::
    "(bytes \<Rightarrow> u16) \<Rightarrow> ((Route \<times> nat list) list \<Rightarrow> (Route \<times> nat list) list) \<Rightarrow> 'r routable \<Rightarrow> 'r \<Rightarrow> bytes \<Rightarrow>
     nat \<Rightarrow> MultiSlotArgPattern \<Rightarrow> RoutingInfo option run" where
  "multi_shard crc16 hm R r command first_key_index args_pattern =
     run_bind (multi_shard_loop crc16 R r (is_readonly_cmd command) first_key_index args_pattern 0 []) (\<lambda>m.
       Ret (case map_option hm m of
              None \<Rightarrow> None
            | Some routes \<Rightarrow>
                (if routes = [] then None
                 else Some (if length routes = 1 then SingleNode (SpecificNode (fst (List.last routes)))
                            else MultiNode (MultiSlot routes args_pattern) (for_command command)))))"

section \<open>Routing a request\<close>

definition for_key :: "(bytes \<Rightarrow> u16) \<Rightarrow> bytes \<Rightarrow> bytes \<Rightarrow> RoutingInfo" where
  "for_key crc16 command key = SingleNode (SpecificNode (get_route crc16 (is_readonly_cmd command) key))"

definition parse_arg :: "nat \<Rightarrow> bytes option \<Rightarrow> nat option" where
  "parse_arg w arg = Option.bind (Option.bind arg from_utf8) (parse_unsigned w)"

text \<open>The key of a command whose keys follow their count at position \<open>n\<close>.\<close>

definition after_key_count ::
    "(bytes \<Rightarrow> u16) \<Rightarrow> 'r routable \<Rightarrow> 'r \<Rightarrow> bytes \<Rightarrow> nat \<Rightarrow> RoutingInfo option run" where
  "after_key_count crc16 R r command n =
     run_bind (rt_arg_idx R r n) (\<lambda>count'.
       case parse_arg 64 count' of
         None \<Rightarrow> Ret None
       | Some key_count \<Rightarrow>
           (if key_count = 0 then Ret (Some (SingleNode Random))
            else map_run (map_option (for_key crc16 command)) (rt_arg_idx R r (n + 1))))"

definition for_routable ::
    "(bytes \<Rightarrow> u16) \<Rightarrow> ((Route \<times> nat list) list \<Rightarrow> (Route \<times> nat list) list) \<Rightarrow> 'r routable \<Rightarrow> 'r \<Rightarrow>
     RoutingInfo option run" where
  "for_routable crc16 hm R r =
     run_bind (routable_command R r) (\<lambda>command'.
       case command' of
         None \<Rightarrow> Ret None
       | Some command \<Rightarrow>
           (case base_routing command of
              ByAllNodes \<Rightarrow> Ret (Some (MultiNode AllNodes (for_command command)))
            | ByAllPrimaries \<Rightarrow> Ret (Some (MultiNode AllMasters (for_command command)))
            | ByMultiShard arg_pattern \<Rightarrow> multi_shard crc16 hm R r command 1 arg_pattern
            | ByRandom \<Rightarrow> Ret (Some (SingleNode Random))
            | ByThirdArgAfterKeyCount \<Rightarrow> after_key_count crc16 R r command 2
            | BySecondArg \<Rightarrow> map_run (map_option (for_key crc16 command)) (rt_arg_idx R r 2)
            | BySecondArgAfterKeyCount \<Rightarrow> after_key_count crc16 R r command 1
            | ByStreamsIndex \<Rightarrow>
                run_bind (rt_position R r ''STREAMS'') (\<lambda>streams_position.
                  case streams_position of
                    None \<Rightarrow> Ret None
                  | Some k \<Rightarrow> map_run (map_option (for_key crc16 command)) (rt_arg_idx R r (k + 1)))
            | BySecondArgSlot \<Rightarrow>
                map_run (\<lambda>arg.
                  map_option (\<lambda>slot. SingleNode (SpecificNode (route_with_slot slot Master)))
                    (Option.bind (map_option of_nat (parse_arg 16 arg)) slot_new))
                  (rt_arg_idx R r 2)
            | ByFirstKey \<Rightarrow>
                map_run (\<lambda>arg. case arg of
                   Some key \<Rightarrow> Some (for_key crc16 command key)
                 | None \<Rightarrow> Some (SingleNode Random))
                  (rt_arg_idx R r 1)
            | ByUndefined \<Rightarrow> Ret None))"

section \<open>Hash tags\<close>

lemma position_first: "\<forall>x \<in> set pre. \<not> p x \<Longrightarrow> p y \<Longrightarrow> position p (pre @ y # post) = Some (length pre)"
  by (simp add: position_append position_None [THEN iffD2])

lemma position_Some_split:
  "position p xs = Some i \<Longrightarrow>
     xs = take i xs @ xs ! i # drop (Suc i) xs \<and> p (xs ! i) \<and> (\<forall>x \<in> set (take i xs). \<not> p x)"
  using position_Some [of p xs i] by (auto simp: id_take_nth_drop in_set_conv_nth)

lemma get_hashtag_iff:
  "get_hashtag key = Some tag \<longleftrightarrow>
     tag \<noteq> [] \<and> CHR ''}'' \<notin> set tag \<and>
     (\<exists>pre post. CHR ''{'' \<notin> set pre \<and> key = pre @ ''{'' @ tag @ ''}'' @ post)"
proof
  assume "get_hashtag key = Some tag"
  then obtain i j where i: "position (\<lambda>v. v = CHR ''{'') key = Some i"
    and j: "position (\<lambda>v. v = CHR ''}'') (drop i key) = Some j"
    and tag: "tag = take (j - 1) (drop (i + 1) key)" "tag \<noteq> []"
    by (auto simp: get_hashtag_def Let_def bind_eq_Some_conv split: if_splits)
  let ?pre = "take i key" and ?rest = "drop (Suc i) key"
  have key: "key = ?pre @ CHR ''{'' # ?rest" and pre: "CHR ''{'' \<notin> set ?pre"
    using position_Some_split [OF i] by (metis, blast)
  have d: "drop i key = CHR ''{'' # ?rest"
    using position_Some [OF i] by (metis Cons_nth_drop_Suc)
  then obtain k where k: "j = Suc k" "position (\<lambda>v. v = CHR ''}'') ?rest = Some k"
    using j by auto
  have "?rest = tag @ CHR ''}'' # drop (Suc k) ?rest" and "CHR ''}'' \<notin> set tag"
    using position_Some_split [OF k(2)] k(1) tag(1) by (metis One_nat_def Suc_eq_plus1 diff_Suc_1, auto)
  with key pre tag(2) show "tag \<noteq> [] \<and> CHR ''}'' \<notin> set tag \<and>
     (\<exists>pre post. CHR ''{'' \<notin> set pre \<and> key = pre @ ''{'' @ tag @ ''}'' @ post)"
    by (metis append_Cons append_Nil)
next
  assume "tag \<noteq> [] \<and> CHR ''}'' \<notin> set tag \<and>
     (\<exists>pre post. CHR ''{'' \<notin> set pre \<and> key = pre @ ''{'' @ tag @ ''}'' @ post)"
  then obtain pre post where key: "key = pre @ CHR ''{'' # tag @ CHR ''}'' # post"
    and ok: "tag \<noteq> []" "CHR ''}'' \<notin> set tag" "CHR ''{'' \<notin> set pre" by auto
  have i: "position (\<lambda>v. v = CHR ''{'') key = Some (length pre)"
    unfolding key using ok(3) by (intro position_first) auto
  have j: "position (\<lambda>v. v = CHR ''}'') (drop (length pre) key) = Some (Suc (length tag))"
    using position_first [of tag "\<lambda>v. v = CHR ''}''" "CHR ''}''" post] ok(2) by (auto simp: key)
  show "get_hashtag key = Some tag"
    using ok(1) by (simp add: get_hashtag_def i j) (simp add: key)
qed

lemma get_hashtag_no_close: "CHR ''}'' \<notin> set tag \<Longrightarrow> get_hashtag tag = None"
  by (cases "get_hashtag tag") (auto dest!: get_hashtag_iff [THEN iffD1])

lemma slot_for_key_bound: "slot_num (slot_for_key crc16 key) < SLOT_SIZE"
  by (simp add: slot_for_key_def SLOT_SIZE_def word_mod_less_divisor)

lemma slot_for_key_valid: "slot_new (slot_num (slot_for_key crc16 key)) = Some (slot_for_key crc16 key)"
  using slot_for_key_bound [of crc16 key] by (cases "slot_for_key crc16 key") (simp add: slot_new_def)

text \<open>Every key has a slot below 16384.  A key that contains a non-empty hash tag, the bytes
  between its first opening brace and the first closing brace after it, has the slot of the tag
  alone, so all keys with the same tag share a slot.\<close>

theorem hashtag_decides_slot:
  assumes "key = pre @ ''{'' @ tag @ ''}'' @ post"
    and "CHR ''{'' \<notin> set pre" and "CHR ''}'' \<notin> set tag" and "tag \<noteq> []"
  shows "slot_for_key crc16 key = slot_for_key crc16 tag \<and> slot_num (slot_for_key crc16 key) < SLOT_SIZE"
proof -
  have "get_hashtag key = Some tag" using assms by (auto simp: get_hashtag_iff)
  then show ?thesis
    using get_hashtag_no_close [OF assms(3)] slot_for_key_bound [of crc16 key]
    by (simp add: slot_for_key_def)
qed

section \<open>The interface of a routable request\<close>

text \<open>A routable request presents a list of arguments.\<close>

definition list_routable :: "bytes list routable" where
  "list_routable =
     \<lparr>rt_arg_idx = (\<lambda>xs k. Ret (get_idx xs k)),
      rt_position = (\<lambda>xs c. Ret (position (\<lambda>d. eq_ignore_ascii_case d c) xs)),
      rt_len = length\<rparr>"

lemma list_routable_simps [simp]:
  "rt_arg_idx list_routable xs k = Ret (get_idx xs k)"
  "rt_position list_routable xs c = Ret (position (\<lambda>d. eq_ignore_ascii_case d c) xs)"
  "rt_len list_routable xs = length xs"
  by (simp_all add: list_routable_def)

locale routable_request =
  fixes R :: "'r routable" and args :: "'r \<Rightarrow> bytes list" and valid :: "'r \<Rightarrow> bool"
  assumes arg_idx_law: "valid r \<Longrightarrow> rt_arg_idx R r k = Ret (get_idx (args r) k)"
    and position_law: "valid r \<Longrightarrow> rt_position R r c = Ret (position (\<lambda>d. eq_ignore_ascii_case d c) (args r))"
    and len_law: "valid r \<Longrightarrow> rt_len R r = length (args r)"
begin

lemmas laws = arg_idx_law position_law len_law

lemma incr_add_next_arg_args:
  "valid r \<Longrightarrow> incr_add_next_arg R r is idx = incr_add_next_arg list_routable (args r) is idx"
  by (simp add: incr_add_next_arg_def laws)

lemma key_args_args:
  "valid r \<Longrightarrow> key_args R r f p idx = key_args list_routable (args r) f p idx"
  by (simp add: key_args_def laws incr_add_next_arg_args cong: MultiSlotArgPattern.case_cong option.case_cong)

lemma multi_shard_loop_args:
  "valid r \<Longrightarrow> multi_shard_loop crc16 R r ro f p idx routes =
     multi_shard_loop crc16 list_routable (args r) ro f p idx routes"
proof (induction "length (args r) - (f + idx)" arbitrary: idx routes rule: less_induct)
  case less
  have rec: "multi_shard_loop crc16 R r ro f p (k + 1) rs =
      multi_shard_loop crc16 list_routable (args r) ro f p (k + 1) rs"
    if "key_args list_routable (args r) f p idx = Ret (Some (is, k, b))" "f + idx < length (args r)" for "is" k b rs
    using key_args_progress [OF that(1)] that(2) by (intro less.hyps less.prems) arith
  show ?case
  proof (cases "key_args list_routable (args r) f p idx")
    case (Ret ka)
    then show ?thesis
      using rec
      by (subst (1 2) multi_shard_loop.simps)
         (cases ka, auto simp: laws [OF less.prems] key_args_args [OF less.prems] Let_def get_idx_def)
  qed (subst (1 2) multi_shard_loop.simps, simp add: laws [OF less.prems] key_args_args [OF less.prems] get_idx_def)
qed

lemma for_routable_args:
  assumes "valid r"
  shows "for_routable crc16 hm R r = for_routable crc16 hm list_routable (args r)"
  unfolding for_routable_def routable_command_def multi_shard_def after_key_count_def
    multi_shard_loop_args [OF assms] laws [OF assms] list_routable_simps ..

end

interpretation list_request: routable_request list_routable "\<lambda>xs. xs" "\<lambda>_. True"
  by unfold_locales simp_all

definition value_args :: "Value \<Rightarrow> bytes list" where
  "value_args v = (case v of VArray xs \<Rightarrow> map (\<lambda>x. case x of BulkString d \<Rightarrow> d | _ \<Rightarrow> []) xs | _ \<Rightarrow> [])"

definition bulk_request :: "Value \<Rightarrow> bool" where
  "bulk_request v \<longleftrightarrow> (case v of VArray xs \<Rightarrow> list_all (\<lambda>x. case x of BulkString _ \<Rightarrow> True | _ \<Rightarrow> False) xs | _ \<Rightarrow> False)"

lemma bulk_requestE:
  assumes "bulk_request v"
  obtains "v = VArray (map BulkString (value_args v))"
proof -
  obtain xs where v: "v = VArray xs" and all: "list_all (\<lambda>x. case x of BulkString _ \<Rightarrow> True | _ \<Rightarrow> False) xs"
    using assms by (auto simp: bulk_request_def split: Value.splits)
  from all have "xs = map BulkString (map (\<lambda>x. case x of BulkString d \<Rightarrow> d | _ \<Rightarrow> []) xs)"
    by (induction xs) (auto split: Value.splits)
  then show thesis using that v by (simp add: value_args_def)
qed

lemma value_args_bulk [simp]:
  "value_args (VArray (map BulkString xs)) = xs" "bulk_request (VArray (map BulkString xs))"
  by (simp_all add: value_args_def bulk_request_def comp_def list_all_iff)

interpretation value_request: routable_request value_routable value_args bulk_request
proof
  fix r :: Value and k and c assume "bulk_request r"
  then obtain xs where r: "r = VArray (map BulkString xs)" by (elim bulk_requestE)
  show "rt_arg_idx value_routable r k = Ret (get_idx (value_args r) k)"
    by (simp add: r value_routable_def get_idx_def)
  show "rt_position value_routable r c = Ret (position (\<lambda>d. eq_ignore_ascii_case d c) (value_args r))"
    by (simp add: r value_routable_def position_map comp_def)
  show "rt_len value_routable r = length (value_args r)"
    by (simp add: r value_routable_def)
qed

text \<open>A command presents its arguments when it has no cursor and its name is not empty.\<close>

definition plain_cmd :: "Cmd \<Rightarrow> bool" where
  "plain_cmd c \<longleftrightarrow> wf_cmd c \<and> Cursor \<notin> set (cmd_args_of c) \<and> (\<forall>a as. cmd_args_of c = Simple a # as \<longrightarrow> a \<noteq> [])"

definition simple_args :: "Cmd \<Rightarrow> bytes list" where
  "simple_args c = map (\<lambda>a. case a of Simple d \<Rightarrow> d | Cursor \<Rightarrow> []) (cmd_args_of c)"

lemma cmd_args_of_plain: "plain_cmd c \<Longrightarrow> cmd_args_of c = map Simple (simple_args c)"
  by (auto simp: plain_cmd_def simple_args_def intro!: map_idI [symmetric] split: Arg.splits)

lemma offsets_ok_ge: "offsets_ok p xs n \<Longrightarrow> Simple m \<in> set xs \<Longrightarrow> p \<le> m"
  by (induction p xs n rule: offsets_ok.induct) auto

lemma plain_cmd_offsets:
  assumes "plain_cmd c" and "Simple m \<in> set (cargs c)"
  shows "0 < m"
proof -
  have wf: "wf_cmd c" using assms by (simp add: plain_cmd_def)
  have it: "args_iter_from (cdata c) 0 (cargs c) = Ret (cmd_args_of c)"
    using wf_cmd_args_iter [OF wf] by (simp add: args_iter_def)
  from assms(2) obtain x rest where ca: "cargs c = x # rest" by (cases "cargs c") auto
  have "x \<noteq> Cursor"
    using args_iter_from_kinds [OF it] assms(1) ca
    by (auto simp: plain_cmd_def Cons_eq_map_conv)
  then obtain e where x: "x = Simple e" by (cases x) auto
  obtain a as where a: "slice_range (cdata c) 0 e = Ret a" "cmd_args_of c = Simple a # as"
    using it by (simp add: ca x run_bind_eq_Ret) metis
  then have "0 < e" using assms(1) by (auto simp: plain_cmd_def slice_range_def split: if_splits)
  moreover have "e \<le> m" using wf assms(2) offsets_ok_ge by (auto simp: wf_cmd_def ca x)
  ultimately show ?thesis by simp
qed

interpretation cmd_request: routable_request cmd_routable simple_args plain_cmd
proof
  fix r :: Cmd and k and c assume p: "plain_cmd r"
  then have wf: "wf_cmd r" by (simp add: plain_cmd_def)
  show "rt_len cmd_routable r = length (simple_args r)"
    using wf_cmd_length_args [OF wf] by (simp add: cmd_routable_def simple_args_def)
  show "rt_position cmd_routable r c = Ret (position (\<lambda>d. eq_ignore_ascii_case d c) (simple_args r))"
    using wf_cmd_args_iter [OF wf]
    by (simp add: cmd_routable_def cmd_position_def cmd_args_of_plain [OF p] position_map comp_def)
  show "rt_arg_idx cmd_routable r k = Ret (get_idx (simple_args r) k)"
  proof (cases "k < length (cargs r)")
    case False
    then show ?thesis using wf_cmd_length_args [OF wf]
      by (simp add: cmd_routable_def arg_idx_def get_idx_def simple_args_def)
  next
    case True
    then have k: "k < length (simple_args r)"
      using wf_cmd_length_args [OF wf] by (simp add: simple_args_def)
    have nth: "cmd_args_of r ! j = Simple (simple_args r ! j)" if "j < length (simple_args r)" for j
      using that by (subst cmd_args_of_plain [OF p]) simp
    have "simple_args r ! k \<noteq> [] \<or> k > 0 \<and> cargs r ! (k - 1) \<noteq> Simple 0"
    proof (cases k)
      case 0
      then show ?thesis
        using p k nth [of 0] by (cases "cmd_args_of r") (auto simp: plain_cmd_def simple_args_def)
    next
      case (Suc j)
      then have "cargs r ! j \<in> set (cargs r)" using True by simp
      then show ?thesis using plain_cmd_offsets [OF p, of 0] Suc by auto
    qed
    then have "arg_idx r k = Ret (Some (simple_args r ! k))"
      using nth k by (intro arg_idx_correct wf True) auto
    then show ?thesis using k by (simp add: cmd_routable_def get_idx_def)
  qed
qed

section \<open>Routing never panics on a list of arguments\<close>

lemma key_args_list_no_panic: "key_args list_routable xs f p idx \<noteq> Panic"
  by (cases p) (auto simp: key_args_def incr_add_next_arg_def monad_simps split: option.splits)

lemma multi_shard_loop_list_no_panic: "multi_shard_loop crc16 list_routable xs ro f p idx routes \<noteq> Panic"
proof (induction "length xs - (f + idx)" arbitrary: idx routes rule: less_induct)
  case less
  have rec: "multi_shard_loop crc16 list_routable xs ro f p (Suc k) rs \<noteq> Panic"
    if "key_args list_routable xs f p idx = Ret (Some (is, k, b))" "f + idx < length xs" for "is" k b rs
    using key_args_progress [OF that(1)] that(2) by (intro less.hyps) arith
  show ?case
    using rec key_args_list_no_panic [of xs f p idx]
    by (subst multi_shard_loop.simps)
       (auto simp: get_idx_def Let_def split: run.splits option.splits)
qed

lemma routable_command_list_no_panic: "routable_command list_routable xs \<noteq> Panic"
  by (auto simp: routable_command_def run_bind_eq_Panic split: option.splits)

lemma after_key_count_list_no_panic: "after_key_count crc16 list_routable xs name n \<noteq> Panic"
  by (auto simp: after_key_count_def run_bind_eq_Panic split: option.splits)

lemma multi_shard_list_no_panic: "multi_shard crc16 hm list_routable xs name f p \<noteq> Panic"
  by (simp add: multi_shard_def run_bind_eq_Panic multi_shard_loop_list_no_panic)

lemma for_routable_list_no_panic: "for_routable crc16 hm list_routable xs \<noteq> Panic"
proof (cases "routable_command list_routable xs")
  case (Ret name)
  show ?thesis
  proof (cases name)
    case (Some n)
    with Ret show ?thesis
      using multi_shard_list_no_panic after_key_count_list_no_panic
      by (cases "base_routing n")
         (auto simp: for_routable_def run_bind_eq_Panic split: option.splits)
  qed (use Ret in \<open>simp add: for_routable_def\<close>)
qed (use routable_command_list_no_panic in blast)

lemma cmd_wire_args_plain: "plain_cmd c \<Longrightarrow> cmd_wire_args c = simple_args c"
  by (simp add: cmd_wire_args_def cmd_args_of_plain comp_def)

text \<open>A cluster client routes a command and its packed bytes alike: the bytes parse back to a
  request, and routing that request gives what routing the command gives, without panicking.  The
  command is any with a non-empty name and without a cursor.\<close>

theorem packed_command_routes_like_cmd:
  assumes "combine_ok C" and "itoa_ok itoa" and "plain_cmd c" and "\<not> cmd_is_empty c"
    and "len_ok (length (simple_args c))" and "\<forall>a \<in> set (simple_args c). len_ok (length a)"
  shows "\<exists>bs v. get_packed_command itoa c = Ret bs \<and> parse_redis_value C bs = Inr v \<and>
     for_routable crc16 hm value_routable v = for_routable crc16 hm cmd_routable c \<and>
     for_routable crc16 hm cmd_routable c \<noteq> Panic"
proof -
  let ?v = "VArray (map BulkString (simple_args c))"
  have wf: "wf_cmd c" using assms(3) by (simp add: plain_cmd_def)
  have "get_packed_command itoa c = Ret (resp_command (simple_args c))"
    using write_packed_command_wf [OF assms(2) wf, of "[]"] assms(4) cmd_wire_args_plain [OF assms(3)]
    by (simp add: get_packed_command_def)
  moreover have "parse_redis_value C (resp_command (simple_args c)) = Inr ?v"
    using resp_command_reads [OF assms(1,5,6), of "[]"]
    by (simp add: parse_redis_value_def parse_value_def to_redis_err_def)
  moreover have "for_routable crc16 hm value_routable ?v = for_routable crc16 hm list_routable (simple_args c)"
    using value_request.for_routable_args [of ?v] by simp
  moreover have "for_routable crc16 hm cmd_routable c = for_routable crc16 hm list_routable (simple_args c)"
    by (rule cmd_request.for_routable_args [OF assms(3)])
  ultimately show ?thesis using for_routable_list_no_panic by metis
qed

section \<open>Commands built from a list of arguments\<close>

definition cmd_of_args :: "bytes list \<Rightarrow> Cmd" where
  "cmd_of_args xs = foldl cmd_write_arg cmd_new xs"

lemma cmd_of_args_args: "wf_cmd (cmd_of_args xs) \<and> cmd_args_of (cmd_of_args xs) = map Simple xs"
proof (induction xs rule: rev_induct)
  case Nil
  then show ?case by (simp add: cmd_of_args_def)
next
  case (snoc x xs)
  then show ?case using wf_cmd_write_arg [of "cmd_of_args xs"] cmd_args_of_write_arg [of "cmd_of_args xs"]
    by (simp add: cmd_of_args_def)
qed

lemma plain_cmd_of_args:
  "xs \<noteq> [] \<Longrightarrow> hd xs \<noteq> [] \<Longrightarrow> plain_cmd (cmd_of_args xs) \<and> simple_args (cmd_of_args xs) = xs"
  using cmd_of_args_args [of xs] by (cases xs) (auto simp: plain_cmd_def simple_args_def comp_def)

end
