(* ===== verification/Slot_Map.thy ===== *)
theory Slot_Map
  imports Slot_Range_Map Cluster_Routing
begin

text \<open>
  Node addresses, the slot map and the topology of a cluster: \<^verbatim>\<open>cluster_handling/mod.rs\<close> (addresses),
  \<^verbatim>\<open>slot_map.rs\<close>, \<^verbatim>\<open>topology.rs\<close> and \<^verbatim>\<open>read_routing/interface.rs\<close>.  \<open>pick\<close> is the random choice from
  a non-empty slice of the crate \<^verbatim>\<open>rand\<close>.  A routing strategy is a record of its two methods over
  the state it keeps behind its shared reference.
\<close>

section \<open>Node addresses\<close>

datatype NodeAddress = NodeAddress (na_host: bytes) (na_port: u16)

definition node_address_text :: "NodeAddress \<Rightarrow> bytes" where
  "node_address_text a = na_host a @ '':'' @ show_nat (unat (na_port a))"

definition trim_start_matches :: "char \<Rightarrow> bytes \<Rightarrow> bytes" where
  "trim_start_matches c s = dropWhile (\<lambda>x. x = c) s"

definition trim_end_matches :: "char \<Rightarrow> bytes \<Rightarrow> bytes" where
  "trim_end_matches c s = rev (dropWhile (\<lambda>x. x = c) (rev s))"

definition split_node_address :: "bytes \<Rightarrow> (bytes \<times> u16) redis_result" where
  "split_node_address node =
     (case Option.bind (rsplit_once (CHR '':'') node) (\<lambda>(host, port).
             (let h = trim_end_matches (CHR '']'') (trim_start_matches (CHR ''['') host)
              in if h = [] then None
                 else map_option (\<lambda>p. (h, of_nat p)) (parse_unsigned 16 port))) of
        Some r \<Rightarrow> Inr r
      | None \<Rightarrow> Inl (error_of InvalidClientConfig ''Invalid node string''))"

definition node_address_try_from :: "bytes \<Rightarrow> NodeAddress redis_result" where
  "node_address_try_from s = res_bind (split_node_address s) (\<lambda>(host, port). Inr (NodeAddress host port))"

definition node_address_eq_str :: "NodeAddress \<Rightarrow> bytes \<Rightarrow> bool" where
  "node_address_eq_str a other = (case node_address_try_from other of Inr parsed \<Rightarrow> a = parsed | Inl _ \<Rightarrow> False)"

definition slot_cmd :: Cmd where
  "slot_cmd = cmd_write_arg (cmd_write_arg cmd_new ''CLUSTER'') ''SLOTS''"

section \<open>Slot map\<close>

record SlotRange =
  sr_start :: u16
  sr_end :: u16
  sr_master :: NodeAddress
  sr_replicas :: "NodeAddress list"

record SlotAddrs =
  sa_primary :: NodeAddress
  sa_replicas :: "NodeAddress list"

type_synonym SlotMap = "SlotAddrs slot_range_map"

definition slot_addrs_from_slot :: "SlotRange \<Rightarrow> SlotAddrs" where
  "slot_addrs_from_slot slot = \<lparr>sa_primary = sr_master slot, sa_replicas = sr_replicas slot\<rparr>"

definition fill_slots :: "SlotMap \<Rightarrow> SlotRange list \<Rightarrow> SlotMap" where
  "fill_slots m slots =
     foldl (\<lambda>m slot. srm_insert (sr_start slot) (sr_end slot) (slot_addrs_from_slot slot) m) m slots"

definition from_slots :: "SlotRange list \<Rightarrow> SlotMap" where
  "from_slots slots =
     foldl (\<lambda>m slot. srm_insert (sr_start slot) (sr_end slot) (slot_addrs_from_slot slot) m) srm_new slots"

section \<open>Read routing\<close>

record Shard =
  sh_slot_ranges :: "(u16 \<times> u16) list"
  sh_primary :: NodeAddress
  sh_replicas :: "NodeAddress list"

text \<open>An \<^verbatim>\<open>Arc<Shard>\<close> is the shard with the identity of its allocation, which \<^verbatim>\<open>Arc::as_ptr\<close> shows.\<close>

type_synonym ClusterTopology = "(nat \<times> Shard) slot_range_map"

fun insert_shard :: "nat \<Rightarrow> Shard \<Rightarrow> (u16 \<times> u16) list \<Rightarrow> ClusterTopology \<Rightarrow> ClusterTopology" where
  "insert_shard ptr shard [] m = m"
| "insert_shard ptr shard ((start, end') # rs) m =
     insert_shard ptr shard rs (srm_insert start end' (ptr, shard) m)"

fun from_shards_at :: "nat \<Rightarrow> Shard list \<Rightarrow> ClusterTopology \<Rightarrow> ClusterTopology" where
  "from_shards_at ptr [] m = m"
| "from_shards_at ptr (shard # shards) m =
     from_shards_at (Suc ptr) shards (insert_shard ptr shard (sh_slot_ranges shard) m)"

definition from_shards :: "Shard list \<Rightarrow> ClusterTopology" where
  "from_shards shards = from_shards_at 0 shards srm_new"

definition shard_for_slot :: "ClusterTopology \<Rightarrow> u16 \<Rightarrow> Shard option" where
  "shard_for_slot t slot = map_option snd (srm_get t slot)"

text \<open>\<^verbatim>\<open>shards()\<close> keeps the first of every run of values with one allocation.\<close>

fun first_seen :: "nat list \<Rightarrow> (nat \<times> Shard) list \<Rightarrow> (nat \<times> Shard) list" where
  "first_seen seen [] = []"
| "first_seen seen ((ptr, shard) # rest) =
     (if ptr \<in> set seen then first_seen seen rest
      else (ptr, shard) # first_seen (ptr # seen) rest)"

definition topology_shards :: "ClusterTopology \<Rightarrow> Shard list" where
  "topology_shards t = map snd (first_seen [] (srm_values t))"

datatype ReadCandidates =
    AnyNode (rc_slot: u16) NodeAddress (rc_replicas: "NodeAddress list")
  | ReplicasOnly (rc_slot: u16) (rc_replicas: "NodeAddress list")

text \<open>\<^verbatim>\<open>Replicas::new\<close>\<close>

definition replicas_new :: "NodeAddress list \<Rightarrow> NodeAddress list option" where
  "replicas_new inner = (if inner = [] then None else Some inner)"

definition choose_random :: "(NodeAddress list \<Rightarrow> NodeAddress) \<Rightarrow> NodeAddress list \<Rightarrow> NodeAddress run" where
  "choose_random pick inner = (if inner = [] then Panic else Ret (pick inner))"

record 's ReadRoutingStrategy =
  st_on_topology_changed :: "ClusterTopology \<Rightarrow> 's \<Rightarrow> 's"
  st_route_read :: "ReadCandidates \<Rightarrow> 's \<Rightarrow> (NodeAddress \<times> 's) run"

definition slot_addr ::
    "(NodeAddress list \<Rightarrow> NodeAddress) \<Rightarrow> SlotAddrs \<Rightarrow> u16 \<Rightarrow> SlotAddr \<Rightarrow> 's ReadRoutingStrategy option \<Rightarrow> 's \<Rightarrow>
     (NodeAddress \<times> 's) run" where
  "slot_addr pick addrs slot slot_addr' strategy st =
     (case strategy of
        None \<Rightarrow>
          (case slot_addr' of
             Master \<Rightarrow> Ret (sa_primary addrs, st)
           | ReplicaOptional \<Rightarrow> Ret (sa_primary addrs, st)
           | ReplicaRequired \<Rightarrow>
               (case replicas_new (sa_replicas addrs) of
                  Some replicas \<Rightarrow> map_run (\<lambda>a. (a, st)) (choose_random pick replicas)
                | None \<Rightarrow> Ret (sa_primary addrs, st)))
      | Some strategy' \<Rightarrow>
          (case replicas_new (sa_replicas addrs) of
             Some replicas \<Rightarrow>
               (case slot_addr' of
                  Master \<Rightarrow> Ret (sa_primary addrs, st)
                | ReplicaOptional \<Rightarrow> st_route_read strategy' (AnyNode slot (sa_primary addrs) replicas) st
                | ReplicaRequired \<Rightarrow> st_route_read strategy' (ReplicasOnly slot replicas) st)
           | None \<Rightarrow> Ret (sa_primary addrs, st)))"

definition slot_addr_for_route ::
    "(NodeAddress list \<Rightarrow> NodeAddress) \<Rightarrow> SlotMap \<Rightarrow> Route \<Rightarrow> 's ReadRoutingStrategy option \<Rightarrow> 's \<Rightarrow>
     (NodeAddress option \<times> 's) run" where
  "slot_addr_for_route pick m route strategy st =
     (case srm_get m (route_slot route) of
        None \<Rightarrow> Ret (None, st)
      | Some addrs \<Rightarrow>
          map_run (\<lambda>(a, st'). (Some a, st'))
            (slot_addr pick addrs (route_slot route) (route_slot_addr route) strategy st))"

definition shard_fallback_addrs :: "SlotMap \<Rightarrow> Route \<Rightarrow> NodeAddress list" where
  "shard_fallback_addrs m route =
     (case srm_get m (route_slot route) of
        None \<Rightarrow> []
      | Some addrs \<Rightarrow>
          (case route_slot_addr route of
             Master \<Rightarrow> []
           | ReplicaOptional \<Rightarrow> sa_replicas addrs @ [sa_primary addrs]
           | ReplicaRequired \<Rightarrow> sa_replicas addrs))"

text \<open>\<^verbatim>\<open>IntoIterator for &SlotAddrs\<close>\<close>

definition slot_addrs_iter :: "SlotAddrs \<Rightarrow> NodeAddress list" where
  "slot_addrs_iter a = sa_primary a # sa_replicas a"

definition all_unique_addresses :: "SlotMap \<Rightarrow> bool \<Rightarrow> NodeAddress set" where
  "all_unique_addresses m only_primaries =
     (if only_primaries then set (map sa_primary (srm_values m))
      else set (concat (map slot_addrs_iter (srm_values m))))"

definition addresses_for_all_primaries :: "SlotMap \<Rightarrow> NodeAddress set" where
  "addresses_for_all_primaries m = all_unique_addresses m True"

definition addresses_for_all_nodes :: "SlotMap \<Rightarrow> NodeAddress set" where
  "addresses_for_all_nodes m = all_unique_addresses m False"

fun addresses_for_multi_slot ::
    "(NodeAddress list \<Rightarrow> NodeAddress) \<Rightarrow> SlotMap \<Rightarrow> (Route \<times> nat list) list \<Rightarrow> 's ReadRoutingStrategy option \<Rightarrow> 's \<Rightarrow>
     (NodeAddress option list \<times> 's) run" where
  "addresses_for_multi_slot pick m [] strategy st = Ret ([], st)"
| "addresses_for_multi_slot pick m ((route, _) # routes) strategy st =
     run_bind (slot_addr_for_route pick m route strategy st) (\<lambda>(a, st').
       map_run (\<lambda>(as, st''). (a # as, st'')) (addresses_for_multi_slot pick m routes strategy st'))"

text \<open>The builders of \<^verbatim>\<open>topology\<close>: a range joins the shard of its primary, or starts a new one.\<close>

fun add_to_builders :: "u16 \<times> u16 \<times> SlotAddrs \<Rightarrow> Shard list \<Rightarrow> Shard list" where
  "add_to_builders (start, end', addrs) [] =
     [\<lparr>sh_slot_ranges = [(start, end')], sh_primary = sa_primary addrs, sh_replicas = sa_replicas addrs\<rparr>]"
| "add_to_builders (start, end', addrs) (b # bs) =
     (if sh_primary b = sa_primary addrs
      then b\<lparr>sh_slot_ranges := sh_slot_ranges b @ [(start, end')]\<rparr> # bs
      else b # add_to_builders (start, end', addrs) bs)"

definition topology :: "SlotMap \<Rightarrow> ClusterTopology" where
  "topology m = from_shards (foldl (\<lambda>bs r. add_to_builders r bs) [] (srm_iter m))"

section \<open>Parsing the reply to \<^verbatim>\<open>CLUSTER SLOTS\<close>\<close>

definition is_wildcard_address :: "bytes \<Rightarrow> bool" where
  "is_wildcard_address address \<longleftrightarrow> address = ''0.0.0.0'' \<or> address = ''::''"

text \<open>\<^verbatim>\<open>try_to_address\<close>; that equal host names share one string is not observable.\<close>

definition try_to_address :: "bytes \<Rightarrow> Value \<Rightarrow> NodeAddress option" where
  "try_to_address addr_of_answering_node node' =
     (case node' of
        VArray (n0 # n1 # _) \<Rightarrow>
          (case (case n0 of
                   BulkString ip \<Rightarrow>
                     (let hostname = from_utf8_lossy ip
                      in if hostname = [] \<or> is_wildcard_address hostname then Some addr_of_answering_node
                         else if hostname = ''?'' then None
                         else Some hostname)
                 | VNil \<Rightarrow> Some addr_of_answering_node
                 | _ \<Rightarrow> None) of
             None \<Rightarrow> None
           | Some hostname \<Rightarrow>
               (if hostname = [] then None
                else (case n1 of VInt port \<Rightarrow> Some (NodeAddress hostname (ucast port)) | _ \<Rightarrow> None)))
      | _ \<Rightarrow> None)"

fun first_address :: "bytes \<Rightarrow> Value list \<Rightarrow> (NodeAddress \<times> Value list) option" where
  "first_address addr [] = None"
| "first_address addr (node # nodes) =
     (case try_to_address addr node of
        Some a \<Rightarrow> Some (a, nodes)
      | None \<Rightarrow> first_address addr nodes)"

definition parse_slot_item :: "bytes \<Rightarrow> Value list \<Rightarrow> SlotRange option" where
  "parse_slot_item addr item =
     (case item of
        i0 # i1 # i2 # nodes \<Rightarrow>
          (case (i0, i1) of
             (VInt start, VInt end') \<Rightarrow>
               (case first_address addr (i2 # nodes) of
                  None \<Rightarrow> None
                | Some (primary, rest) \<Rightarrow>
                    Some \<lparr>sr_start = ucast start, sr_end = ucast end', sr_master = primary,
                          sr_replicas = List.map_filter (try_to_address addr) rest\<rparr>)
           | _ \<Rightarrow> None)
      | _ \<Rightarrow> None)"

fun parse_slot_items :: "bytes \<Rightarrow> Value list \<Rightarrow> SlotRange list" where
  "parse_slot_items addr [] = []"
| "parse_slot_items addr (item # items) =
     (case item of
        VArray xs \<Rightarrow>
          (case parse_slot_item addr xs of
             Some r \<Rightarrow> r # parse_slot_items addr items
           | None \<Rightarrow> parse_slot_items addr items)
      | _ \<Rightarrow> [])"

definition parse_slots :: "Value \<Rightarrow> bytes \<Rightarrow> SlotRange list redis_result" where
  "parse_slots raw_slot_resp addr_of_answering_node =
     Inr (case raw_slot_resp of VArray items \<Rightarrow> parse_slot_items addr_of_answering_node items | _ \<Rightarrow> [])"

section \<open>Addresses\<close>

lemma trim_brackets:
  assumes "h \<noteq> []" and "hd h \<noteq> CHR ''[''" and "last h \<noteq> CHR '']''"
  shows "trim_end_matches (CHR '']'') (trim_start_matches (CHR ''['') (replicate n (CHR ''['') @ h @ replicate k (CHR '']''))) = h"
proof -
  have "dropWhile (\<lambda>x. x = CHR ''['') (replicate n (CHR ''['') @ h @ ys) = h @ ys" for ys
    using assms(1,2) by (induction n) (cases h, auto)+
  moreover have "dropWhile (\<lambda>x. x = CHR '']'') (replicate k (CHR '']'') @ rev h) = rev h"
    using assms(1,3) by (induction k) (cases h rule: rev_cases, auto)+
  ultimately show ?thesis by (simp add: trim_start_matches_def trim_end_matches_def)
qed

lemma split_node_address_text:
  assumes "h \<noteq> []" and "hd h \<noteq> CHR ''[''" and "last h \<noteq> CHR '']''"
  shows "split_node_address ((replicate n (CHR ''['') @ h @ replicate k (CHR '']'')) @ '':'' @ show_nat (unat p)) = Inr (h, p)"
proof -
  have "CHR '':'' \<notin> set (show_nat (unat p))"
    using show_nat_digits [of "CHR '':''" "unat p"] by (auto simp: is_digit_def in_range_def)
  then have "rsplit_once (CHR '':'') ((replicate n (CHR ''['') @ h @ replicate k (CHR '']'')) @ '':'' @ show_nat (unat p)) =
      Some (replicate n (CHR ''['') @ h @ replicate k (CHR '']''), show_nat (unat p))"
    using rsplit_once_append [of "CHR '':''" "show_nat (unat p)" "replicate n (CHR ''['') @ h @ replicate k (CHR '']'')"]
    by simp
  moreover have "parse_unsigned 16 (show_nat (unat p)) = Some (unat p)"
    using unsigned_less [where 'a = nat and w = p] by (intro parse_unsigned_show_nat) simp
  ultimately show ?thesis using trim_brackets [OF assms, of n k] assms(1)
    by (simp add: split_node_address_def)
qed

text \<open>An address survives being printed and parsed again, with or without square brackets
  around the host, so an IPv6 host whose colons would be ambiguous is recovered.\<close>

theorem node_address_roundtrip:
  assumes "na_host a \<noteq> []" and "hd (na_host a) \<noteq> CHR ''[''" and "last (na_host a) \<noteq> CHR '']''"
  shows "node_address_try_from (node_address_text a) = Inr a \<and>
         node_address_try_from (''['' @ na_host a @ '']:'' @ show_nat (unat (na_port a))) = Inr a \<and>
         node_address_eq_str a (node_address_text a)"
proof -
  have "split_node_address (na_host a @ '':'' @ show_nat (unat (na_port a))) = Inr (na_host a, na_port a)"
    using split_node_address_text [OF assms, of 0 0 "na_port a"] by simp
  moreover have "split_node_address (''['' @ na_host a @ '']:'' @ show_nat (unat (na_port a))) = Inr (na_host a, na_port a)"
    using split_node_address_text [OF assms, of 1 1 "na_port a"] by simp
  ultimately show ?thesis
    by (simp add: node_address_try_from_def node_address_text_def node_address_eq_str_def)
qed

section \<open>Looking up the owner of a slot\<close>

definition slot_ranges_of :: "SlotRange list \<Rightarrow> (u16 \<times> u16 \<times> SlotAddrs) list" where
  "slot_ranges_of slots = map (\<lambda>r. (sr_start r, sr_end r, slot_addrs_from_slot r)) slots"

lemma from_slots_fold: "from_slots slots = foldl (\<lambda>m (s, e, v). srm_insert s e v m) srm_new (slot_ranges_of slots)"
  by (simp add: from_slots_def slot_ranges_of_def foldl_map)

lemma srm_get_from_slots:
  assumes "disjoint_ranges (slot_ranges_of slots)"
  shows "srm_get (from_slots slots) slot = Some addrs \<longleftrightarrow>
         (\<exists>r \<in> set slots. sr_start r \<le> slot \<and> slot \<le> sr_end r \<and> addrs = slot_addrs_from_slot r)"
  unfolding from_slots_fold srm.get_from_empty [OF assms] by (force simp: slot_ranges_of_def)

lemma srm_ok_from_slots: "disjoint_ranges (slot_ranges_of slots) \<Longrightarrow> srm_ok (from_slots slots)"
  using srm.inv_from_empty [of "slot_ranges_of slots"] by (simp add: from_slots_fold)

text \<open>The reply to \<^verbatim>\<open>CLUSTER SLOTS\<close> as a server sends it.\<close>

definition encode_node :: "NodeAddress \<Rightarrow> Value" where
  "encode_node a = VArray [BulkString (na_host a), VInt (ucast (na_port a))]"

definition encode_slot :: "SlotRange \<Rightarrow> Value" where
  "encode_slot r =
     VArray (VInt (ucast (sr_start r)) # VInt (ucast (sr_end r)) # map encode_node (sr_master r # sr_replicas r))"

definition plain_host :: "bytes \<Rightarrow> bool" where
  "plain_host h \<longleftrightarrow> h \<noteq> [] \<and> utf8_valid h \<and> \<not> is_wildcard_address h \<and> h \<noteq> ''?''"

lemma ucast_16_64 [simp]: "ucast (ucast (x :: 16 word) :: 64 word) = x"
  by transfer simp

lemma try_to_address_encode: "plain_host (na_host a) \<Longrightarrow> try_to_address addr (encode_node a) = Some a"
  by (cases a) (simp add: try_to_address_def encode_node_def plain_host_def from_utf8_lossy_valid Let_def)

lemma parse_slot_item_encode:
  assumes "\<forall>a \<in> set (sr_master r # sr_replicas r). plain_host (na_host a)"
  shows "parse_slot_items addr (encode_slot r # items) = r # parse_slot_items addr items"
proof -
  have "List.map_filter (try_to_address addr) (map encode_node as) = as"
    if "\<forall>a \<in> set as. plain_host (na_host a)" for as
    using that by (induction as) (auto simp: map_filter_simps try_to_address_encode)
  then show ?thesis using assms
    by (simp add: encode_slot_def parse_slot_item_def try_to_address_encode)
qed

lemma parse_slots_encode:
  assumes "\<forall>r \<in> set slots. \<forall>a \<in> set (sr_master r # sr_replicas r). plain_host (na_host a)"
  shows "parse_slots (VArray (map encode_slot slots)) addr = Inr slots"
proof -
  have "parse_slot_items addr (map encode_slot slots) = slots"
    using assms by (induction slots) (simp_all add: parse_slot_item_encode del: parse_slot_items.simps(2))
  then show ?thesis by (simp add: parse_slots_def)
qed

text \<open>C23.  From the reply to \<^verbatim>\<open>CLUSTER SLOTS\<close> to the node of a key: the reply parses back to the ranges
  it lists, and in the slot map built from them every key whose slot lies in a range is sent to the
  primary of that range, for reads and for writes, when no read strategy is set; a key in no range
  has no node.\<close>

theorem cluster_slots_reply_routes_keys:
  assumes "\<forall>r \<in> set slots. \<forall>a \<in> set (sr_master r # sr_replicas r). plain_host (na_host a)"
    and "disjoint_ranges (slot_ranges_of slots)"
    and "s = slot_num (slot_for_key crc16 key)"
  shows "parse_slots (VArray (map encode_slot slots)) addr = Inr slots \<and>
         slot_addr_for_route pick (from_slots slots) (get_route crc16 ro key) None st =
           Ret (map_option sr_master (List.find (\<lambda>r. sr_start r \<le> s \<and> s \<le> sr_end r) slots), st)"
proof -
  let ?f = "List.find (\<lambda>r. sr_start r \<le> s \<and> s \<le> sr_end r) slots"
  have rt: "route_slot (get_route crc16 ro key) = s" "route_slot_addr (get_route crc16 ro key) \<noteq> ReplicaRequired"
    by (simp_all add: assms(3) get_route_def route_with_key_def route_with_slot_def)
  have "srm_get (from_slots slots) s = map_option slot_addrs_from_slot ?f"
  proof (cases ?f)
    case None
    then show ?thesis using srm_get_from_slots [OF assms(2), of s]
      by (cases "srm_get (from_slots slots) s") (auto simp: find_None_iff)
  next
    case (Some r)
    then have "r \<in> set slots \<and> sr_start r \<le> s \<and> s \<le> sr_end r" by (auto simp: find_Some_iff)
    then have "srm_get (from_slots slots) s = Some (slot_addrs_from_slot r)"
      using srm_get_from_slots [OF assms(2)] by blast
    then show ?thesis using Some by simp
  qed
  then have "slot_addr_for_route pick (from_slots slots) (get_route crc16 ro key) None st = Ret (map_option sr_master ?f, st)"
    using rt by (cases ?f; cases "route_slot_addr (get_route crc16 ro key)")
      (simp_all add: slot_addr_for_route_def slot_addr_def slot_addrs_from_slot_def)
  then show ?thesis using parse_slots_encode [OF assms(1)] by simp
qed

definition witness_slots :: "SlotRange list" where
  "witness_slots =
     [\<lparr>sr_start = 0, sr_end = 8191, sr_master = NodeAddress ''a'' 1, sr_replicas = [NodeAddress ''c'' 3]\<rparr>,
      \<lparr>sr_start = 8192, sr_end = 16383, sr_master = NodeAddress ''b'' 2, sr_replicas = []\<rparr>]"

theorem cluster_slots_reply_routes_keys_witness:
  "slot_addr_for_route hd (from_slots witness_slots) (get_route (\<lambda>_. 9000) True ''k'') None () =
     Ret (Some (NodeAddress ''b'' 2), ())"
proof -
  have 1: "\<forall>r \<in> set witness_slots. \<forall>a \<in> set (sr_master r # sr_replicas r). plain_host (na_host a)"
    by code_simp
  have 2: "disjoint_ranges (slot_ranges_of witness_slots)"
    by (simp add: witness_slots_def slot_ranges_of_def)
  have 3: "slot_num (slot_for_key (\<lambda>_. 9000) ''k'') = 9000" by (simp add: slot_for_key_def SLOT_SIZE_def)
  show ?thesis
    using cluster_slots_reply_routes_keys [OF 1 2 refl, of "''x''" hd "\<lambda>_. 9000" True "''k''" "()"] unfolding 3
    by (simp add: witness_slots_def)
qed

section \<open>The topology snapshot\<close>

lemma disjoint_ranges_perm: "mset rs = mset rs' \<Longrightarrow> disjoint_ranges rs \<Longrightarrow> disjoint_ranges rs'"
proof (induction rs arbitrary: rs')
  case (Cons r rs)
  have "r \<in> set rs'" using Cons.prems(1) by (metis list.set_intros(1) set_mset_mset)
  then obtain xs ys where rs': "rs' = xs @ r # ys" by (meson split_list)
  then have m: "mset rs = mset (xs @ ys)" using Cons.prems(1) by simp
  then have "disjoint_ranges (xs @ ys)" using Cons by simp
  moreover have "set rs = set (xs @ ys)" using mset_eq_setD [OF m] .
  ultimately show ?case
    using Cons.prems(2) by (auto simp: rs' disjoint_ranges_append list_all_iff intro: apart_sym)
qed simp

definition bounds_of :: "(u16 \<times> u16 \<times> 'v) list \<Rightarrow> (u16 \<times> u16) list" where
  "bounds_of rs = map (\<lambda>(s, e, _). (s, e)) rs"

lemma disjoint_ranges_bounds: "disjoint_ranges rs \<longleftrightarrow> disjoint_ranges (map (\<lambda>(s, e). (s, e, ())) (bounds_of rs))"
  by (induction rs) (auto simp: bounds_of_def list_all_iff apart_def)

lemma disjoint_ranges_bounds_perm:
  fixes rs :: "(u16 \<times> u16 \<times> 'v) list" and rs' :: "(u16 \<times> u16 \<times> 'w) list"
  assumes "mset (bounds_of rs) = mset (bounds_of rs')" and "disjoint_ranges rs"
  shows "disjoint_ranges rs'"
proof -
  let ?f = "\<lambda>(s :: u16, e :: u16). (s, e, ())"
  have "mset (map ?f (bounds_of rs)) = mset (map ?f (bounds_of rs'))" using assms(1) by simp
  then show ?thesis
    using disjoint_ranges_perm assms(2) disjoint_ranges_bounds [of rs] disjoint_ranges_bounds [of rs'] by blast
qed

text \<open>The builders hold the ranges of the slot map, each with the primary of its range.\<close>

definition builder_ranges :: "Shard list \<Rightarrow> (u16 \<times> u16 \<times> NodeAddress) list" where
  "builder_ranges bs = concat (map (\<lambda>b. map (\<lambda>(s, e). (s, e, sh_primary b)) (sh_slot_ranges b)) bs)"

lemma add_to_builders_ranges:
  "mset (builder_ranges (add_to_builders (s, e, addrs) bs)) = add_mset (s, e, sa_primary addrs) (mset (builder_ranges bs))"
  by (induction "(s, e, addrs)" bs rule: add_to_builders.induct) (auto simp: builder_ranges_def)

lemma builders_ranges:
  "mset (builder_ranges (foldl (\<lambda>bs r. add_to_builders r bs) bs rs)) =
     mset (builder_ranges bs) + mset (map (\<lambda>(s, e, addrs). (s, e, sa_primary addrs)) rs)"
  by (induction rs arbitrary: bs) (auto simp: add_to_builders_ranges)

definition shard_ranges :: "nat \<Rightarrow> Shard list \<Rightarrow> (u16 \<times> u16 \<times> nat \<times> Shard) list" where
  "shard_ranges ptr shards = concat (map (\<lambda>(p, b). map (\<lambda>(s, e). (s, e, p, b)) (sh_slot_ranges b)) (enumerate ptr shards))"

lemma insert_shard_fold:
  "insert_shard ptr shard rs m = foldl (\<lambda>m (s, e, v). srm_insert s e v m) m (map (\<lambda>(s, e). (s, e, ptr, shard)) rs)"
  by (induction ptr shard rs m rule: insert_shard.induct) auto

lemma from_shards_at_fold:
  "from_shards_at ptr shards m = foldl (\<lambda>m (s, e, v). srm_insert s e v m) m (shard_ranges ptr shards)"
  by (induction ptr shards m rule: from_shards_at.induct) (auto simp: insert_shard_fold shard_ranges_def)

lemma bounds_shard_ranges: "bounds_of (shard_ranges ptr shards) = bounds_of (builder_ranges shards)"
  by (induction shards arbitrary: ptr)
     (auto simp: bounds_of_def shard_ranges_def builder_ranges_def case_prod_beta comp_def)

lemma enumerate_has: "(\<exists>p. (p, b) \<in> set (enumerate ptr shards)) \<longleftrightarrow> b \<in> set shards"
proof -
  have "b \<in> set shards \<longleftrightarrow> b \<in> snd ` set (enumerate ptr shards)"
    using map_snd_enumerate [of ptr shards] by (metis set_map)
  then show ?thesis by force
qed

lemma in_shard_ranges:
  "(s, e, p, b) \<in> set (shard_ranges ptr shards) \<longleftrightarrow> (p, b) \<in> set (enumerate ptr shards) \<and> (s, e) \<in> set (sh_slot_ranges b)"
  by (force simp: shard_ranges_def)

lemma in_builder_ranges:
  "(s, e, a) \<in> set (builder_ranges shards) \<longleftrightarrow> (\<exists>b \<in> set shards. (s, e) \<in> set (sh_slot_ranges b) \<and> a = sh_primary b)"
  by (force simp: builder_ranges_def)

lemma set_shard_ranges:
  "(s, e, p, b) \<in> set (shard_ranges ptr shards) \<Longrightarrow> (s, e, sh_primary b) \<in> set (builder_ranges shards)"
  using enumerate_has [of b ptr shards] by (auto simp: in_shard_ranges in_builder_ranges)

lemma builder_range_has_shard:
  "(s, e, a) \<in> set (builder_ranges shards) \<Longrightarrow> \<exists>p b. (s, e, p, b) \<in> set (shard_ranges ptr shards)"
  using enumerate_has [of _ ptr shards] by (fastforce simp: in_shard_ranges in_builder_ranges)

lemma topology_ranges:
  assumes "srm_ok m" and "bs = foldl (\<lambda>bs r. add_to_builders r bs) [] (srm_iter m)"
  shows "set (builder_ranges bs) = (\<lambda>(s, e, addrs). (s, e, sa_primary addrs)) ` set (srm_iter m)"
    and "mset (bounds_of (builder_ranges bs)) = mset (bounds_of (srm_iter m))"
proof -
  have br: "mset (builder_ranges bs) = mset (map (\<lambda>(s, e, addrs). (s, e, sa_primary addrs)) (srm_iter m))"
    unfolding assms(2) builders_ranges by (simp add: builder_ranges_def)
  show "set (builder_ranges bs) = (\<lambda>(s, e, addrs). (s, e, sa_primary addrs)) ` set (srm_iter m)"
    using mset_eq_setD [OF br] by simp
  have "bounds_of (map (\<lambda>(s, e, addrs). (s, e, sa_primary addrs)) (srm_iter m)) = bounds_of (srm_iter m)"
    by (auto simp: bounds_of_def)
  then show "mset (bounds_of (builder_ranges bs)) = mset (bounds_of (srm_iter m))"
    using arg_cong [OF br, of "image_mset (\<lambda>(s, e, _). (s, e))"]
    unfolding bounds_of_def mset_map [symmetric] by (simp only:)
qed

lemma topology_ranges_disjoint:
  assumes "srm_ok m" and "bs = foldl (\<lambda>bs r. add_to_builders r bs) [] (srm_iter m)"
  shows "disjoint_ranges (shard_ranges 0 bs)"
proof -
  have "mset (bounds_of (srm_iter m)) = mset (bounds_of (shard_ranges 0 bs))"
    unfolding bounds_shard_ranges topology_ranges(2) [OF assms] ..
  then show ?thesis by (rule disjoint_ranges_bounds_perm [OF _ srm_iter_disjoint [OF assms(1)]])
qed

text \<open>The topology handed to a read strategy agrees with the slot map: a slot is covered by a
  shard exactly when the slot map has an owner for it, and the primary of that shard is the
  owner.\<close>

theorem topology_agrees_with_slot_map:
  assumes "srm_ok m"
  shows "map_option sh_primary (shard_for_slot (topology m) slot) = map_option sa_primary (srm_get m slot)"
proof -
  define bs where "bs = foldl (\<lambda>bs r. add_to_builders r bs) [] (srm_iter m)"
  note set_br = topology_ranges(1) [OF assms bs_def]
  have "disjoint_ranges (shard_ranges 0 bs)" by (rule topology_ranges_disjoint [OF assms bs_def])
  then have get_t: "srm_get (topology m) slot = Some (p, b) \<longleftrightarrow>
      (\<exists>s e. (s, e, p, b) \<in> set (shard_ranges 0 bs) \<and> s \<le> slot \<and> slot \<le> e)" for p b
    by (simp add: topology_def from_shards_def from_shards_at_fold srm.get_from_empty flip: bs_def)
  note get_m = srm.get_law [OF assms, of slot]
  have some: "\<exists>p b. srm_get (topology m) slot = Some (p, b)" if "srm_get m slot = Some addrs" for addrs
  proof -
    from that obtain s e where "(s, e, addrs) \<in> set (srm_iter m)" "s \<le> slot" "slot \<le> e" using get_m by blast
    then have "(s, e, sa_primary addrs) \<in> set (builder_ranges bs)" unfolding set_br by force
    then show ?thesis using builder_range_has_shard [of s e _ bs 0] get_t \<open>s \<le> slot\<close> \<open>slot \<le> e\<close> by blast
  qed
  have prim: "\<exists>addrs. srm_get m slot = Some addrs \<and> sa_primary addrs = sh_primary b"
    if t: "srm_get (topology m) slot = Some (p, b)" for p b
  proof -
    from t obtain s e where "(s, e, p, b) \<in> set (shard_ranges 0 bs)" and se: "s \<le> slot" "slot \<le> e" using get_t by blast
    then have "(s, e, sh_primary b) \<in> set (builder_ranges bs)" using set_shard_ranges by blast
    then obtain addrs where "(s, e, addrs) \<in> set (srm_iter m)" "sa_primary addrs = sh_primary b"
      unfolding set_br by auto
    then show ?thesis using get_m se by blast
  qed
  show ?thesis
  proof (cases "srm_get (topology m) slot")
    case None
    then have "srm_get m slot = None" using some by (cases "srm_get m slot") auto
    then show ?thesis using None by (simp add: shard_for_slot_def)
  next
    case (Some x)
    then show ?thesis using prim [of "fst x" "snd x"] by (auto simp: shard_for_slot_def)
  qed
qed

end
