(* ===== verification/Cluster_Request.thy ===== *)
theory Cluster_Request
  imports Slot_Map Pipelines
begin

text \<open>
  One request of the asynchronous cluster connection
  (\<^verbatim>\<open>cluster_handling/async_connection/request.rs\<close> and \<^verbatim>\<open>routing.rs\<close>, with the retry parameters of
  \<^verbatim>\<open>cluster_handling/client.rs\<close>): where it is routed, what is done with the outcome of an attempt
  (\<^verbatim>\<open>choose_response\<close>), and how long it waits.

  The connection type \<^verbatim>\<open>C\<close> is the type variable \<open>'c\<close>.  A \<^verbatim>\<open>oneshot::Sender\<close> is the number of its
  channel, and what an operation sends is part of its result.  The sampling of a number in a half
  open range is the parameter \<open>rng\<close> of the crate \<^verbatim>\<open>rand\<close>; an empty range panics there.
\<close>

type_synonym u32 = "32 word"

section \<open>Waiting between retries\<close>

record RetryParams =
  number_of_retries :: u32
  max_wait_time :: u64
  min_wait_time :: u64
  exponent_base :: u64
  factor :: u64

definition retry_params_default :: RetryParams where
  "retry_params_default =
     \<lparr>number_of_retries = 16, max_wait_time = 655360, min_wait_time = 1280, exponent_base = 2, factor = 10\<rparr>"

definition u64_checked :: "nat \<Rightarrow> u64 run" where
  "u64_checked n = (if n < 2 ^ 64 then Ret (of_nat n) else Panic)"

definition u64_saturating_add :: "u64 \<Rightarrow> u64 \<Rightarrow> u64" where
  "u64_saturating_add a b = (if unat a + unat b < 2 ^ 64 then a + b else - 1)"

definition u32_saturating_add :: "u32 \<Rightarrow> u32 \<Rightarrow> u32" where
  "u32_saturating_add a b = (if unat a + unat b < 2 ^ 32 then a + b else - 1)"

definition cluster_retry_wait_upper_ms :: "u64 \<Rightarrow> u64 \<Rightarrow> u64 \<Rightarrow> u64 run" where
  "cluster_retry_wait_upper_ms base_wait min_wait max_wait =
     run_bind (u64_checked (unat min_wait + 1)) (\<lambda>above.
       let capped = min (max base_wait above) max_wait
       in Ret (if capped \<le> min_wait then u64_saturating_add min_wait 1 else capped))"

definition random_range :: "(u64 \<Rightarrow> u64 \<Rightarrow> u64) \<Rightarrow> u64 \<Rightarrow> u64 \<Rightarrow> u64 run" where
  "random_range rng low high = (if low < high then Ret (rng low high) else Panic)"

definition wait_time_for_retry :: "(u64 \<Rightarrow> u64 \<Rightarrow> u64) \<Rightarrow> RetryParams \<Rightarrow> u32 \<Rightarrow> u64 run" where
  "wait_time_for_retry rng p retry =
     run_bind (u64_checked (unat (exponent_base p) ^ unat retry)) (\<lambda>power.
     run_bind (u64_checked (unat power * unat (factor p))) (\<lambda>base_wait.
     run_bind (cluster_retry_wait_upper_ms base_wait (min_wait_time p) (max_wait_time p)) (\<lambda>clamped_wait.
       random_range rng (min_wait_time p) clamped_wait)))"

section \<open>Routing inside the connection\<close>

datatype Redirect = MovedTo NodeAddress | AskTo NodeAddress

datatype 'c InternalSingleNodeRouting =
    IRandom
  | ISpecificNode Route
  | IByAddress NodeAddress
  | IConnection NodeAddress 'c
  | IRedirect Redirect "'c InternalSingleNodeRouting"

datatype 'c InternalRoutingInfo =
    ISingleNode "'c InternalSingleNodeRouting"
  | IMultiNode MultipleNodeRoutingInfo "ResponsePolicy option"

definition route_new_random_primary :: "u16 \<Rightarrow> Route" where
  "route_new_random_primary drawn = route_with_slot (Slot drawn) Master"

definition internal_single_of :: "u16 \<Rightarrow> SingleNodeRoutingInfo \<Rightarrow> 'c InternalSingleNodeRouting" where
  "internal_single_of drawn r = (case r of
     Random \<Rightarrow> IRandom
   | SpecificNode route \<Rightarrow> ISpecificNode route
   | ByAddress host port \<Rightarrow> IByAddress (NodeAddress host port)
   | RandomPrimary \<Rightarrow> ISpecificNode (route_new_random_primary drawn))"

definition internal_routing_of :: "u16 \<Rightarrow> RoutingInfo \<Rightarrow> 'c InternalRoutingInfo" where
  "internal_routing_of drawn r = (case r of
     SingleNode route \<Rightarrow> ISingleNode (internal_single_of drawn route)
   | MultiNode nodes policy \<Rightarrow> IMultiNode nodes policy)"

definition route_for_command ::
    "(bytes \<Rightarrow> u16) \<Rightarrow> ((Route \<times> nat list) list \<Rightarrow> (Route \<times> nat list) list) \<Rightarrow> u16 \<Rightarrow> Cmd \<Rightarrow> Route option run" where
  "route_for_command crc16 hm drawn c =
     map_run (\<lambda>info. case info of
        Some (SingleNode (SpecificNode route)) \<Rightarrow> Some route
      | Some (SingleNode RandomPrimary) \<Rightarrow> Some (route_new_random_primary drawn)
      | _ \<Rightarrow> None)
       (for_routable crc16 hm cmd_routable c)"

definition cross_slot_error :: RedisError where
  "cross_slot_error = error_of (Server CrossSlot) ''Received crossed slots in pipeline''"

fun choose_route :: "Route option \<Rightarrow> Route option \<Rightarrow> Route option redis_result" where
  "choose_route None next_cmd_route = Inr next_cmd_route"
| "choose_route (Some chosen) None = Inr (Some chosen)"
| "choose_route (Some chosen) (Some next') =
     (if route_slot chosen \<noteq> route_slot next' then Inl cross_slot_error
      else if route_slot_addr chosen \<noteq> Master then Inr (Some next')
      else Inr (Some chosen))"

text \<open>\<^verbatim>\<open>try_fold\<close> computes the route of a command when it reaches it.\<close>

fun fold_routes ::
    "(Cmd \<Rightarrow> Route option run) \<Rightarrow> Cmd list \<Rightarrow> Route option \<Rightarrow> Route option redis_result run" where
  "fold_routes route_of [] chosen = Ret (Inr chosen)"
| "fold_routes route_of (c # cs) chosen =
     run_bind (route_of c) (\<lambda>next'.
       case choose_route chosen next' of
         Inl e \<Rightarrow> Ret (Inl e)
       | Inr chosen' \<Rightarrow> fold_routes route_of cs chosen')"

definition route_for_pipeline ::
    "(bytes \<Rightarrow> u16) \<Rightarrow> ((Route \<times> nat list) list \<Rightarrow> (Route \<times> nat list) list) \<Rightarrow> u16 \<Rightarrow> Pipeline \<Rightarrow>
     Route option redis_result run" where
  "route_for_pipeline crc16 hm drawn p = fold_routes (route_for_command crc16 hm drawn) (commands p) None"

section \<open>Requests\<close>

datatype 'c CmdArg =
    CmdRequest Cmd "'c InternalRoutingInfo"
  | PipelineRequest Pipeline nat nat "'c InternalSingleNodeRouting"
  | ReconnectRequest NodeAddress

datatype Response = Single Value | Multiple "Value list"

datatype OperationTarget = Node NodeAddress | NotFound | FanOut

datatype ResultExpectation = External nat | Internal

record 'c PendingRequest =
  pr_retry :: u32
  pr_sender :: ResultExpectation
  pr_cmd :: "'c CmdArg"

datatype 'c Retry =
    Immediately "'c PendingRequest"
  | MoveToPending "'c PendingRequest"
  | AfterSleep "'c PendingRequest" u64

datatype PollFlushAction =
    FlushNone
  | RebuildSlots
  | FlushReconnect "NodeAddress set"
  | FlushReconnectInitial

type_synonym sends = "(nat \<times> Response redis_result) list"

fun change_state :: "PollFlushAction \<Rightarrow> PollFlushAction \<Rightarrow> PollFlushAction" where
  "change_state FlushNone next_state = next_state"
| "change_state next_state FlushNone = next_state"
| "change_state FlushReconnectInitial _ = FlushReconnectInitial"
| "change_state _ FlushReconnectInitial = FlushReconnectInitial"
| "change_state RebuildSlots _ = RebuildSlots"
| "change_state _ RebuildSlots = RebuildSlots"
| "change_state (FlushReconnect addrs) (FlushReconnect new_addrs) = FlushReconnect (addrs \<union> new_addrs)"

definition expectation_send :: "ResultExpectation \<Rightarrow> Response redis_result \<Rightarrow> sends" where
  "expectation_send s result = (case s of External ch \<Rightarrow> [(ch, result)] | Internal \<Rightarrow> [])"

definition expectation_is_closed :: "nat set \<Rightarrow> ResultExpectation \<Rightarrow> bool" where
  "expectation_is_closed closed s = (case s of External ch \<Rightarrow> ch \<in> closed | Internal \<Rightarrow> False)"

definition set_redirect :: "Redirect option \<Rightarrow> 'c CmdArg \<Rightarrow> 'c CmdArg" where
  "set_redirect redirect c = (case redirect of
     None \<Rightarrow> c
   | Some r \<Rightarrow>
       (case c of
          ReconnectRequest _ \<Rightarrow> c
        | CmdRequest command (ISingleNode route) \<Rightarrow> CmdRequest command (ISingleNode (IRedirect r route))
        | CmdRequest _ (IMultiNode _ _) \<Rightarrow> c
        | PipelineRequest p offset n route \<Rightarrow> PipelineRequest p offset n (IRedirect r route)))"

text \<open>The loop of \<^verbatim>\<open>fix_route\<close>, and the step after it.\<close>

fun strip_redirects :: "'c InternalSingleNodeRouting \<Rightarrow> 'c InternalSingleNodeRouting" where
  "strip_redirects (IRedirect _ previous_routing) = strip_redirects previous_routing"
| "strip_redirects route = route"

definition fix_route :: "'c InternalSingleNodeRouting \<Rightarrow> 'c InternalSingleNodeRouting" where
  "fix_route route = (case strip_redirects route of
     IConnection identifier _ \<Rightarrow> IByAddress identifier
   | route' \<Rightarrow> route')"

definition reset_routing :: "'c CmdArg \<Rightarrow> 'c CmdArg" where
  "reset_routing c = (case c of
     ReconnectRequest _ \<Rightarrow> c
   | CmdRequest command (ISingleNode route) \<Rightarrow> CmdRequest command (ISingleNode (fix_route route))
   | CmdRequest _ (IMultiNode _ _) \<Rightarrow> c
   | PipelineRequest p offset n route \<Rightarrow> PipelineRequest p offset n (fix_route route))"

definition unwrap_err :: "'a redis_result \<Rightarrow> RedisError run" where
  "unwrap_err r = (case r of Inl e \<Rightarrow> Ret e | Inr _ \<Rightarrow> Panic)"

definition response_error :: "Response \<Rightarrow> RedisError option run" where
  "response_error item = (case item of
     Single v \<Rightarrow>
       (if is_error_that_requires_action v then map_run Some (unwrap_err (extract_error v)) else Ret None)
   | Multiple values \<Rightarrow>
       (case position is_error_that_requires_action values of
          None \<Rightarrow> Ret None
        | Some p \<Rightarrow> map_run Some (unwrap_err (extract_error (values ! p)))))"

definition redirect_of :: "(NodeAddress \<Rightarrow> Redirect) \<Rightarrow> RedisError \<Rightarrow> Redirect option" where
  "redirect_of mk err =
     Option.bind (redirect_node err) (\<lambda>(node, _).
       case node_address_try_from node of Inr a \<Rightarrow> Some (mk a) | Inl _ \<Rightarrow> None)"

text \<open>The part of \<^verbatim>\<open>choose_response\<close> after an error has been found.\<close>

definition choose_retry ::
    "(u64 \<Rightarrow> u64 \<Rightarrow> u64) \<Rightarrow> OperationTarget \<Rightarrow> RedisError \<Rightarrow> 'c PendingRequest \<Rightarrow> RetryParams \<Rightarrow>
     ('c Retry option \<times> PollFlushAction \<times> sends) run" where
  "choose_retry rng target err request params =
     (let has_retries_remaining = pr_retry request < number_of_retries params;
          request' = request\<lparr>pr_retry := u32_saturating_add (pr_retry request) 1\<rparr>
      in run_bind (wait_time_for_retry rng params (pr_retry request')) (\<lambda>sleep_duration.
           let fail = expectation_send (pr_sender request) (Inl err);
               reset = request'\<lparr>pr_cmd := reset_routing (pr_cmd request')\<rparr>;
               redirect = (\<lambda>mk. request'\<lparr>pr_cmd := set_redirect (redirect_of mk err) (pr_cmd request')\<rparr>);
               retry_or_send = (\<lambda>retry action.
                 Ret (if has_retries_remaining then (Some retry, action, []) else (None, action, fail)))
           in (case (target, retry_method err) of
                 (_, ReconnectFromInitialConnections) \<Rightarrow>
                   retry_or_send (MoveToPending reset) FlushReconnectInitial
               | (Node address, Reconnect) \<Rightarrow>
                   retry_or_send (MoveToPending reset) (FlushReconnect {address})
               | (FanOut, _) \<Rightarrow> Ret (None, FlushNone, fail)
               | (NotFound, _) \<Rightarrow> retry_or_send (AfterSleep reset sleep_duration) RebuildSlots
               | (_, AskRedirect) \<Rightarrow> retry_or_send (Immediately (redirect AskTo)) FlushNone
               | (_, MovedRedirect) \<Rightarrow> retry_or_send (Immediately (redirect MovedTo)) RebuildSlots
               | (_, RefreshSlotsAndRetry) \<Rightarrow> retry_or_send (MoveToPending reset) RebuildSlots
               | (_, WaitAndRetry) \<Rightarrow> retry_or_send (AfterSleep request' sleep_duration) FlushNone
               | (_, NoRetry) \<Rightarrow> Ret (None, FlushNone, fail)
               | (_, RetryImmediately) \<Rightarrow> retry_or_send (MoveToPending request') FlushNone)))"

definition choose_response ::
    "(u64 \<Rightarrow> u64 \<Rightarrow> u64) \<Rightarrow> OperationTarget \<times> Response redis_result \<Rightarrow> 'c PendingRequest \<Rightarrow> RetryParams \<Rightarrow>
     ('c Retry option \<times> PollFlushAction \<times> sends) run" where
  "choose_response rng result request params =
     (case pr_cmd request of
        ReconnectRequest addr \<Rightarrow>
          Ret (None, FlushReconnect {addr}, expectation_send (pr_sender request) (Inr (Single VNil)))
      | _ \<Rightarrow>
          (case result of
             (target, Inl err) \<Rightarrow> choose_retry rng target err request params
           | (target, Inr item) \<Rightarrow>
               run_bind (response_error item) (\<lambda>error.
                 case error of
                   None \<Rightarrow> Ret (None, FlushNone, expectation_send (pr_sender request) (Inr item))
                 | Some err \<Rightarrow> choose_retry rng target err request params)))"

section \<open>Bounds of the waiting time\<close>

text \<open>What the crate \<^verbatim>\<open>rand\<close> documents of \<^verbatim>\<open>random_range\<close>.\<close>

definition samples_range :: "(u64 \<Rightarrow> u64 \<Rightarrow> u64) \<Rightarrow> bool" where
  "samples_range rng \<longleftrightarrow> (\<forall>low high. low < high \<longrightarrow> low \<le> rng low high \<and> rng low high < high)"

text \<open>Parameters under which no computation of a waiting time overflows.\<close>

definition retry_params_ok :: "RetryParams \<Rightarrow> bool" where
  "retry_params_ok p \<longleftrightarrow>
     unat (exponent_base p) ^ (unat (number_of_retries p) + 1) < 2 ^ 64 \<and>
     unat (exponent_base p) ^ (unat (number_of_retries p) + 1) * unat (factor p) < 2 ^ 64 \<and>
     unat (min_wait_time p) + 1 < 2 ^ 64"

lemma u64_checked_eq_Ret [simp]: "u64_checked n = Ret x \<longleftrightarrow> n < 2 ^ 64 \<and> x = of_nat n"
  by (auto simp: u64_checked_def)

lemma u64_checked_less [simp]: "n < 2 ^ 64 \<Longrightarrow> u64_checked n = Ret (of_nat n)"
  by simp

lemma unat_of_nat_u64: "n < 2 ^ 64 \<Longrightarrow> unat (of_nat n :: u64) = n"
  by (simp add: unat_of_nat take_bit_eq_mod)

lemma retry_power_bound:
  assumes "retry_params_ok p" and "0 < k" and "k \<le> unat (number_of_retries p) + 1"
  shows "unat (exponent_base p) ^ k < 2 ^ 64" and "unat (exponent_base p) ^ k * unat (factor p) < 2 ^ 64"
proof -
  have le: "unat (exponent_base p) ^ k \<le> unat (exponent_base p) ^ (unat (number_of_retries p) + 1)"
  proof (cases "unat (exponent_base p) = 0")
    case False
    then show ?thesis using assms(3) by (intro power_increasing) simp_all
  qed (use assms(2) in simp)
  show "unat (exponent_base p) ^ k < 2 ^ 64"
    using le assms(1) by (simp add: retry_params_ok_def)
  show "unat (exponent_base p) ^ k * unat (factor p) < 2 ^ 64"
    using mult_le_mono1 [OF le] assms(1) unfolding retry_params_ok_def by (rule le_less_trans [OF _ conjunct1 [OF conjunct2]])
qed

lemma wait_upper_bounds:
  assumes "unat min_wait + 1 < 2 ^ 64"
  shows "\<exists>high. cluster_retry_wait_upper_ms base_wait min_wait max_wait = Ret high \<and> min_wait < high \<and>
           (high \<le> max_wait \<or> high = min_wait + 1)"
proof -
  have above: "min_wait < min_wait + 1"
    using assms by (simp add: word_less_nat_alt unat_word_ariths)
  have checked: "u64_checked (unat min_wait + 1) = Ret (min_wait + 1)"
    using assms by simp
  have sat: "u64_saturating_add min_wait 1 = min_wait + 1"
    using assms by (simp add: u64_saturating_add_def)
  show ?thesis
    using above unfolding cluster_retry_wait_upper_ms_def checked run_bind_simps Let_def sat
    by (auto simp: min_def less_max_iff_disj)
qed

text \<open>C26.  The pause before a retry.  With parameters for which neither the power nor the product
  overflows, every pause computed for one of the allowed retries exists, is at least the minimal
  waiting time, and is below the maximal one unless it is exactly the minimum.\<close>

theorem retry_wait_within_bounds:
  assumes "samples_range rng" and "retry_params_ok p"
    and "0 < retry" and "unat retry \<le> unat (number_of_retries p) + 1"
  shows "\<exists>w. wait_time_for_retry rng p retry = Ret w \<and> min_wait_time p \<le> w \<and>
           (w < max_wait_time p \<or> w = min_wait_time p)"
proof -
  have pos: "0 < unat retry" using assms(3) by (simp add: word_less_nat_alt)
  let ?k = "unat (exponent_base p) ^ unat retry"
  have "?k < 2 ^ 64" "?k * unat (factor p) < 2 ^ 64"
    using retry_power_bound [OF assms(2) pos assms(4)] by simp_all
  moreover obtain high where high: "cluster_retry_wait_upper_ms (of_nat (?k * unat (factor p))) (min_wait_time p)
      (max_wait_time p) = Ret high" "min_wait_time p < high"
      "high \<le> max_wait_time p \<or> high = min_wait_time p + 1"
    using wait_upper_bounds [of "min_wait_time p"] assms(2) by (metis retry_params_ok_def)
  ultimately have "wait_time_for_retry rng p retry = Ret (rng (min_wait_time p) high)"
    by (simp add: wait_time_for_retry_def unat_of_nat_u64 random_range_def del: of_nat_mult of_nat_power)
  moreover have "min_wait_time p \<le> rng (min_wait_time p) high" "rng (min_wait_time p) high < high"
    using assms(1) high(2) by (simp_all add: samples_range_def)
  ultimately show ?thesis
    using high(3) inc_le [of "min_wait_time p" "rng (min_wait_time p) high"] by fastforce
qed

theorem retry_wait_within_bounds_witness:
  "retry_params_ok retry_params_default \<and>
   (\<exists>w. wait_time_for_retry (\<lambda>low high. low) retry_params_default 17 = Ret w \<and> 1280 \<le> w \<and> (w < 655360 \<or> w = 1280))"
proof -
  have "samples_range (\<lambda>low high. low)" by (simp add: samples_range_def)
  moreover have ok: "retry_params_ok retry_params_default"
    by (simp add: retry_params_ok_def retry_params_default_def)
  ultimately show ?thesis
    using retry_wait_within_bounds [of "\<lambda>low high. low" retry_params_default 17]
    by (simp add: retry_params_default_def)
qed

section \<open>Outcome of an attempt\<close>

fun retry_request :: "'c Retry \<Rightarrow> 'c PendingRequest" where
  "retry_request (Immediately r) = r"
| "retry_request (MoveToPending r) = r"
| "retry_request (AfterSleep r _) = r"

text \<open>What an attempt leaves: an answer on the channel of the request, or the request itself with
  one retry used up.\<close>

definition answered_or_retried ::
    "RetryParams \<Rightarrow> 'c PendingRequest \<Rightarrow> 'c Retry option \<Rightarrow> sends \<Rightarrow> bool" where
  "answered_or_retried params request retry sent =
     (case retry of
        None \<Rightarrow> \<exists>r. sent = expectation_send (pr_sender request) r
      | Some again \<Rightarrow>
          sent = [] \<and> pr_sender (retry_request again) = pr_sender request \<and>
          pr_retry request < number_of_retries params \<and>
          unat (pr_retry (retry_request again)) = unat (pr_retry request) + 1)"

lemma unat_u32_less: "unat (r :: u32) < 2 ^ 32"
  using unsigned_less [where 'a = nat and w = r] by simp

lemma unat_u32_saturating_add: "unat (u32_saturating_add r 1) = min (unat r + 1) (2 ^ 32 - 1)"
proof (cases "unat r + 1 < 2 ^ 32")
  case True
  then show ?thesis by (simp add: u32_saturating_add_def unat_word_ariths)
next
  case False
  then have "unat r = 2 ^ 32 - 1" using unat_u32_less [of r] by linarith
  then show ?thesis by (simp add: u32_saturating_add_def unsigned_minus_1_eq_mask mask_eq_exp_minus_1)
qed

lemma retry_counter_increases:
  "(r :: u32) < n \<Longrightarrow> unat (u32_saturating_add r 1) = unat r + 1"
  using unat_u32_less [of n] by (simp add: unat_u32_saturating_add word_less_nat_alt)

lemma retry_counter_positive: "0 < u32_saturating_add r 1"
  by (simp add: word_less_nat_alt unat_u32_saturating_add)

lemma retry_counter_bound: "unat (u32_saturating_add r 1) \<le> unat r + 1"
  by (simp add: unat_u32_saturating_add)

lemma wait_time_exists:
  assumes "retry_params_ok p" and "0 < retry" and "unat retry \<le> unat (number_of_retries p) + 1"
  shows "\<exists>w. wait_time_for_retry rng p retry = Ret w"
proof -
  let ?k = "unat (exponent_base p) ^ unat retry"
  have "?k < 2 ^ 64" "?k * unat (factor p) < 2 ^ 64"
    using retry_power_bound [OF assms(1) _ assms(3)] assms(2) by (simp_all add: word_less_nat_alt)
  moreover obtain high where "cluster_retry_wait_upper_ms (of_nat (?k * unat (factor p))) (min_wait_time p)
      (max_wait_time p) = Ret high" "min_wait_time p < high"
    using wait_upper_bounds [of "min_wait_time p"] assms(1) by (metis retry_params_ok_def)
  ultimately show ?thesis
    by (simp add: wait_time_for_retry_def unat_of_nat_u64 random_range_def del: of_nat_mult of_nat_power)
qed

lemma choose_retry_outcome:
  assumes "retry_params_ok params" and "pr_retry request \<le> number_of_retries params"
  shows "\<exists>retry action sent. choose_retry rng target err request params = Ret (retry, action, sent) \<and>
           answered_or_retried params request retry sent"
proof -
  let ?r = "u32_saturating_add (pr_retry request) 1"
  have "unat ?r \<le> unat (number_of_retries params) + 1"
    using retry_counter_bound [of "pr_retry request"] assms(2) by (simp add: word_le_nat_alt)
  then obtain w where w: "wait_time_for_retry rng params ?r = Ret w"
    using wait_time_exists [OF assms(1) retry_counter_positive] by blast
  have up: "pr_retry request < number_of_retries params \<Longrightarrow> unat ?r = unat (pr_retry request) + 1"
    by (rule retry_counter_increases)
  show ?thesis
    by (cases target; cases "retry_method err")
      (auto simp: choose_retry_def w Let_def answered_or_retried_def up)
qed

lemma unwrap_err_action:
  "is_error_that_requires_action v \<Longrightarrow> \<exists>e. unwrap_err (extract_error v) = Ret e"
  by (cases v) (simp_all add: is_error_that_requires_action_def unwrap_err_def)

lemma response_error_no_panic: "response_error item \<noteq> Panic"
proof (cases item)
  case (Single v)
  then show ?thesis using unwrap_err_action [of v] by (auto simp: response_error_def)
next
  case (Multiple vs)
  show ?thesis
  proof (cases "position is_error_that_requires_action vs")
    case (Some p)
    then have "is_error_that_requires_action (vs ! p)" by (rule position_Some [THEN conjunct2, THEN conjunct1])
    then show ?thesis using unwrap_err_action [of "vs ! p"] Some Multiple by (auto simp: response_error_def)
  qed (simp add: Multiple response_error_def)
qed

lemma choose_response_outcome:
  assumes "retry_params_ok params" and "pr_retry request \<le> number_of_retries params"
  shows "\<exists>retry action sent. choose_response rng result request params = Ret (retry, action, sent) \<and>
           answered_or_retried params request retry sent"
proof (cases "\<exists>a. pr_cmd request = ReconnectRequest a")
  case True
  then show ?thesis by (auto simp: choose_response_def answered_or_retried_def)
next
  case False
  obtain target outcome where result: "result = (target, outcome)" by (cases result)
  show ?thesis
  proof (cases outcome)
    case (Inl err)
    then show ?thesis using choose_retry_outcome [OF assms, of rng target err] False
      by (cases "pr_cmd request") (simp_all add: choose_response_def result)
  next
    case (Inr item)
    obtain error where error: "response_error item = Ret error"
      using response_error_no_panic [of item] by (cases "response_error item") simp_all
    show ?thesis
    proof (cases error)
      case None
      have "choose_response rng result request params =
          Ret (None, FlushNone, expectation_send (pr_sender request) (Inr item))"
        using False by (cases "pr_cmd request") (simp_all add: choose_response_def result Inr error None)
      then show ?thesis by (auto simp: answered_or_retried_def)
    next
      case (Some err)
      then show ?thesis using choose_retry_outcome [OF assms, of rng target err] False
        by (cases "pr_cmd request") (simp_all add: choose_response_def result Inr error)
    qed
  qed
qed

section \<open>Combining actions\<close>

lemma change_state_None [simp]: "change_state a FlushNone = a"
  by (cases a) simp_all

lemma change_state_comm: "change_state a b = change_state b a"
  by (cases a; cases b) auto

lemma change_state_assoc: "change_state (change_state a b) c = change_state a (change_state b c)"
  by (cases a; cases b; cases c) auto

lemma change_state_idem [simp]: "change_state a a = a"
  by (cases a) simp_all

lemma change_state_left_commute: "change_state a (change_state b c) = change_state b (change_state a c)"
  using change_state_assoc change_state_comm by metis

text \<open>The actions form a semilattice, so that the action of a batch only depends on the set of
  actions its requests ask for.\<close>

lemma foldl_change_state: "foldl change_state a as = change_state a (foldl change_state FlushNone as)"
proof (induction as arbitrary: a)
  case (Cons b as)
  show ?case using Cons.IH [of "change_state a b"] Cons.IH [of b] by (simp add: change_state_assoc)
qed simp

lemma foldl_change_state_member:
  "b \<in> set as \<Longrightarrow> change_state b (foldl change_state FlushNone as) = foldl change_state FlushNone as"
proof (induction as)
  case (Cons a as)
  have step: "foldl change_state FlushNone (a # as) = change_state a (foldl change_state FlushNone as)"
    using foldl_change_state [of a as] by simp
  show ?case
  proof (cases "b = a")
    case True
    then show ?thesis unfolding step by (metis change_state_assoc change_state_idem)
  next
    case False
    then show ?thesis unfolding step using Cons by (simp add: change_state_left_commute)
  qed
qed simp

lemma foldl_change_state_subset:
  "set bs \<subseteq> set as \<Longrightarrow> change_state (foldl change_state FlushNone bs) (foldl change_state FlushNone as) =
     foldl change_state FlushNone as"
proof (induction bs)
  case (Cons b bs)
  have "foldl change_state FlushNone (b # bs) = change_state b (foldl change_state FlushNone bs)"
    using foldl_change_state [of b bs] by simp
  then show ?case using Cons foldl_change_state_member [of b as] by (simp add: change_state_assoc)
qed simp

lemma foldl_change_state_set:
  assumes "set as = set bs"
  shows "foldl change_state FlushNone as = foldl change_state FlushNone bs"
  using foldl_change_state_subset [of as bs] foldl_change_state_subset [of bs as] assms
    change_state_comm [of "foldl change_state FlushNone as"] by simp

section \<open>Redirections\<close>

lemma strip_redirects_no_redirect [simp]: "strip_redirects r \<noteq> IRedirect d p"
  by (induction r) simp_all

lemma fix_route_IRedirect [simp]: "fix_route (IRedirect d r) = fix_route r"
  by (simp add: fix_route_def)

lemma strip_redirects_id: "(\<And>d p. r \<noteq> IRedirect d p) \<Longrightarrow> strip_redirects r = r"
  by (cases r) auto

lemma fix_route_idem [simp]: "fix_route (fix_route r) = fix_route r"
  by (simp add: fix_route_def strip_redirects_id split: InternalSingleNodeRouting.splits)

lemma reset_routing_set_redirect [simp]: "reset_routing (set_redirect d c) = reset_routing c"
  by (auto simp: reset_routing_def set_redirect_def split: CmdArg.splits option.splits InternalRoutingInfo.splits)

lemma reset_routing_idem [simp]: "reset_routing (reset_routing c) = reset_routing c"
  by (auto simp: reset_routing_def split: CmdArg.splits InternalRoutingInfo.splits)

section \<open>The route of a pipeline\<close>

text \<open>The node a command that names a slot is sent to.\<close>

definition key_route ::
    "(bytes \<Rightarrow> u16) \<Rightarrow> ((Route \<times> nat list) list \<Rightarrow> (Route \<times> nat list) list) \<Rightarrow> Cmd \<Rightarrow> Route option" where
  "key_route crc16 hm c = (case for_routable crc16 hm list_routable (simple_args c) of
     Ret (Some (SingleNode (SpecificNode r))) \<Rightarrow> Some r
   | _ \<Rightarrow> None)"

text \<open>Reference: no two routes in different slots, and the first route to a primary, or else the
  last route.\<close>

definition pipeline_route :: "Route list \<Rightarrow> Route option redis_result" where
  "pipeline_route rs =
     (if \<exists>r \<in> set rs. \<exists>r' \<in> set rs. route_slot r \<noteq> route_slot r' then Inl cross_slot_error
      else Inr (case List.find (\<lambda>r. route_slot_addr r = Master) rs of
                  Some r \<Rightarrow> Some r
                | None \<Rightarrow> if rs = [] then None else Some (last rs)))"

lemma one_slot_iff:
  "\<not> (\<exists>r \<in> set rs. \<exists>r' \<in> set rs. route_slot r \<noteq> route_slot r') \<longleftrightarrow>
     (\<exists>s. \<forall>r \<in> set rs. route_slot r = s)"
  by (cases rs) auto

lemma pipeline_route_one_slot:
  "\<forall>r \<in> set rs. route_slot r = s \<Longrightarrow>
     pipeline_route rs = Inr (case List.find (\<lambda>r. route_slot_addr r = Master) rs of
                  Some r \<Rightarrow> Some r
                | None \<Rightarrow> if rs = [] then None else Some (last rs))"
  by (simp add: pipeline_route_def)

lemma find_snoc:
  "List.find p (xs @ [x]) = (case List.find p xs of Some y \<Rightarrow> Some y | None \<Rightarrow> if p x then Some x else None)"
  by (induction xs) simp_all

lemma choose_route_step:
  assumes "pipeline_route rs = Inr chosen"
  shows "choose_route chosen (Some r) = pipeline_route (rs @ [r])"
proof -
  have "\<not> (\<exists>r \<in> set rs. \<exists>r' \<in> set rs. route_slot r \<noteq> route_slot r')"
  proof
    assume "\<exists>r \<in> set rs. \<exists>r' \<in> set rs. route_slot r \<noteq> route_slot r'"
    then show False using assms unfolding pipeline_route_def by (simp only: if_True sum.distinct)
  qed
  then obtain s where s: "\<forall>r \<in> set rs. route_slot r = s"
    unfolding one_slot_iff by (rule exE)
  have chosen: "chosen = (case List.find (\<lambda>r. route_slot_addr r = Master) rs of
                  Some r \<Rightarrow> Some r | None \<Rightarrow> if rs = [] then None else Some (last rs))"
    using assms pipeline_route_one_slot [OF s] by simp
  show ?thesis
  proof (cases chosen)
    case None
    then have "rs = []" using chosen by (cases rs) (auto split: option.splits if_splits)
    then show ?thesis using None by (simp add: pipeline_route_def)
  next
    case (Some c)
    then have c: "c \<in> set rs" using chosen
      by (auto simp: find_Some_iff split: option.splits if_splits)
    have addr: "route_slot_addr c = Master \<longleftrightarrow> List.find (\<lambda>r. route_slot_addr r = Master) rs \<noteq> None"
      using chosen Some c by (auto simp: find_Some_iff find_None_iff split: option.splits if_splits)
    show ?thesis
    proof (cases "route_slot r = s")
      case True
      then have "\<forall>x \<in> set (rs @ [r]). route_slot x = s" using s by simp
      from pipeline_route_one_slot [OF this] show ?thesis
        using True Some c s addr chosen by (auto simp: find_snoc split: option.splits)
    next
      case False
      then have "pipeline_route (rs @ [r]) = Inl cross_slot_error" using c s by (auto simp: pipeline_route_def)
      then show ?thesis using False Some c s by simp
    qed
  qed
qed

lemma pipeline_route_append_error:
  "pipeline_route rs = Inl e \<Longrightarrow> pipeline_route (rs @ rs') = Inl e"
  by (auto simp: pipeline_route_def split: if_splits)

lemma fold_routes_spec:
  assumes "\<forall>c \<in> set cs. route_of c = Ret (f c)" and "pipeline_route rs = Inr chosen"
  shows "fold_routes route_of cs chosen = Ret (pipeline_route (rs @ List.map_filter f cs))"
  using assms
proof (induction cs arbitrary: rs chosen)
  case Nil
  then show ?case by simp
next
  case (Cons c cs)
  show ?case
  proof (cases "f c")
    case None
    then have "choose_route chosen (f c) = Inr chosen" by (cases chosen) simp_all
    then show ?thesis
      using Cons.prems Cons.IH [OF _ Cons.prems(2)] None by (simp add: List.map_filter_simps)
  next
    case (Some r)
    have filter: "rs @ List.map_filter f (c # cs) = (rs @ [r]) @ List.map_filter f cs"
      by (simp add: Some List.map_filter_simps)
    note step = choose_route_step [OF Cons.prems(2), of r]
    show ?thesis
    proof (cases "pipeline_route (rs @ [r])")
      case (Inl e)
      then show ?thesis
        using Cons.prems(1) step pipeline_route_append_error [OF Inl] Some unfolding filter by simp
    next
      case (Inr chosen')
      then show ?thesis
        using Cons.prems(1) step Cons.IH [OF _ Inr] Some unfolding filter by simp
    qed
  qed
qed

text \<open>No command is routed to a random primary, so that the slot drawn for one never matters.\<close>

lemma for_key_no_random_primary [simp]: "for_key crc16 command key \<noteq> SingleNode RandomPrimary"
  by (simp add: for_key_def)

lemma after_key_count_no_random_primary [simp]:
  "after_key_count crc16 R r command n \<noteq> Ret (Some (SingleNode RandomPrimary))"
  by (auto simp: after_key_count_def monad_simps split: option.splits if_splits)

lemma multi_shard_no_random_primary [simp]:
  "multi_shard crc16 hm R r command f p \<noteq> Ret (Some (SingleNode RandomPrimary))"
  by (auto simp: multi_shard_def single_node_of_route_def monad_simps Let_def split: option.splits list.splits if_splits)

lemma for_routable_no_random_primary:
  "for_routable crc16 hm R r \<noteq> Ret (Some (SingleNode RandomPrimary))"
proof (cases "routable_command R r")
  case (Ret name)
  show ?thesis
  proof (cases name)
    case (Some n)
    show ?thesis
      by (cases "base_routing n") (auto simp: for_routable_def Ret Some monad_simps split: option.splits)
  qed (simp add: for_routable_def Ret)
qed (simp add: for_routable_def)

lemma route_for_command_plain:
  assumes "plain_cmd c"
  shows "route_for_command crc16 hm drawn c = Ret (key_route crc16 hm c)"
proof -
  have "for_routable crc16 hm cmd_routable c = for_routable crc16 hm list_routable (simple_args c)"
    by (rule cmd_request.for_routable_args [OF assms])
  moreover obtain info where "for_routable crc16 hm list_routable (simple_args c) = Ret info"
    using for_routable_list_no_panic by (cases "for_routable crc16 hm list_routable (simple_args c)") blast+
  moreover have "info \<noteq> Some (SingleNode RandomPrimary)"
    using for_routable_no_random_primary calculation(2) by metis
  ultimately show ?thesis
    by (auto simp: route_for_command_def key_route_def split: option.splits RoutingInfo.splits SingleNodeRoutingInfo.splits)
qed


definition witness_pipeline :: Pipeline where
  "witness_pipeline = pipeline_new\<lparr>commands :=
     map cmd_of_args [[''GET'', ''a''], [''SET'', ''a'', ''1''], [''PING'']]\<rparr>"


end
