(* ===== verification/Read_Routing.thy ===== *)
theory Read_Routing
  imports Slot_Map
begin

text \<open>
  The two read strategies that come with the library (\<^verbatim>\<open>read_routing/random_replica.rs\<close> and
  \<^verbatim>\<open>round_robin_replica.rs\<close>), and what the documentation of the trait \<^verbatim>\<open>ReadRoutingStrategy\<close> asks of
  every strategy, as the locale \<open>read_strategy\<close>: the chosen node is one of the candidates.
\<close>

section \<open>Strategies\<close>

definition random_route_read ::
    "(NodeAddress list \<Rightarrow> NodeAddress) \<Rightarrow> ReadCandidates \<Rightarrow> unit \<Rightarrow> (NodeAddress \<times> unit) run" where
  "random_route_read pick candidates st =
     (case candidates of
        AnyNode _ _ replicas \<Rightarrow> map_run (\<lambda>a. (a, st)) (choose_random pick replicas)
      | ReplicasOnly _ replicas \<Rightarrow> map_run (\<lambda>a. (a, st)) (choose_random pick replicas))"

definition random_strategy :: "(NodeAddress list \<Rightarrow> NodeAddress) \<Rightarrow> unit ReadRoutingStrategy" where
  "random_strategy pick = \<lparr>st_on_topology_changed = (\<lambda>_ st. st), st_route_read = random_route_read pick\<rparr>"

text \<open>The counters are shared by the ranges of a shard: the map holds the identity of a counter, the
  store its value.\<close>

record SlotCounters =
  rr_slots :: "nat slot_range_map"
  rr_counters :: "nat \<Rightarrow> u64"

definition rr_new :: SlotCounters where
  "rr_new = \<lparr>rr_slots = srm_new, rr_counters = (\<lambda>_. 0)\<rparr>"

fun insert_counter :: "nat \<Rightarrow> (u16 \<times> u16) list \<Rightarrow> nat slot_range_map \<Rightarrow> nat slot_range_map" where
  "insert_counter counter [] slots = slots"
| "insert_counter counter ((start, end') # rs) slots =
     insert_counter counter rs (srm_insert start end' counter slots)"

fun insert_counters :: "nat \<Rightarrow> Shard list \<Rightarrow> nat slot_range_map \<Rightarrow> nat slot_range_map" where
  "insert_counters counter [] slots = slots"
| "insert_counters counter (shard # shards) slots =
     insert_counters (Suc counter) shards (insert_counter counter (sh_slot_ranges shard) slots)"

definition rr_on_topology_changed :: "ClusterTopology \<Rightarrow> SlotCounters \<Rightarrow> SlotCounters" where
  "rr_on_topology_changed t st =
     \<lparr>rr_slots = insert_counters 0 (topology_shards t) srm_new, rr_counters = (\<lambda>_. 0)\<rparr>"

definition rr_route_read :: "ReadCandidates \<Rightarrow> SlotCounters \<Rightarrow> (NodeAddress \<times> SlotCounters) run" where
  "rr_route_read candidates st =
     (let (idx, st') =
            (case srm_get (rr_slots st) (rc_slot candidates) of
               Some counter \<Rightarrow>
                 (unat (rr_counters st counter),
                  st\<lparr>rr_counters := (rr_counters st)(counter := rr_counters st counter + 1)\<rparr>)
             | None \<Rightarrow> (0, st));
          replicas = rc_replicas candidates
      in if replicas = [] then Panic
         else (case get_idx replicas (idx mod length replicas) of
                 Some a \<Rightarrow> Ret (a, st')
               | None \<Rightarrow> Panic))"

definition round_robin_strategy :: "SlotCounters ReadRoutingStrategy" where
  "round_robin_strategy = \<lparr>st_on_topology_changed = rr_on_topology_changed, st_route_read = rr_route_read\<rparr>"

section \<open>The contract of a strategy\<close>

fun candidate_nodes :: "ReadCandidates \<Rightarrow> NodeAddress set" where
  "candidate_nodes (AnyNode _ primary replicas) = insert primary (set replicas)"
| "candidate_nodes (ReplicasOnly _ replicas) = set replicas"

locale read_strategy =
  fixes strategy :: "'s ReadRoutingStrategy"
  assumes chooses_candidate:
    "rc_replicas c \<noteq> [] \<Longrightarrow> \<exists>a st'. st_route_read strategy c st = Ret (a, st') \<and> a \<in> candidate_nodes c"
begin

lemma slot_addr_in_shard:
  "\<exists>a st'. slot_addr pick addrs slot sa (Some strategy) st = Ret (a, st') \<and> a \<in> set (slot_addrs_iter addrs) \<and>
           (sa = Master \<longrightarrow> a = sa_primary addrs) \<and>
           (sa = ReplicaRequired \<and> sa_replicas addrs \<noteq> [] \<longrightarrow> a \<in> set (sa_replicas addrs))"
  using chooses_candidate [of "AnyNode slot (sa_primary addrs) (sa_replicas addrs)" st]
    chooses_candidate [of "ReplicasOnly slot (sa_replicas addrs)" st]
  by (cases sa) (auto simp: slot_addr_def replicas_new_def slot_addrs_iter_def)

lemma slot_addr_for_route_owner:
  assumes "disjoint_ranges (slot_ranges_of slots)" and "r \<in> set slots"
    and "sr_start r \<le> route_slot route" and "route_slot route \<le> sr_end r"
  shows "\<exists>a st'. slot_addr_for_route pick (from_slots slots) route (Some strategy) st = Ret (Some a, st') \<and>
           a \<in> set (sr_master r # sr_replicas r) \<and>
           (route_slot_addr route = Master \<longrightarrow> a = sr_master r) \<and>
           (route_slot_addr route = ReplicaRequired \<and> sr_replicas r \<noteq> [] \<longrightarrow> a \<in> set (sr_replicas r))"
proof -
  have "srm_get (from_slots slots) (route_slot route) = Some (slot_addrs_from_slot r)"
    using srm_get_from_slots [OF assms(1)] assms(2-4) by blast
  then show ?thesis
    using slot_addr_in_shard [of pick "slot_addrs_from_slot r" "route_slot route" "route_slot_addr route" st]
    by (auto simp: slot_addr_for_route_def slot_addrs_from_slot_def slot_addrs_iter_def)
qed

lemma slot_addr_for_route_total: "\<exists>a st'. slot_addr_for_route pick m route (Some strategy) st = Ret (a, st')"
proof (cases "srm_get m (route_slot route)")
  case (Some addrs)
  obtain a st' where "slot_addr pick addrs (route_slot route) (route_slot_addr route) (Some strategy) st = Ret (a, st')"
    using slot_addr_in_shard by blast
  then show ?thesis using Some by (simp add: slot_addr_for_route_def)
qed (simp add: slot_addr_for_route_def)

lemma addresses_for_multi_slot_total:
  "\<exists>as st'. addresses_for_multi_slot pick m routes (Some strategy) st = Ret (as, st') \<and> length as = length routes"
proof (induction routes arbitrary: st)
  case (Cons x routes)
  obtain route ks where x: "x = (route, ks)" by (cases x)
  obtain a st1 where 1: "slot_addr_for_route pick m route (Some strategy) st = Ret (a, st1)"
    using slot_addr_for_route_total by blast
  obtain as st2 where "addresses_for_multi_slot pick m routes (Some strategy) st1 = Ret (as, st2)" "length as = length routes"
    using Cons.IH by blast
  then show ?case using 1 by (simp add: x)
qed simp

end

text \<open>What \<^verbatim>\<open>rand\<close> documents of a choice from a non-empty slice.\<close>

locale random_choice =
  fixes pick :: "NodeAddress list \<Rightarrow> NodeAddress"
  assumes pick_in: "xs \<noteq> [] \<Longrightarrow> pick xs \<in> set xs"

sublocale random_choice \<subseteq> random_read: read_strategy "random_strategy pick"
proof
  fix c st assume "rc_replicas c \<noteq> []"
  then show "\<exists>a st'. st_route_read (random_strategy pick) c st = Ret (a, st') \<and> a \<in> candidate_nodes c"
    using pick_in by (cases c) (auto simp: random_strategy_def random_route_read_def choose_random_def)
qed

context random_choice
begin

lemmas random_owner = random_read.slot_addr_for_route_owner

end

interpretation first_choice: random_choice hd
  by unfold_locales simp

lemma rr_route_read_counter:
  "srm_get (rr_slots st) (rc_slot c) = Some k \<Longrightarrow> rc_replicas c \<noteq> [] \<Longrightarrow>
     rr_route_read c st =
       Ret (rc_replicas c ! (unat (rr_counters st k) mod length (rc_replicas c)),
            st\<lparr>rr_counters := (rr_counters st)(k := rr_counters st k + 1)\<rparr>)"
  by (simp add: rr_route_read_def get_idx_def Let_def)

lemma rr_route_read_no_counter:
  "srm_get (rr_slots st) (rc_slot c) = None \<Longrightarrow> rc_replicas c \<noteq> [] \<Longrightarrow>
     rr_route_read c st = Ret (rc_replicas c ! 0, st)"
  by (simp add: rr_route_read_def get_idx_def Let_def)

interpretation round_robin: read_strategy round_robin_strategy
proof
  fix c :: ReadCandidates and st assume ne: "rc_replicas c \<noteq> []"
  then have "rc_replicas c ! (i mod length (rc_replicas c)) \<in> candidate_nodes c" for i
    by (cases c) auto
  moreover have "rc_replicas c ! 0 \<in> candidate_nodes c" using ne by (cases c) auto
  ultimately show "\<exists>a st'. st_route_read round_robin_strategy c st = Ret (a, st') \<and> a \<in> candidate_nodes c"
    using rr_route_read_counter [OF _ ne] rr_route_read_no_counter [OF _ ne]
    by (cases "srm_get (rr_slots st) (rc_slot c)") (auto simp: round_robin_strategy_def)
qed

text \<open>C24.  Under the round robin and the random strategy every request for a slot of a range goes to a
  node of that range: writes to its primary, reads that need a replica to one of its replicas when
  it has any, and the choice never panics.\<close>

theorem strategies_stay_in_shard:
  assumes "disjoint_ranges (slot_ranges_of slots)" and "r \<in> set slots"
    and "sr_start r \<le> route_slot route" and "route_slot route \<le> sr_end r"
    and "\<And>xs. xs \<noteq> [] \<Longrightarrow> pick xs \<in> set xs"
  shows "(\<exists>a st'. slot_addr_for_route pick (from_slots slots) route (Some round_robin_strategy) st = Ret (Some a, st') \<and>
           a \<in> set (sr_master r # sr_replicas r) \<and>
           (route_slot_addr route = Master \<longrightarrow> a = sr_master r) \<and>
           (route_slot_addr route = ReplicaRequired \<and> sr_replicas r \<noteq> [] \<longrightarrow> a \<in> set (sr_replicas r))) \<and>
         (\<exists>a. slot_addr_for_route pick (from_slots slots) route (Some (random_strategy pick)) () = Ret (Some a, ()) \<and>
           a \<in> set (sr_master r # sr_replicas r) \<and>
           (route_slot_addr route = Master \<longrightarrow> a = sr_master r) \<and>
           (route_slot_addr route = ReplicaRequired \<and> sr_replicas r \<noteq> [] \<longrightarrow> a \<in> set (sr_replicas r)))"
proof -
  have "random_choice pick" by unfold_locales (rule assms(5))
  from random_choice.random_owner [OF this assms(1-4), of pick "()"]
    round_robin.slot_addr_for_route_owner [OF assms(1-4), of pick st]
  show ?thesis by auto
qed

theorem strategies_stay_in_shard_witness:
  "\<exists>a. slot_addr_for_route hd (from_slots witness_slots) (Route 7 ReplicaRequired) (Some (random_strategy hd)) () =
        Ret (Some a, ()) \<and> a \<in> {NodeAddress ''c'' 3}"
proof -
  let ?r = "\<lparr>sr_start = 0, sr_end = 8191, sr_master = NodeAddress ''a'' 1, sr_replicas = [NodeAddress ''c'' 3]\<rparr>"
  have "disjoint_ranges (slot_ranges_of witness_slots)" "?r \<in> set witness_slots"
    by (simp_all add: witness_slots_def slot_ranges_of_def)
  from strategies_stay_in_shard [OF this, of "Route 7 ReplicaRequired" hd rr_new]
  show ?thesis by simp
qed

section \<open>Fairness of the rotation\<close>

fun rr_reads :: "ReadCandidates list \<Rightarrow> SlotCounters \<Rightarrow> (NodeAddress list \<times> SlotCounters) run" where
  "rr_reads [] st = Ret ([], st)"
| "rr_reads (c # cs) st =
     run_bind (rr_route_read c st) (\<lambda>(a, st'). map_run (\<lambda>(as, st''). (a # as, st'')) (rr_reads cs st'))"

text \<open>The answers among \<open>as\<close> to the requests that use counter \<open>k\<close>.\<close>

definition answers_of :: "(u16 \<Rightarrow> nat option) \<Rightarrow> nat \<Rightarrow> ReadCandidates list \<Rightarrow> NodeAddress list \<Rightarrow> NodeAddress list" where
  "answers_of ctr k cs as = map snd (filter (\<lambda>(c, _). ctr (rc_slot c) = Some k) (zip cs as))"

lemma answers_of_Cons:
  "answers_of ctr k (c # cs) (a # as) =
     (if ctr (rc_slot c) = Some k then a # answers_of ctr k cs as else answers_of ctr k cs as)"
  by (simp add: answers_of_def)

lemma rr_reads_rotate:
  assumes "\<forall>c \<in> set cs. rc_replicas c \<noteq> []"
    and "\<forall>c \<in> set cs. srm_get (rr_slots st) (rc_slot c) = Some k \<longrightarrow> rc_replicas c = rs"
    and "unat (rr_counters st k) + length cs < 2 ^ 64"
  shows "\<exists>as st'. rr_reads cs st = Ret (as, st') \<and> length as = length cs \<and> rr_slots st' = rr_slots st \<and>
           answers_of (srm_get (rr_slots st)) k cs as =
             map (\<lambda>j. rs ! ((unat (rr_counters st k) + j) mod length rs))
               [0..<length (filter (\<lambda>c. srm_get (rr_slots st) (rc_slot c) = Some k) cs)]"
  using assms
proof (induction cs arbitrary: st)
  case (Cons c cs)
  let ?ctr = "srm_get (rr_slots st)"
  show ?case
  proof (cases "?ctr (rc_slot c)")
    case None
    from Cons.IH [of st] Cons.prems obtain as st' where
      "rr_reads cs st = Ret (as, st')" "length as = length cs" "rr_slots st' = rr_slots st"
      "answers_of ?ctr k cs as = map (\<lambda>j. rs ! ((unat (rr_counters st k) + j) mod length rs))
         [0..<length (filter (\<lambda>c. ?ctr (rc_slot c) = Some k) cs)]" by auto
    then show ?thesis using None Cons.prems(1) rr_route_read_no_counter [OF None]
      by (simp add: answers_of_Cons)
  next
    case (Some i)
    let ?st = "st\<lparr>rr_counters := (rr_counters st)(i := rr_counters st i + 1)\<rparr>"
    let ?n = "unat (rr_counters st k)" and ?n' = "unat (rr_counters ?st k)"
    have n': "?n' = (if i = k then Suc ?n else ?n)"
      using Cons.prems(3) by (auto simp: unat_word_ariths)
    then have "?n' + length cs < 2 ^ 64" using Cons.prems(3) by auto
    with Cons.IH [of ?st] Cons.prems obtain as st' where
      r: "rr_reads cs ?st = Ret (as, st')" "length as = length cs" "rr_slots st' = rr_slots st"
      "answers_of ?ctr k cs as = map (\<lambda>j. rs ! ((?n' + j) mod length rs))
         [0..<length (filter (\<lambda>c. ?ctr (rc_slot c) = Some k) cs)]" by auto
    have first: "rr_route_read c st = Ret (rc_replicas c ! (unat (rr_counters st i) mod length (rc_replicas c)), ?st)"
      using rr_route_read_counter [OF Some] Cons.prems(1) by simp
    show ?thesis
    proof (cases "i = k")
      case True
      then have rs: "rc_replicas c = rs" using Cons.prems(2) Some by simp
      have "map (\<lambda>j. rs ! ((Suc ?n + j) mod length rs)) [0..<m] = map (\<lambda>j. rs ! ((?n + j) mod length rs)) [1..<Suc m]" for m
        by (simp add: map_Suc_upt [symmetric] comp_def del: upt_Suc)
      moreover have "[0..<Suc m] = 0 # [1..<Suc m]" for m by (simp add: upt_rec)
      ultimately show ?thesis using True Some r first n' rs by (simp add: answers_of_Cons del: upt_Suc)
    next
      case False
      then show ?thesis using Some r first n' by (simp add: answers_of_Cons)
    qed
  qed
qed (simp add: answers_of_def)

section \<open>One counter per shard\<close>

lemma add_to_builders_primaries:
  "map sh_primary (add_to_builders (s, e, addrs) bs) =
     (if sa_primary addrs \<in> set (map sh_primary bs) then map sh_primary bs else map sh_primary bs @ [sa_primary addrs])"
  by (induction "(s, e, addrs)" bs rule: add_to_builders.induct) auto

lemma add_to_builders_nonempty:
  "\<forall>b \<in> set bs. sh_slot_ranges b \<noteq> [] \<Longrightarrow> \<forall>b \<in> set (add_to_builders r bs). sh_slot_ranges b \<noteq> []"
  by (induction r bs rule: add_to_builders.induct) auto

lemma builders_wf:
  "distinct (map sh_primary bs) \<Longrightarrow> \<forall>b \<in> set bs. sh_slot_ranges b \<noteq> [] \<Longrightarrow>
     distinct (map sh_primary (foldl (\<lambda>bs r. add_to_builders r bs) bs rs)) \<and>
     (\<forall>b \<in> set (foldl (\<lambda>bs r. add_to_builders r bs) bs rs). sh_slot_ranges b \<noteq> [])"
proof (induction rs arbitrary: bs)
  case (Cons r rs)
  obtain s e addrs where r: "r = (s, e, addrs)" by (cases r)
  have "distinct (map sh_primary (add_to_builders r bs))"
    using Cons.prems(1) by (simp add: r add_to_builders_primaries)
  then show ?case using Cons.IH add_to_builders_nonempty [OF Cons.prems(2)] by simp
qed simp

lemma first_seen_spec:
  "distinct (map fst (first_seen seen xs)) \<and> set (map fst (first_seen seen xs)) = set (map fst xs) - set seen \<and>
   set (first_seen seen xs) \<subseteq> set xs"
  by (induction seen xs rule: first_seen.induct) (auto simp: image_iff)

definition counter_ranges :: "nat \<Rightarrow> Shard list \<Rightarrow> (u16 \<times> u16 \<times> nat) list" where
  "counter_ranges c shards = concat (map (\<lambda>(i, b). map (\<lambda>(s, e). (s, e, i)) (sh_slot_ranges b)) (enumerate c shards))"

lemma insert_counter_fold:
  "insert_counter c rs m = foldl (\<lambda>m (s, e, v). srm_insert s e v m) m (map (\<lambda>(s, e). (s, e, c)) rs)"
  by (induction c rs m rule: insert_counter.induct) auto

lemma insert_counters_fold:
  "insert_counters c shards m = foldl (\<lambda>m (s, e, v). srm_insert s e v m) m (counter_ranges c shards)"
  by (induction c shards m rule: insert_counters.induct) (auto simp: insert_counter_fold counter_ranges_def)

lemma bounds_counter_ranges: "bounds_of (counter_ranges c shards) = bounds_of (builder_ranges shards)"
  by (induction shards arbitrary: c)
     (auto simp: bounds_of_def counter_ranges_def builder_ranges_def case_prod_beta comp_def)

lemma in_counter_ranges:
  "(s, e, i) \<in> set (counter_ranges c shards) \<longleftrightarrow> (\<exists>b. (i, b) \<in> set (enumerate c shards) \<and> (s, e) \<in> set (sh_slot_ranges b))"
  by (force simp: counter_ranges_def)

text \<open>The shards of a topology are its builders, each once.\<close>

lemma topology_shards_perm:
  assumes "srm_ok m" and "bs = foldl (\<lambda>bs r. add_to_builders r bs) [] (srm_iter m)"
  shows "mset (topology_shards (topology m)) = mset bs"
proof -
  let ?t = "topology m"
  have ne: "\<forall>b \<in> set bs. sh_slot_ranges b \<noteq> []" using builders_wf [of "[]" "srm_iter m"] assms(2) by simp
  have rng: "set (srm_iter ?t) = set (shard_ranges 0 bs)"
    using srm.inv_from_empty [OF topology_ranges_disjoint [OF assms]]
    by (simp add: topology_def from_shards_def from_shards_at_fold flip: assms(2))
  have vals: "set (srm_values ?t) = set (enumerate 0 bs)"
  proof -
    have "set (srm_values ?t) = (\<lambda>(s, e, v). v) ` set (shard_ranges 0 bs)"
      unfolding srm_values_iter set_map rng ..
    also have "\<dots> = set (enumerate 0 bs)"
    proof (intro set_eqI iffI)
      fix x assume x_in: "x \<in> set (enumerate 0 bs)"
      obtain p b where x: "x = (p, b)" by (cases x)
      have "b \<in> set bs" using x_in enumerate_has [of b 0 bs] by (auto simp: x)
      then obtain s e where "(s, e) \<in> set (sh_slot_ranges b)" using ne by (cases "sh_slot_ranges b") auto
      then have "(s, e, p, b) \<in> set (shard_ranges 0 bs)" using x_in by (simp add: in_shard_ranges x)
      then show "x \<in> (\<lambda>(s, e, v). v) ` set (shard_ranges 0 bs)" by (force simp: x)
    qed (auto simp: in_shard_ranges)
    finally show ?thesis .
  qed
  let ?fs = "first_seen [] (srm_values ?t)"
  have fs: "distinct (map fst ?fs)" "fst ` set ?fs = fst ` set (enumerate 0 bs)" "set ?fs \<subseteq> set (enumerate 0 bs)"
    using first_seen_spec [of "[]" "srm_values ?t"] vals by auto
  have d: "distinct (map fst (enumerate 0 bs))" by (simp add: enumerate_eq_zip)
  then have inj: "distinct (enumerate 0 bs)" "inj_on fst (set (enumerate 0 bs))"
    unfolding distinct_map by blast+
  have "set ?fs = set (enumerate 0 bs)"
    using inj_on_image_eq_iff [OF inj(2) fs(3) subset_refl] fs(2) by simp
  then have "mset ?fs = mset (enumerate 0 bs)"
    using fs(1) inj(1) by (simp add: distinct_map set_eq_iff_mset_eq_distinct)
  then have "image_mset snd (mset ?fs) = image_mset snd (mset (enumerate 0 bs))" by simp
  then show ?thesis by (simp add: topology_shards_def flip: mset_map)
qed

lemma mset_concat_map: "mset (concat (map f xs)) = (\<Sum>x \<in># mset xs. mset (f x))"
  by (induction xs) auto

text \<open>The shards of the topology have distinct primaries, and their ranges are those of the slot
  map.\<close>

lemma topology_shards_spec:
  assumes "srm_ok m"
  defines "shards \<equiv> topology_shards (topology m)"
  shows "distinct (map sh_primary shards)" and "disjoint_ranges (counter_ranges 0 shards)"
    and "(\<exists>b \<in> set shards. (s, e) \<in> set (sh_slot_ranges b) \<and> sh_primary b = p) \<longleftrightarrow>
         (\<exists>addrs. (s, e, addrs) \<in> set (srm_iter m) \<and> sa_primary addrs = p)"
proof -
  define bs where "bs = foldl (\<lambda>bs r. add_to_builders r bs) [] (srm_iter m)"
  have perm: "mset shards = mset bs" unfolding shards_def by (rule topology_shards_perm [OF assms(1) bs_def])
  have "distinct (map sh_primary bs)" using builders_wf [of "[]" "srm_iter m"] by (simp add: bs_def)
  then show "distinct (map sh_primary shards)" using perm by (metis mset_eq_imp_distinct_iff mset_map)
  have br: "mset (builder_ranges shards) = mset (builder_ranges bs)"
    unfolding builder_ranges_def mset_concat_map perm ..
  have "mset (bounds_of (srm_iter m)) = mset (bounds_of (counter_ranges 0 shards))"
    unfolding bounds_counter_ranges topology_ranges(2) [OF assms(1) bs_def, symmetric]
    using br by (simp add: bounds_of_def)
  then show "disjoint_ranges (counter_ranges 0 shards)"
    by (rule disjoint_ranges_bounds_perm [OF _ srm_iter_disjoint [OF assms(1)]])
  have "(\<exists>b \<in> set shards. (s, e) \<in> set (sh_slot_ranges b) \<and> sh_primary b = p) \<longleftrightarrow>
      (s, e, p) \<in> set (builder_ranges shards)" unfolding in_builder_ranges by blast
  also have "\<dots> \<longleftrightarrow> (s, e, p) \<in> (\<lambda>(s, e, addrs). (s, e, sa_primary addrs)) ` set (srm_iter m)"
    unfolding mset_eq_setD [OF br] topology_ranges(1) [OF assms(1) bs_def] ..
  finally show "(\<exists>b \<in> set shards. (s, e) \<in> set (sh_slot_ranges b) \<and> sh_primary b = p) \<longleftrightarrow>
         (\<exists>addrs. (s, e, addrs) \<in> set (srm_iter m) \<and> sa_primary addrs = p)" by force
qed

lemma rr_get_counter:
  assumes "srm_ok m" and "st = rr_on_topology_changed (topology m) st0"
  shows "srm_get (rr_slots st) slot = Some i \<longleftrightarrow>
      (\<exists>s e b. (i, b) \<in> set (enumerate 0 (topology_shards (topology m))) \<and> (s, e) \<in> set (sh_slot_ranges b) \<and>
         s \<le> slot \<and> slot \<le> e)"
  unfolding assms(2) rr_on_topology_changed_def
  using srm.get_from_empty [OF topology_shards_spec(2) [OF assms(1)]]
  by (auto simp: insert_counters_fold in_counter_ranges)

text \<open>The counter of a slot after a change of topology: slots share one exactly when their ranges have
  the same primary.\<close>

lemma rr_counter_of_slot:
  assumes "srm_ok m" and "st = rr_on_topology_changed (topology m) st0"
  shows "\<exists>ctr. \<forall>slot. srm_get (rr_slots st) slot = Option.bind (srm_get m slot) (\<lambda>addrs. ctr (sa_primary addrs)) \<and>
           (\<forall>addrs. srm_get m slot = Some addrs \<longrightarrow> ctr (sa_primary addrs) \<noteq> None) \<and>
           (\<forall>p q. ctr p = ctr q \<longrightarrow> ctr p \<noteq> None \<longrightarrow> p = q)"
proof -
  let ?shards = "topology_shards (topology m)"
  note dist = topology_shards_spec(1) [OF assms(1)] and rng = topology_shards_spec(3) [OF assms(1)]
    and get = rr_get_counter [OF assms]
  define ctr where "ctr p = map_of (map (\<lambda>(i, b). (sh_primary b, i)) (enumerate 0 ?shards)) p" for p
  have keys: "map fst (map (\<lambda>(i, b). (sh_primary b, i)) (enumerate 0 ?shards)) = map sh_primary ?shards"
    by (simp add: comp_def case_prod_beta flip: map_map [of sh_primary snd, unfolded comp_def])
  have dk: "distinct (map fst (map (\<lambda>(i, b). (sh_primary b, i)) (enumerate 0 ?shards)))"
    unfolding keys by (rule dist)
  have ctr: "ctr p = Some i \<longleftrightarrow> (\<exists>b. (i, b) \<in> set (enumerate 0 ?shards) \<and> sh_primary b = p)" for p i
    unfolding ctr_def map_of_eq_Some_iff [OF dk] by force
  have eq: "srm_get (rr_slots st) slot = Option.bind (srm_get m slot) (\<lambda>addrs. ctr (sa_primary addrs))" for slot
  proof (cases "srm_get m slot")
    case (Some addrs)
    then obtain s e where "(s, e, addrs) \<in> set (srm_iter m)" and se: "s \<le> slot" "slot \<le> e"
      using srm.get_law [OF assms(1)] by blast
    then obtain b where b: "b \<in> set ?shards" "(s, e) \<in> set (sh_slot_ranges b)" "sh_primary b = sa_primary addrs"
      using rng by blast
    then obtain i where i: "(i, b) \<in> set (enumerate 0 ?shards)" using enumerate_has [of b 0 ?shards] by blast
    then show ?thesis using get [of slot i] ctr [of "sa_primary addrs" i] b se Some by auto
  next
    case None
    have False if g: "srm_get (rr_slots st) slot = Some i" for i
    proof -
      obtain s e b where "(i, b) \<in> set (enumerate 0 ?shards)" "(s, e) \<in> set (sh_slot_ranges b)" and se: "s \<le> slot" "slot \<le> e"
        using get [of slot i] g by blast
      then obtain addrs where "(s, e, addrs) \<in> set (srm_iter m)" using rng enumerate_has [of b 0 ?shards] by blast
      then show False using srm.get_law [OF assms(1), of slot addrs] se None by auto
    qed
    then show ?thesis using None by (cases "srm_get (rr_slots st) slot") auto
  qed
  moreover have "ctr (sa_primary addrs) \<noteq> None" if "srm_get m slot = Some addrs" for slot addrs
  proof -
    from that obtain s e where "(s, e, addrs) \<in> set (srm_iter m)" using srm.get_law [OF assms(1)] by blast
    then obtain b where "b \<in> set ?shards" "sh_primary b = sa_primary addrs" using rng by blast
    then show ?thesis using ctr enumerate_has [of b 0 ?shards] by auto
  qed
  moreover have "p = q" if "ctr p = ctr q" "ctr p \<noteq> None" for p q
  proof -
    from that obtain i where "ctr p = Some i" "ctr q = Some i" by auto
    then show ?thesis by (auto simp: ctr in_set_enumerate_eq)
  qed
  ultimately show ?thesis by (intro exI [of _ ctr]) blast
qed

text \<open>C25.  Round robin rotates through the replicas of each shard by itself: after a change of
  topology, and for any sequence of reads over any shards, the reads of the shard with primary
  \<open>P\<close> are answered by its replicas in turn, in their order, whatever reads of other shards come in
  between.\<close>

theorem round_robin_rotates_per_shard:
  assumes "srm_ok m" and "st = rr_on_topology_changed (topology m) st0"
    and "\<And>c. c \<in> set cs \<Longrightarrow> \<exists>addrs. srm_get m (rc_slot c) = Some addrs \<and> rc_replicas c \<noteq> [] \<and>
           (sa_primary addrs = P \<longrightarrow> rc_replicas c = rs)"
    and "length cs < 2 ^ 64"
  shows "\<exists>as st'. rr_reads cs st = Ret (as, st') \<and> length as = length cs \<and>
           map snd (filter (\<lambda>(c, _). map_option sa_primary (srm_get m (rc_slot c)) = Some P) (zip cs as)) =
           map (\<lambda>j. rs ! (j mod length rs))
             [0..<length (filter (\<lambda>c. map_option sa_primary (srm_get m (rc_slot c)) = Some P) cs)]"
proof -
  obtain ctr where ctr: "\<And>slot. srm_get (rr_slots st) slot = Option.bind (srm_get m slot) (\<lambda>addrs. ctr (sa_primary addrs))"
      "\<And>slot addrs. srm_get m slot = Some addrs \<Longrightarrow> ctr (sa_primary addrs) \<noteq> None"
      "\<And>p q. ctr p = ctr q \<Longrightarrow> ctr p \<noteq> None \<Longrightarrow> p = q"
    using rr_counter_of_slot [OF assms(1,2)] by blast
  have "finite ((\<lambda>c. srm_get (rr_slots st) (rc_slot c)) ` set cs)" by simp
  then obtain u where u: "Some u \<notin> (\<lambda>c. srm_get (rr_slots st) (rc_slot c)) ` set cs"
    using ex_new_if_finite [of "range (Some :: nat \<Rightarrow> nat option) \<inter> _"] infinite_UNIV_nat
    by (metis finite_imageD finite_subset image_subset_iff inj_Some rangeE subsetI)
  define k where "k = (case ctr P of Some k \<Rightarrow> k | None \<Rightarrow> u)"
  have k: "ctr P = Some k \<or> ctr P = None \<and> (\<forall>c \<in> set cs. srm_get (rr_slots st) (rc_slot c) \<noteq> Some k)"
    using u by (cases "ctr P") (simp_all add: k_def image_iff, metis)
  have uses: "srm_get (rr_slots st) (rc_slot c) = Some k \<longleftrightarrow> map_option sa_primary (srm_get m (rc_slot c)) = Some P"
    if c: "c \<in> set cs" for c
  proof -
    obtain addrs where a: "srm_get m (rc_slot c) = Some addrs" using assms(3) [OF c] by blast
    then show ?thesis using k ctr(1) [of "rc_slot c"] ctr(2) [OF a] ctr(3) [of "sa_primary addrs" P] c by auto
  qed
  have zero: "rr_counters st k = 0" by (simp add: assms(2) rr_on_topology_changed_def)
  have "\<forall>c \<in> set cs. rc_replicas c \<noteq> []" using assms(3) by blast
  moreover have "\<forall>c \<in> set cs. srm_get (rr_slots st) (rc_slot c) = Some k \<longrightarrow> rc_replicas c = rs"
    using assms(3) uses by fastforce
  ultimately obtain as st' where r: "rr_reads cs st = Ret (as, st')" "length as = length cs"
      "answers_of (srm_get (rr_slots st)) k cs as = map (\<lambda>j. rs ! (j mod length rs))
         [0..<length (filter (\<lambda>c. srm_get (rr_slots st) (rc_slot c) = Some k) cs)]"
    using rr_reads_rotate [of cs st k rs] assms(4) by (auto simp: zero)
  have "filter (\<lambda>(c, _). srm_get (rr_slots st) (rc_slot c) = Some k) (zip cs as) =
      filter (\<lambda>(c, _). map_option sa_primary (srm_get m (rc_slot c)) = Some P) (zip cs as)"
    using uses by (intro filter_cong) (auto dest: set_zip_leftD)
  moreover have "filter (\<lambda>c. srm_get (rr_slots st) (rc_slot c) = Some k) cs =
      filter (\<lambda>c. map_option sa_primary (srm_get m (rc_slot c)) = Some P) cs"
    using uses by (intro filter_cong) auto
  ultimately show ?thesis using r by (auto simp: answers_of_def)
qed

theorem round_robin_rotates_per_shard_witness:
  "\<exists>as st'. rr_reads (replicate 3 (ReplicasOnly 7 [NodeAddress ''c'' 3, NodeAddress ''d'' 4]))
      (rr_on_topology_changed (topology (from_slots witness_slots)) rr_new) = Ret (as, st') \<and>
     as = [NodeAddress ''c'' 3, NodeAddress ''d'' 4, NodeAddress ''c'' 3]"
proof -
  let ?c = "ReplicasOnly 7 [NodeAddress ''c'' 3, NodeAddress ''d'' 4]"
  have ok: "srm_ok (from_slots witness_slots)"
    by (rule srm_ok_from_slots) (simp add: witness_slots_def slot_ranges_of_def)
  have g: "srm_get (from_slots witness_slots) 7 = Some \<lparr>sa_primary = NodeAddress ''a'' 1, sa_replicas = [NodeAddress ''c'' 3]\<rparr>"
    by code_simp
  obtain as st' where r: "rr_reads (replicate 3 ?c) (rr_on_topology_changed (topology (from_slots witness_slots)) rr_new) = Ret (as, st')"
      "length as = 3"
      "map snd (filter (\<lambda>(c, _). map_option sa_primary (srm_get (from_slots witness_slots) (rc_slot c)) = Some (NodeAddress ''a'' 1)) (zip (replicate 3 ?c) as)) =
       map (\<lambda>j. rc_replicas ?c ! (j mod length (rc_replicas ?c))) [0..<length (filter (\<lambda>c. map_option sa_primary (srm_get (from_slots witness_slots) (rc_slot c)) = Some (NodeAddress ''a'' 1)) (replicate 3 ?c))]"
    using round_robin_rotates_per_shard [OF ok refl, of "replicate 3 ?c" "NodeAddress ''a'' 1" "rc_replicas ?c" rr_new] g by auto
  then obtain x y z where "as = [x, y, z]" by (auto simp: numeral_3_eq_3 length_Suc_conv)
  then show ?thesis using r by (simp add: g numeral_3_eq_3)
qed

end
