(* ===== verification/Subscription_Tracker.thy ===== *)
theory Subscription_Tracker
  imports Pipelines Cluster_Routing Arg_Roundtrip "HOL-Library.Char_ord" "HOL-Library.List_Lexorder"
begin

text \<open>
  The tracker of subscriptions (\<^verbatim>\<open>subscription_tracker.rs\<close>), from which the managed connections
  subscribe again after a reconnect.  A \<^verbatim>\<open>HashSet\<close> is a set; the order in which it is iterated is
  the parameter \<open>hs\<close>, of which only is known that it yields every element once.  \<open>itoa\<close> is the
  integer formatting of the crate of that name.
\<close>

record SubscriptionTracker =
  subscriptions :: "bytes set"
  s_subscriptions :: "bytes set"
  p_subscriptions :: "bytes set"

definition tracker_default :: SubscriptionTracker where
  "tracker_default = \<lparr>subscriptions = {}, s_subscriptions = {}, p_subscriptions = {}\<rparr>"

datatype SubscriptionAction =
    ActSubscribe
  | ActUnsubscribe
  | ActPSubscribe
  | ActPUnsubscribe
  | ActSSubscribe
  | ActSunsubscribe

fun additive :: "SubscriptionAction \<Rightarrow> bool" where
  "additive ActSubscribe = True"
| "additive ActPSubscribe = True"
| "additive ActSSubscribe = True"
| "additive ActUnsubscribe = False"
| "additive ActPUnsubscribe = False"
| "additive ActSunsubscribe = False"

definition simple_data :: "bytes Arg \<Rightarrow> bytes option" where
  "simple_data a = (case a of Simple d \<Rightarrow> Some d | Cursor \<Rightarrow> None)"

definition subscription_action :: "bytes \<Rightarrow> SubscriptionAction option" where
  "subscription_action first_arg =
     (if eq_ignore_ascii_case first_arg ''SUBSCRIBE'' then Some ActSubscribe
      else if eq_ignore_ascii_case first_arg ''PSUBSCRIBE'' then Some ActPSubscribe
      else if eq_ignore_ascii_case first_arg ''SSUBSCRIBE'' then Some ActSSubscribe
      else if eq_ignore_ascii_case first_arg ''UNSUBSCRIBE'' then Some ActUnsubscribe
      else if eq_ignore_ascii_case first_arg ''PUNSUBSCRIBE'' then Some ActPUnsubscribe
      else if eq_ignore_ascii_case first_arg ''SUNSUBSCRIBE'' then Some ActSunsubscribe
      else None)"

definition tracker_to_request :: "Cmd \<Rightarrow> (SubscriptionAction \<times> bytes list) option run" where
  "tracker_to_request c =
     map_run (\<lambda>args_iter'.
       case args_iter' of
         [] \<Rightarrow> None
       | Cursor # _ \<Rightarrow> None
       | Simple arg # rest \<Rightarrow>
           Option.bind (from_utf8 arg) (\<lambda>first_arg.
             map_option (\<lambda>action. (action, List.map_filter simple_data rest)) (subscription_action first_arg)))
       (args_iter c)"

definition update_set :: "bool \<Rightarrow> bytes list \<Rightarrow> bytes set \<Rightarrow> bytes set" where
  "update_set add args s =
     (if add then foldl (\<lambda>s sub. insert sub s) s args else foldl (\<lambda>s sub. s - {sub}) s args)"

definition update_with_request :: "SubscriptionAction \<Rightarrow> bytes list \<Rightarrow> SubscriptionTracker \<Rightarrow> SubscriptionTracker" where
  "update_with_request action args t =
     (let upd = update_set (additive action) args
      in (case action of
            ActSubscribe \<Rightarrow> t\<lparr>subscriptions := upd (subscriptions t)\<rparr>
          | ActUnsubscribe \<Rightarrow> t\<lparr>subscriptions := upd (subscriptions t)\<rparr>
          | ActPSubscribe \<Rightarrow> t\<lparr>p_subscriptions := upd (p_subscriptions t)\<rparr>
          | ActPUnsubscribe \<Rightarrow> t\<lparr>p_subscriptions := upd (p_subscriptions t)\<rparr>
          | ActSSubscribe \<Rightarrow> t\<lparr>s_subscriptions := upd (s_subscriptions t)\<rparr>
          | ActSunsubscribe \<Rightarrow> t\<lparr>s_subscriptions := upd (s_subscriptions t)\<rparr>))"

definition update_with_cmd :: "Cmd \<Rightarrow> SubscriptionTracker \<Rightarrow> SubscriptionTracker run" where
  "update_with_cmd c t =
     map_run (\<lambda>request. case request of
        Some (action, args) \<Rightarrow> update_with_request action args t
      | None \<Rightarrow> t) (tracker_to_request c)"

fun add_channels :: "(int \<Rightarrow> bytes) \<Rightarrow> bytes list \<Rightarrow> Pipeline \<Rightarrow> Pipeline run" where
  "add_channels itoa [] p = Ret p"
| "add_channels itoa (channel # channels) p =
     run_bind (pipeline_arg (to_args_vec (to_args_u8 itoa cmd_write_arg)) channel p) (add_channels itoa channels)"

definition subscribe_again ::
    "(int \<Rightarrow> bytes) \<Rightarrow> (bytes set \<Rightarrow> bytes list) \<Rightarrow> bytes \<Rightarrow> bytes set \<Rightarrow> Pipeline \<Rightarrow> Pipeline run" where
  "subscribe_again itoa hs name channels p =
     (if channels \<noteq> {} then add_channels itoa (hs channels) (pipeline_cmd p name) else Ret p)"

definition get_subscription_pipeline ::
    "(int \<Rightarrow> bytes) \<Rightarrow> (bytes set \<Rightarrow> bytes list) \<Rightarrow> SubscriptionTracker \<Rightarrow> Pipeline run" where
  "get_subscription_pipeline itoa hs t =
     run_bind (subscribe_again itoa hs ''SUBSCRIBE'' (subscriptions t) pipeline_new) (\<lambda>p1.
     run_bind (subscribe_again itoa hs ''SSUBSCRIBE'' (s_subscriptions t) p1) (\<lambda>p2.
       subscribe_again itoa hs ''PSUBSCRIBE'' (p_subscriptions t) p2))"

section \<open>The pipeline in terms of arguments\<close>

text \<open>What is known of the order in which a hash set is iterated.\<close>

definition iterates :: "(bytes set \<Rightarrow> bytes list) \<Rightarrow> bool" where
  "iterates hs \<longleftrightarrow> (\<forall>s. finite s \<longrightarrow> set (hs s) = s \<and> distinct (hs s))"

lemma cmd_arg_bytes: "cmd_arg (to_args_vec (to_args_u8 itoa cmd_write_arg)) channel c = Ret (cmd_write_arg c channel)"
  by (simp add: cmd_arg_def to_args_vec_def to_args_u8_def to_redis_args_impl_def)

lemma add_channels_snoc:
  "add_channels itoa channels (p\<lparr>commands := cs @ [c]\<rparr>) =
     Ret (p\<lparr>commands := cs @ [foldl cmd_write_arg c channels]\<rparr>)"
  by (induction channels arbitrary: c)
     (simp_all add: pipeline_arg_def get_last_command_def cmd_arg_bytes nth_append)

lemma cmd_of_args_Cons: "cmd_of_args (name # args) = foldl cmd_write_arg (cmd name) args"
  by (simp add: cmd_of_args_def cmd_def)

lemma subscribe_again_eq:
  "subscribe_again itoa hs name channels p =
     Ret (p\<lparr>commands := commands p @ (if channels = {} then [] else [cmd_of_args (name # hs channels)])\<rparr>)"
  using add_channels_snoc [where itoa = itoa and channels = "hs channels" and p = p and cs = "commands p" and c = "cmd name"]
  by (simp add: subscribe_again_def pipeline_cmd_def add_command_def cmd_of_args_Cons)

text \<open>The arguments of the commands of a subscription pipeline.\<close>

definition subscribe_args :: "(bytes set \<Rightarrow> bytes list) \<Rightarrow> bytes \<Rightarrow> bytes set \<Rightarrow> bytes list list" where
  "subscribe_args hs name channels = (if channels = {} then [] else [name # hs channels])"

definition tracker_args :: "(bytes set \<Rightarrow> bytes list) \<Rightarrow> SubscriptionTracker \<Rightarrow> bytes list list" where
  "tracker_args hs t =
     subscribe_args hs ''SUBSCRIBE'' (subscriptions t) @
     subscribe_args hs ''SSUBSCRIBE'' (s_subscriptions t) @
     subscribe_args hs ''PSUBSCRIBE'' (p_subscriptions t)"

lemma get_subscription_pipeline_eq:
  "get_subscription_pipeline itoa hs t = Ret (pipeline_new\<lparr>commands := map cmd_of_args (tracker_args hs t)\<rparr>)"
  by (simp add: get_subscription_pipeline_def subscribe_again_eq tracker_args_def subscribe_args_def
      pipeline_new_def pipeline_with_capacity_def)

section \<open>The subscriptions on the server\<close>

text \<open>Reference: what the commands do on the server, as its documentation describes them.  A
  command that unsubscribes without naming a channel drops all of them.\<close>

fun server_apply :: "bytes list \<Rightarrow> SubscriptionTracker \<Rightarrow> SubscriptionTracker" where
  "server_apply [] s = s"
| "server_apply (name # channels) s =
     (let add = (\<lambda>old. old \<union> set channels);
          remove = (\<lambda>old. if channels = [] then {} else old - set channels)
      in if eq_ignore_ascii_case name ''SUBSCRIBE'' then s\<lparr>subscriptions := add (subscriptions s)\<rparr>
         else if eq_ignore_ascii_case name ''PSUBSCRIBE'' then s\<lparr>p_subscriptions := add (p_subscriptions s)\<rparr>
         else if eq_ignore_ascii_case name ''SSUBSCRIBE'' then s\<lparr>s_subscriptions := add (s_subscriptions s)\<rparr>
         else if eq_ignore_ascii_case name ''UNSUBSCRIBE'' then s\<lparr>subscriptions := remove (subscriptions s)\<rparr>
         else if eq_ignore_ascii_case name ''PUNSUBSCRIBE'' then s\<lparr>p_subscriptions := remove (p_subscriptions s)\<rparr>
         else if eq_ignore_ascii_case name ''SUNSUBSCRIBE'' then s\<lparr>s_subscriptions := remove (s_subscriptions s)\<rparr>
         else s)"

definition server_run :: "bytes list list \<Rightarrow> SubscriptionTracker" where
  "server_run cs = fold server_apply cs tracker_default"

fun track :: "Cmd list \<Rightarrow> SubscriptionTracker \<Rightarrow> SubscriptionTracker run" where
  "track [] t = Ret t"
| "track (c # cs) t = run_bind (update_with_cmd c t) (track cs)"

text \<open>A request that unsubscribes names the channels.\<close>

definition names_channels :: "bytes list \<Rightarrow> bool" where
  "names_channels xs \<longleftrightarrow>
     (case xs of
        [] \<Rightarrow> True
      | name # channels \<Rightarrow>
          channels \<noteq> [] \<or> (\<forall>n \<in> {''UNSUBSCRIBE'', ''PUNSUBSCRIBE'', ''SUNSUBSCRIBE''}. \<not> eq_ignore_ascii_case name n))"

lemma update_set_eq [simp]:
  "update_set True args s = s \<union> set args" "update_set False args s = s - set args"
  by (induction args arbitrary: s) (auto simp: update_set_def)

lemma map_filter_simple [simp]: "List.map_filter simple_data (map Simple xs) = xs"
  by (induction xs) (simp_all add: List.map_filter_simps simple_data_def)

lemma tracker_to_request_plain:
  assumes "plain_cmd c"
  shows "tracker_to_request c = Ret (case simple_args c of
           [] \<Rightarrow> None
         | name # channels \<Rightarrow>
             Option.bind (from_utf8 name) (\<lambda>n. map_option (\<lambda>a. (a, channels)) (subscription_action n)))"
  using wf_cmd_args_iter [of c] cmd_args_of_plain [OF assms] assms
  by (cases "simple_args c") (simp_all add: tracker_to_request_def plain_cmd_def)

lemma is_ascii_upper: "is_ascii (to_ascii_uppercase s) \<longleftrightarrow> is_ascii s"
  by (induction s) (auto simp: is_ascii_def to_ascii_uppercase_def to_ascii_upper_def in_range_def)

lemma from_utf8_case_insensitive:
  assumes "eq_ignore_ascii_case s t" and "is_ascii t"
  shows "from_utf8 s = Some s"
proof -
  have "is_ascii s" using assms is_ascii_upper [of s] is_ascii_upper [of t]
    by (simp add: eq_ignore_ascii_case_def)
  then show ?thesis by (rule from_utf8_ascii)
qed

lemma from_utf8_same: "from_utf8 s = Some t \<Longrightarrow> t = s"
  by (simp add: from_utf8_def split: if_splits)

lemma subscription_action_not_utf8: "from_utf8 name = None \<Longrightarrow> subscription_action name = None"
proof -
  assume none: "from_utf8 name = None"
  have "\<not> eq_ignore_ascii_case name n" if "is_ascii n" for n
    using from_utf8_case_insensitive [OF _ that, of name] none by auto
  then show ?thesis by (simp add: subscription_action_def is_ascii_def in_range_def)
qed

lemma server_apply_action:
  assumes "names_channels (name # channels)"
  shows "server_apply (name # channels) s =
           (case subscription_action name of None \<Rightarrow> s | Some a \<Rightarrow> update_with_request a channels s)"
  using assms
  by (auto simp: subscription_action_def update_with_request_def names_channels_def Let_def)

lemma update_with_cmd_server:
  assumes "plain_cmd c" and "names_channels (simple_args c)"
  shows "update_with_cmd c t = Ret (server_apply (simple_args c) t)"
proof (cases "simple_args c")
  case Nil
  then show ?thesis by (simp add: update_with_cmd_def tracker_to_request_plain [OF assms(1)])
next
  case (Cons name channels)
  have "server_apply (simple_args c) t =
      (case subscription_action name of None \<Rightarrow> t | Some a \<Rightarrow> update_with_request a channels t)"
    using server_apply_action assms(2) unfolding Cons .
  then show ?thesis
    using subscription_action_not_utf8 [of name] from_utf8_same [of name]
    by (auto simp: update_with_cmd_def tracker_to_request_plain [OF assms(1)] Cons split: option.splits
        simp del: server_apply.simps) (cases "from_utf8 name"; auto)+
qed

lemma track_server:
  "\<forall>c \<in> set cs. plain_cmd c \<and> names_channels (simple_args c) \<Longrightarrow>
     track cs t = Ret (fold server_apply (map simple_args cs) t)"
  by (induction cs arbitrary: t) (simp_all add: update_with_cmd_server)

lemma server_apply_finite:
  assumes "finite (subscriptions s) \<and> finite (s_subscriptions s) \<and> finite (p_subscriptions s)"
  shows "finite (subscriptions (server_apply xs s)) \<and> finite (s_subscriptions (server_apply xs s)) \<and>
         finite (p_subscriptions (server_apply xs s))"
  using assms by (cases xs) (simp_all add: Let_def)

lemma server_run_finite:
  "finite (subscriptions (server_run cs)) \<and> finite (s_subscriptions (server_run cs)) \<and>
     finite (p_subscriptions (server_run cs))"
proof (induction cs rule: rev_induct)
  case (snoc c cs)
  then show ?case using server_apply_finite [of "server_run cs" c] by (simp add: server_run_def)
qed (simp add: server_run_def tracker_default_def)

lemma server_subscribe [simp]:
  "server_apply (''SUBSCRIBE'' # channels) s = s\<lparr>subscriptions := subscriptions s \<union> set channels\<rparr>"
  "server_apply (''SSUBSCRIBE'' # channels) s = s\<lparr>s_subscriptions := s_subscriptions s \<union> set channels\<rparr>"
  "server_apply (''PSUBSCRIBE'' # channels) s = s\<lparr>p_subscriptions := p_subscriptions s \<union> set channels\<rparr>"
proof -
  have "\<not> eq_ignore_ascii_case ''SSUBSCRIBE'' ''SUBSCRIBE''" "\<not> eq_ignore_ascii_case ''PSUBSCRIBE'' ''SUBSCRIBE''"
    "\<not> eq_ignore_ascii_case ''SSUBSCRIBE'' ''PSUBSCRIBE''"
    by code_simp+
  moreover have "eq_ignore_ascii_case n n" for n by (simp add: eq_ignore_ascii_case_def)
  ultimately show "server_apply (''SUBSCRIBE'' # channels) s = s\<lparr>subscriptions := subscriptions s \<union> set channels\<rparr>"
    "server_apply (''SSUBSCRIBE'' # channels) s = s\<lparr>s_subscriptions := s_subscriptions s \<union> set channels\<rparr>"
    "server_apply (''PSUBSCRIBE'' # channels) s = s\<lparr>p_subscriptions := p_subscriptions s \<union> set channels\<rparr>"
    by simp_all
qed

lemma server_run_tracker_args:
  assumes "iterates hs"
    and "finite (subscriptions t) \<and> finite (s_subscriptions t) \<and> finite (p_subscriptions t)"
  shows "server_run (tracker_args hs t) = t"
  using assms
  by (auto simp: server_run_def tracker_args_def subscribe_args_def iterates_def tracker_default_def
      simp del: server_apply.simps)



text \<open>C33.  A request that unsubscribes from everything, by naming no channel, leaves the tracker as it
  was, while the server drops every channel: the next reconnect subscribes to them again.\<close>

theorem unsubscribe_all_is_not_tracked:
  "update_with_cmd (cmd ''UNSUBSCRIBE'') t = Ret t \<and>
   subscriptions (server_apply (simple_args (cmd ''UNSUBSCRIBE'')) t) = {}"
proof -
  have p: "plain_cmd (cmd ''UNSUBSCRIBE'')" "simple_args (cmd ''UNSUBSCRIBE'') = [''UNSUBSCRIBE'']"
    using plain_cmd_of_args [of "[''UNSUBSCRIBE'']"] by (simp_all add: cmd_of_args_Cons)
  have "subscription_action ''UNSUBSCRIBE'' = Some ActUnsubscribe" "from_utf8 ''UNSUBSCRIBE'' = Some ''UNSUBSCRIBE''"
    by code_simp+
  then have "update_with_cmd (cmd ''UNSUBSCRIBE'') t = Ret t"
    by (simp add: update_with_cmd_def tracker_to_request_plain [OF p(1)] p(2) update_with_request_def)
  moreover have "\<forall>n \<in> {''SUBSCRIBE'', ''PSUBSCRIBE'', ''SSUBSCRIBE''}. \<not> eq_ignore_ascii_case ''UNSUBSCRIBE'' n"
    "eq_ignore_ascii_case ''UNSUBSCRIBE'' ''UNSUBSCRIBE''"
    by code_simp+
  then have "subscriptions (server_apply [''UNSUBSCRIBE''] t) = {}" by simp
  ultimately show ?thesis by (simp add: p(2))
qed

end
