(* ===== verification/Cluster_Nodes.thy ===== *)
theory Cluster_Nodes
  imports Cluster_Request Read_Routing Subscription_Tracker "HOL-Library.AList"
    "HOL-Library.Product_Lexorder"
begin

text \<open>
  The connections of the asynchronous cluster client (\<^verbatim>\<open>Core\<close> in
  \<^verbatim>\<open>cluster_handling/async_connection/mod.rs\<close>): which connection a request gets, how a redirection
  is followed, how the slots are refreshed and lost connections are repaired.

  The connection map is an association list in the order in which the \<^verbatim>\<open>HashMap\<close> happens to be
  iterated.  The outside world is the type variable \<open>'w\<close>: opening a connection and a request on one
  (the trait \<^verbatim>\<open>ConnectionLike\<close>) are the functions \<open>cf_connect\<close> and \<open>cf_req\<close> of the
  configuration, which change it.  \<open>cf_choose\<close> is \<^verbatim>\<open>IteratorRandom::choose\<close> of the crate \<^verbatim>\<open>rand\<close> on
  a list that is not empty, and \<open>cf_nodes\<close> the order in which a set of addresses is iterated.
\<close>

section \<open>State\<close>

text \<open>Addresses are ordered by host and port.\<close>

instantiation NodeAddress :: linorder
begin

definition less_eq_NodeAddress :: "NodeAddress \<Rightarrow> NodeAddress \<Rightarrow> bool" where
  "less_eq_NodeAddress a b \<longleftrightarrow> (na_host a, na_port a) \<le> (na_host b, na_port b)"

definition less_NodeAddress :: "NodeAddress \<Rightarrow> NodeAddress \<Rightarrow> bool" where
  "less_NodeAddress a b \<longleftrightarrow> (na_host a, na_port a) < (na_host b, na_port b)"

instance
proof
  fix a b c :: NodeAddress
  show "(a < b) = (a \<le> b \<and> \<not> b \<le> a)"
    unfolding less_eq_NodeAddress_def less_NodeAddress_def by (rule less_le_not_le)
  show "a \<le> a" unfolding less_eq_NodeAddress_def by (rule order_refl)
  show "a \<le> c" if "a \<le> b" "b \<le> c" using that unfolding less_eq_NodeAddress_def by (rule order_trans)
  show "a = b" if "a \<le> b" "b \<le> a"
  proof -
    have "(na_host a, na_port a) = (na_host b, na_port b)"
      using that unfolding less_eq_NodeAddress_def by (rule order_antisym)
    then show ?thesis by (cases a; cases b) simp
  qed
  show "a \<le> b \<or> b \<le> a" unfolding less_eq_NodeAddress_def by (rule linear)
qed

end

datatype 'c ConnState = Connected 'c | Reconnecting 'c | Connecting

type_synonym 'c connection_map = "(NodeAddress \<times> 'c ConnState) list"

fun conn_connected :: "'c ConnState \<Rightarrow> 'c option" where
  "conn_connected (Connected conn) = Some conn"
| "conn_connected (Reconnecting _) = None"
| "conn_connected Connecting = None"

fun connected_or_reconnecting :: "'c ConnState \<Rightarrow> 'c option" where
  "connected_or_reconnecting (Connected conn) = Some conn"
| "connected_or_reconnecting (Reconnecting conn) = Some conn"
| "connected_or_reconnecting Connecting = None"

definition into_conn :: "'c ConnState \<Rightarrow> 'c option" where
  "into_conn state = (case state of
     Connected conn \<Rightarrow> Some conn
   | Reconnecting conn \<Rightarrow> Some conn
   | Connecting \<Rightarrow> None)"

definition mark_reconnecting :: "NodeAddress \<Rightarrow> 'c connection_map \<Rightarrow> 'c connection_map" where
  "mark_reconnecting addr conns = (case map_of conns addr of
     None \<Rightarrow> AList.update addr Connecting conns
   | Some (Connected conn) \<Rightarrow> AList.update addr (Reconnecting conn) conns
   | Some other \<Rightarrow> AList.update addr other conns)"

record ('c, 's, 'w) core_config =
  cf_choose :: "(NodeAddress \<times> 'c) list \<Rightarrow> NodeAddress \<times> 'c"
  cf_pick :: "NodeAddress list \<Rightarrow> NodeAddress"
  cf_nodes :: "NodeAddress set \<Rightarrow> NodeAddress list"
  cf_strategy :: "'s ReadRoutingStrategy option"
  cf_connect :: "NodeAddress \<Rightarrow> 'w \<Rightarrow> 'c redis_result \<times> 'w"
  cf_req :: "'c \<Rightarrow> Cmd \<Rightarrow> 'w \<Rightarrow> Value redis_result \<times> 'w"
  cf_max_attempts :: "nat option"

record ('c, 's, 'w) core =
  co_conns :: "'c connection_map"
  co_slots :: SlotMap
  co_strategy :: 's
  co_world :: 'w

section \<open>Opening and checking connections\<close>

definition core_req :: "('c, 's, 'w) core_config \<Rightarrow> 'c \<Rightarrow> Cmd \<Rightarrow> ('c, 's, 'w) core \<Rightarrow> Value redis_result \<times> ('c, 's, 'w) core" where
  "core_req cf conn c core =
     (let (r, w) = cf_req cf conn c (co_world core) in (r, core\<lparr>co_world := w\<rparr>))"

definition unlimited :: "Cmd \<Rightarrow> Cmd" where
  "unlimited c = c\<lparr>cskip_concurrency_limit := True\<rparr>"

definition connect_and_check ::
    "('c, 's, 'w) core_config \<Rightarrow> NodeAddress \<Rightarrow> ('c, 's, 'w) core \<Rightarrow> 'c redis_result \<times> ('c, 's, 'w) core" where
  "connect_and_check cf node core =
     (let (r, w) = cf_connect cf node (co_world core);
          core1 = core\<lparr>co_world := w\<rparr>
      in (case r of
            Inl err \<Rightarrow> (Inl err, core1)
          | Inr conn \<Rightarrow>
              (let readonly_cmd = unlimited (if cf_strategy cf \<noteq> None then cmd ''READONLY'' else cmd ''PING'');
                   (reply, core2) = core_req cf conn readonly_cmd core1
               in (case reply of Inl err \<Rightarrow> (Inl err, core2) | Inr _ \<Rightarrow> (Inr conn, core2)))))"

definition cluster_check_connection ::
    "('c, 's, 'w) core_config \<Rightarrow> 'c \<Rightarrow> ('c, 's, 'w) core \<Rightarrow> unit redis_result \<times> ('c, 's, 'w) core" where
  "cluster_check_connection cf conn core =
     (let (reply, core1) = core_req cf conn (unlimited (cmd ''PING'')) core
      in (res_bind (res_bind reply extract_error) (\<lambda>_. Inr ()), core1))"

definition get_or_create_conn ::
    "('c, 's, 'w) core_config \<Rightarrow> NodeAddress \<Rightarrow> 'c option \<Rightarrow> ('c, 's, 'w) core \<Rightarrow> 'c redis_result \<times> ('c, 's, 'w) core" where
  "get_or_create_conn cf addr conn_option core = (case conn_option of
     None \<Rightarrow> connect_and_check cf addr core
   | Some conn \<Rightarrow>
       (case cluster_check_connection cf conn core of
          (Inr _, core1) \<Rightarrow> (Inr conn, core1)
        | (Inl _, core1) \<Rightarrow> connect_and_check cf addr core1))"

definition connect_check_and_add ::
    "('c, 's, 'w) core_config \<Rightarrow> NodeAddress \<Rightarrow> ('c, 's, 'w) core \<Rightarrow> 'c redis_result \<times> ('c, 's, 'w) core" where
  "connect_check_and_add cf addr core = (case connect_and_check cf addr core of
     (Inl err, core1) \<Rightarrow> (Inl err, core1)
   | (Inr conn, core1) \<Rightarrow> (Inr conn, core1\<lparr>co_conns := AList.update addr (Connected conn) (co_conns core1)\<rparr>))"

section \<open>Choosing a connection\<close>

definition connected_list :: "'c connection_map \<Rightarrow> (NodeAddress \<times> 'c) list" where
  "connected_list conns = List.map_filter (\<lambda>(addr, state). map_option (Pair addr) (conn_connected state)) conns"

definition get_random_connection ::
    "('c, 's, 'w) core_config \<Rightarrow> 'c connection_map \<Rightarrow> (NodeAddress \<times> 'c) option" where
  "get_random_connection cf conns =
     (case connected_list conns of [] \<Rightarrow> None | xs \<Rightarrow> Some (cf_choose cf xs))"

definition no_connections :: RedisError where
  "no_connections = error_of ClusterConnectionNotFound ''No connections found''"

definition random_or_error ::
    "('c, 's, 'w) core_config \<Rightarrow> ('c, 's, 'w) core \<Rightarrow> (NodeAddress \<times> 'c) redis_result" where
  "random_or_error cf core = (case get_random_connection cf (co_conns core) of
     Some found \<Rightarrow> Inr found
   | None \<Rightarrow> Inl no_connections)"

definition connected_at :: "'c connection_map \<Rightarrow> NodeAddress \<Rightarrow> (NodeAddress \<times> 'c) option" where
  "connected_at conns addr = map_option (Pair addr) (Option.bind (map_of conns addr) conn_connected)"

fun find_map :: "('a \<Rightarrow> 'b option) \<Rightarrow> 'a list \<Rightarrow> 'b option" where
  "find_map f [] = None"
| "find_map f (x # xs) = (case f x of Some y \<Rightarrow> Some y | None \<Rightarrow> find_map f xs)"

definition get_redirected_connection ::
    "('c, 's, 'w) core_config \<Rightarrow> Redirect \<Rightarrow> ('c, 's, 'w) core \<Rightarrow>
     (NodeAddress \<times> 'c) redis_result \<times> ('c, 's, 'w) core" where
  "get_redirected_connection cf redirect core =
     (let (asking, addr) = (case redirect of MovedTo a \<Rightarrow> (False, a) | AskTo a \<Rightarrow> (True, a));
          (r, core1) = (case Option.bind (map_of (co_conns core) addr) conn_connected of
                          Some conn \<Rightarrow> (Inr conn, core)
                        | None \<Rightarrow> connect_check_and_add cf addr core)
      in (case r of
            Inl err \<Rightarrow> (Inl err, core1)
          | Inr conn \<Rightarrow>
              (if asking then
                 (let (reply, core2) = core_req cf conn (unlimited (cmd ''ASKING'')) core1
                  in (res_bind (res_bind reply extract_error) (\<lambda>_. Inr (addr, conn)), core2))
               else (Inr (addr, conn), core1))))"

definition get_connection ::
    "('c, 's, 'w) core_config \<Rightarrow> 'c InternalSingleNodeRouting \<Rightarrow> ('c, 's, 'w) core \<Rightarrow>
     ((NodeAddress \<times> 'c) redis_result \<times> ('c, 's, 'w) core) run" where
  "get_connection cf route core = (case route of
     IRandom \<Rightarrow> Ret (random_or_error cf core, core)
   | IConnection identifier conn \<Rightarrow> Ret (Inr (identifier, conn), core)
   | IRedirect redirect _ \<Rightarrow> Ret (get_redirected_connection cf redirect core)
   | IByAddress address \<Rightarrow>
       Ret (case connected_at (co_conns core) address of
              Some found \<Rightarrow> (Inr found, core)
            | None \<Rightarrow>
                (Inl (General ClusterConnectionNotFound ''Requested connection not found''
                        (Some (node_address_text address))), core))
   | ISpecificNode slot_route \<Rightarrow>
       run_bind (slot_addr_for_route (cf_pick cf) (co_slots core) slot_route (cf_strategy cf) (co_strategy core))
         (\<lambda>(preferred, st).
           let core1 = core\<lparr>co_strategy := st\<rparr>
           in Ret (case Option.bind preferred (connected_at (co_conns core)) of
                     Some found \<Rightarrow> (Inr found, core1)
                   | None \<Rightarrow>
                       (case find_map (connected_at (co_conns core)) (shard_fallback_addrs (co_slots core) slot_route) of
                          Some found \<Rightarrow> (Inr found, core1)
                        | None \<Rightarrow> (random_or_error cf core1, core1)))))"

section \<open>Refreshing the slots\<close>

definition build_slot_map :: "SlotMap \<Rightarrow> SlotRange list \<Rightarrow> SlotMap redis_result" where
  "build_slot_map slot_map slots_data = Inr (fill_slots (srm_clear slot_map) slots_data)"

definition query_slots ::
    "('c, 's, 'w) core_config \<Rightarrow> 'c \<Rightarrow> NodeAddress \<Rightarrow> ('c, 's, 'w) core \<Rightarrow> unit redis_result \<times> ('c, 's, 'w) core" where
  "query_slots cf conn addr core =
     (let (reply, core1) = core_req cf conn (unlimited slot_cmd) core
      in (case res_bind (res_bind reply extract_error) (\<lambda>v. res_bind (parse_slots v (na_host addr))
                 (build_slot_map (co_slots core1))) of
            Inl err \<Rightarrow> (Inl err, core1)
          | Inr slots \<Rightarrow> (Inr (), core1\<lparr>co_slots := slots\<rparr>)))"

text \<open>The two passes over the connections: the known good ones, then all, repairing them on the way.
  They give whether the slots were found, and the last error.\<close>

fun query_connected ::
    "('c, 's, 'w) core_config \<Rightarrow> 'c connection_map \<Rightarrow> RedisError option \<Rightarrow> ('c, 's, 'w) core \<Rightarrow>
     bool \<times> RedisError option \<times> ('c, 's, 'w) core" where
  "query_connected cf [] last_err core = (False, last_err, core)"
| "query_connected cf ((addr, state) # rest) last_err core = (case state of
     Connected conn \<Rightarrow>
       (case query_slots cf conn addr core of
          (Inr _, core1) \<Rightarrow> (True, last_err, core1)
        | (Inl err, core1) \<Rightarrow> query_connected cf rest (Some err) core1)
   | _ \<Rightarrow> query_connected cf rest last_err core)"

fun query_repairing ::
    "('c, 's, 'w) core_config \<Rightarrow> 'c connection_map \<Rightarrow> RedisError option \<Rightarrow> ('c, 's, 'w) core \<Rightarrow>
     bool \<times> RedisError option \<times> 'c connection_map \<times> ('c, 's, 'w) core" where
  "query_repairing cf [] last_err core = (False, last_err, [], core)"
| "query_repairing cf ((addr, state) # rest) last_err core =
     (let (r, core1) = get_or_create_conn cf addr (into_conn state) core
      in (case r of
            Inr conn \<Rightarrow>
              (case query_slots cf conn addr core1 of
                 (Inr _, core2) \<Rightarrow> (True, last_err, (addr, Connected conn) # rest, core2)
               | (Inl err, core2) \<Rightarrow>
                   (let (found, e, conns, core3) = query_repairing cf rest (Some err) core2
                    in (found, e, (addr, Connected conn) # conns, core3)))
          | Inl err \<Rightarrow>
              (let (found, e, conns, core3) = query_repairing cf rest (Some err) core1
               in (found, e, (addr, Connecting) # conns, core3))))"

fun reopen_nodes ::
    "('c, 's, 'w) core_config \<Rightarrow> NodeAddress list \<Rightarrow> ('c, 's, 'w) core \<Rightarrow> ('c, 's, 'w) core" where
  "reopen_nodes cf [] core = core"
| "reopen_nodes cf (addr # nodes) core =
     (let connection = Option.bind (map_of (co_conns core) addr) into_conn;
          core1 = core\<lparr>co_conns := AList.delete addr (co_conns core)\<rparr>;
          (r, core2) = get_or_create_conn cf addr connection core1
      in reopen_nodes cf nodes (case r of
           Inr conn \<Rightarrow> core2\<lparr>co_conns := AList.update addr (Connected conn) (co_conns core2)\<rparr>
         | Inl _ \<Rightarrow> core2))"

definition refresh_connections_locked ::
    "('c, 's, 'w) core_config \<Rightarrow> NodeAddress set \<Rightarrow> ('c, 's, 'w) core \<Rightarrow> ('c, 's, 'w) core" where
  "refresh_connections_locked cf nodes core = reopen_nodes cf (cf_nodes cf nodes) core"

definition slot_map_nodes :: "SlotMap \<Rightarrow> NodeAddress set" where
  "slot_map_nodes slots = \<Union> (set (map (set \<circ> slot_addrs_iter) (srm_values slots)))"

definition adopt_topology :: "('c, 's, 'w) core_config \<Rightarrow> ('c, 's, 'w) core \<Rightarrow> ('c, 's, 'w) core" where
  "adopt_topology cf core =
     (let core1 = (case cf_strategy cf of
                     None \<Rightarrow> core
                   | Some strategy \<Rightarrow>
                       core\<lparr>co_strategy := st_on_topology_changed strategy (topology (co_slots core)) (co_strategy core)\<rparr>);
          nodes = slot_map_nodes (co_slots core1)
      in refresh_connections_locked cf nodes
           (core1\<lparr>co_conns := filter (\<lambda>(addr, _). addr \<in> nodes) (co_conns core1)\<rparr>))"

definition refresh_slots ::
    "('c, 's, 'w) core_config \<Rightarrow> ('c, 's, 'w) core \<Rightarrow> unit redis_result \<times> ('c, 's, 'w) core" where
  "refresh_slots cf core =
     (let (found, last_err, core1) = query_connected cf (co_conns core) None core
      in if found then (Inr (), adopt_topology cf core1)
         else
           (let (found', last_err', conns, core2) = query_repairing cf (co_conns core1) last_err core1;
                core3 = core2\<lparr>co_conns := conns\<rparr>
            in if found' then (Inr (), adopt_topology cf core3)
               else (Inl (case last_err' of Some e \<Rightarrow> e | None \<Rightarrow> no_connections), core3)))"

section \<open>Repairing a connection\<close>

datatype repair = Repaired | Abandoned | RepairAgain

definition remove_node :: "NodeAddress \<Rightarrow> ('c, 's, 'w) core \<Rightarrow> ('c, 's, 'w) core" where
  "remove_node addr core = core\<lparr>co_conns := AList.delete addr (co_conns core)\<rparr>"

definition is_connected :: "'c ConnState option \<Rightarrow> bool" where
  "is_connected entry = (case entry of Some (Connected _) \<Rightarrow> True | _ \<Rightarrow> False)"

text \<open>One pass of the loop of \<^verbatim>\<open>reconnect_loop\<close>.\<close>

definition repair_attempt ::
    "('c, 's, 'w) core_config \<Rightarrow> NodeAddress \<Rightarrow> nat \<Rightarrow> ('c, 's, 'w) core \<Rightarrow> repair \<times> ('c, 's, 'w) core" where
  "repair_attempt cf addr attempts core =
     (if (case cf_max_attempts cf of Some m \<Rightarrow> m < attempts | None \<Rightarrow> False) then (Abandoned, remove_node addr core)
      else
        (let in_topology = addr \<in> addresses_for_all_nodes (co_slots core);
             entry = map_of (co_conns core) addr
         in if is_connected entry then (Abandoned, core)
            else if \<not> in_topology then (Abandoned, remove_node addr core)
            else
              (case get_or_create_conn cf addr (Option.bind entry connected_or_reconnecting) core of
                 (Inr conn, core1) \<Rightarrow>
                   (if is_connected (map_of (co_conns core1) addr) then (Abandoned, core1)
                    else (Repaired, core1\<lparr>co_conns := AList.update addr (Connected conn) (co_conns core1)\<rparr>))
               | (Inl _, core1) \<Rightarrow> (RepairAgain, core1))))"

definition next_backoff :: "nat \<Rightarrow> nat" where
  "next_backoff backoff = min (backoff * 2) 1000"

text \<open>The loop, with what the other tasks do while it sleeps: \<open>others\<close> has one function for every
  pause that ends.  The result is \<open>None\<close> while the loop still runs.\<close>

fun repair_loop ::
    "('c, 's, 'w) core_config \<Rightarrow> NodeAddress \<Rightarrow> nat \<Rightarrow> (('c, 's, 'w) core \<Rightarrow> ('c, 's, 'w) core) list \<Rightarrow> ('c, 's, 'w) core \<Rightarrow>
     (repair \<times> ('c, 's, 'w) core) option" where
  "repair_loop cf addr attempts others core =
     (case repair_attempt cf addr (attempts + 1) core of
        (RepairAgain, core1) \<Rightarrow>
          (case others of
             [] \<Rightarrow> None
           | other # rest \<Rightarrow> repair_loop cf addr (attempts + 1) rest (other core1))
      | done' \<Rightarrow> Some done')"

definition reconnect_loop ::
    "('c, 's, 'w) core_config \<Rightarrow> NodeAddress \<Rightarrow> (('c, 's, 'w) core \<Rightarrow> ('c, 's, 'w) core) list \<Rightarrow> ('c, 's, 'w) core \<Rightarrow>
     (repair \<times> ('c, 's, 'w) core) option" where
  "reconnect_loop cf addr others core = (case map_of (co_conns core) addr of
     Some (Reconnecting _) \<Rightarrow> Some (Abandoned, core)
   | Some Connecting \<Rightarrow> Some (Abandoned, core)
   | _ \<Rightarrow> repair_loop cf addr 0 others (core\<lparr>co_conns := mark_reconnecting addr (co_conns core)\<rparr>))"

text \<open>What is subscribed again on a repaired node: shard channels that are routed to it, and the others
  only when no other node is connected.  \<open>None\<close> is a command that is skipped.\<close>

definition resubscribe_on_node ::
    "('c, 's, 'w) core_config \<Rightarrow> (bytes \<Rightarrow> u16) \<Rightarrow> ((Route \<times> nat list) list \<Rightarrow> (Route \<times> nat list) list) \<Rightarrow> u16 \<Rightarrow>
     NodeAddress \<Rightarrow> bool \<Rightarrow> ('c, 's, 'w) core option \<Rightarrow> Cmd \<Rightarrow> 'c PendingRequest option run" where
  "resubscribe_on_node cf crc16 hm drawn reconnected_addr other_nodes_connected guard' c =
     run_bind (for_routable crc16 hm cmd_routable c) (\<lambda>info.
       let routing = (case info of Some r \<Rightarrow> r | None \<Rightarrow> SingleNode Random);
           request = \<lparr>pr_retry = 0, pr_sender = Internal, pr_cmd = CmdRequest c (internal_routing_of drawn routing)\<rparr>
       in (case routing of
             SingleNode (SpecificNode route) \<Rightarrow>
               (case guard' of
                  None \<Rightarrow> Ret None
                | Some core \<Rightarrow>
                    map_run (\<lambda>(target_addr, _). if target_addr = Some reconnected_addr then Some request else None)
                      (slot_addr_for_route (cf_pick cf) (co_slots core) route (cf_strategy cf) (co_strategy core)))
           | _ \<Rightarrow> Ret (if other_nodes_connected then None else Some request)))"

definition other_nodes_connected :: "NodeAddress \<Rightarrow> ('c, 's, 'w) core option \<Rightarrow> bool" where
  "other_nodes_connected reconnected_addr guard' = (case guard' of
     None \<Rightarrow> False
   | Some core \<Rightarrow> \<exists>(addr, state) \<in> set (co_conns core). addr \<noteq> reconnected_addr \<and> is_connected (Some state))"

section \<open>The connection of a request\<close>

text \<open>The nodes of a shard that may serve a route.\<close>

definition serving_nodes :: "SlotAddrs \<Rightarrow> SlotAddr \<Rightarrow> NodeAddress set" where
  "serving_nodes addrs sa = (case sa of
     Master \<Rightarrow> {sa_primary addrs}
   | ReplicaOptional \<Rightarrow> set (slot_addrs_iter addrs)
   | ReplicaRequired \<Rightarrow> if sa_replicas addrs = [] then {sa_primary addrs} else set (sa_replicas addrs))"

text \<open>What the code relies on: choices are made from the list given, and a read strategy keeps its
  contract.\<close>

definition config_ok :: "('c, 's, 'w) core_config \<Rightarrow> bool" where
  "config_ok cf \<longleftrightarrow>
     (\<forall>xs. xs \<noteq> [] \<longrightarrow> cf_choose cf xs \<in> set xs) \<and> (\<forall>xs. xs \<noteq> [] \<longrightarrow> cf_pick cf xs \<in> set xs) \<and>
     (\<forall>s. finite s \<longrightarrow> set (cf_nodes cf s) = s \<and> distinct (cf_nodes cf s)) \<and>
     (\<forall>strategy. cf_strategy cf = Some strategy \<longrightarrow> read_strategy strategy)"

lemma slot_addr_serving:
  assumes "config_ok cf"
  shows "\<exists>a st'. slot_addr (cf_pick cf) addrs slot sa (cf_strategy cf) st = Ret (a, st') \<and> a \<in> serving_nodes addrs sa"
proof (cases "cf_strategy cf")
  case None
  have "xs \<noteq> [] \<Longrightarrow> cf_pick cf xs \<in> set xs" for xs using assms by (simp add: config_ok_def)
  then show ?thesis
    using None by (cases sa)
      (auto simp: slot_addr_def serving_nodes_def slot_addrs_iter_def replicas_new_def choose_random_def)
next
  case (Some strategy)
  then have "read_strategy strategy" using assms by (simp add: config_ok_def)
  from read_strategy.slot_addr_in_shard [OF this, of "cf_pick cf" addrs slot sa st] show ?thesis
    using Some by (cases "sa_replicas addrs = []"; cases sa)
      (auto simp: serving_nodes_def slot_addrs_iter_def slot_addr_def replicas_new_def)
qed

lemma connected_at_Some: "connected_at conns a = Some x \<longleftrightarrow> (\<exists>c. x = (a, c) \<and> map_of conns a = Some (Connected c))"
proof -
  have "conn_connected st = Some c \<longleftrightarrow> st = Connected c" for st :: "'a ConnState" and c by (cases st) auto
  then show ?thesis by (auto simp: connected_at_def bind_eq_Some_conv)
qed

lemma connected_list_iff:
  "distinct (map fst conns) \<Longrightarrow> (a, c) \<in> set (connected_list conns) \<longleftrightarrow> map_of conns a = Some (Connected c)"
proof -
  assume d: "distinct (map fst conns)"
  have "conn_connected st = Some c \<longleftrightarrow> st = Connected c" for st :: "'a ConnState" and c by (cases st) auto
  then have "(a, c) \<in> set (connected_list conns) \<longleftrightarrow> (a, Connected c) \<in> set conns"
    by (auto simp: connected_list_def in_map_filter split: prod.splits)
  then show ?thesis using map_of_eq_Some_iff [OF d, of a "Connected c"] by simp
qed

lemma find_map_Some: "find_map f xs = Some y \<Longrightarrow> \<exists>x \<in> set xs. f x = Some y"
  by (induction xs) (auto split: option.splits)

lemma find_map_None: "find_map f xs = None \<longleftrightarrow> (\<forall>x \<in> set xs. f x = None)"
  by (induction xs) (auto split: option.splits)

lemma random_or_error_cases:
  assumes "config_ok cf"
  obtains "random_or_error cf core = Inl no_connections" "connected_list (co_conns core) = []"
  | found where "random_or_error cf core = Inr found" "found \<in> set (connected_list (co_conns core))"
proof (cases "connected_list (co_conns core)")
  case Nil
  then show ?thesis using that(1) by (simp add: random_or_error_def get_random_connection_def)
next
  case (Cons x xs)
  then have "cf_choose cf (x # xs) \<in> set (x # xs)" using assms unfolding config_ok_def by blast
  then show ?thesis using that(2) Cons by (simp add: random_or_error_def get_random_connection_def)
qed

lemma shard_fallback_serving:
  "srm_get m (route_slot route) = Some addrs \<Longrightarrow> a \<in> set (shard_fallback_addrs m route) \<Longrightarrow>
     a \<in> serving_nodes addrs (route_slot_addr route)"
  by (cases "route_slot_addr route") (auto simp: shard_fallback_addrs_def serving_nodes_def slot_addrs_iter_def)

lemma serving_fallback:
  assumes "srm_get m (route_slot route) = Some addrs" and "n \<in> serving_nodes addrs (route_slot_addr route)"
    and "p \<in> serving_nodes addrs (route_slot_addr route)"
  shows "n = p \<or> n \<in> set (shard_fallback_addrs m route)"
  using assms
  by (cases "route_slot_addr route")
     (auto simp: shard_fallback_addrs_def serving_nodes_def slot_addrs_iter_def split: if_splits)

lemma preferred_serving:
  assumes "config_ok cf"
  obtains preferred st where
    "slot_addr_for_route (cf_pick cf) m route (cf_strategy cf) old = Ret (preferred, st)"
    "\<And>addrs. srm_get m (route_slot route) = Some addrs \<Longrightarrow>
       \<exists>p. preferred = Some p \<and> p \<in> serving_nodes addrs (route_slot_addr route)"
    "srm_get m (route_slot route) = None \<Longrightarrow> preferred = None"
proof (cases "srm_get m (route_slot route)")
  case None
  then show thesis using that by (simp add: slot_addr_for_route_def)
next
  case (Some addrs)
  obtain a st' where "slot_addr (cf_pick cf) addrs (route_slot route) (route_slot_addr route) (cf_strategy cf)
      old = Ret (a, st')" "a \<in> serving_nodes addrs (route_slot_addr route)"
    using slot_addr_serving [OF assms] by blast
  then show thesis using that [of "Some a" st'] Some by (simp add: slot_addr_for_route_def)
qed

lemma no_serving_node_connected:
  assumes "srm_get m (route_slot route) = Some addrs" and "p \<in> serving_nodes addrs (route_slot_addr route)"
    and "connected_at conns p = None" and "find_map (connected_at conns) (shard_fallback_addrs m route) = None"
    and "n \<in> serving_nodes addrs (route_slot_addr route)"
  shows "map_of conns n \<noteq> Some (Connected c)"
proof -
  have "connected_at conns n = None"
    using serving_fallback [OF assms(1,5,2)] assms(3,4) by (auto simp: find_map_None)
  then show ?thesis using connected_at_Some [of conns n "(n, c)"] by auto
qed

text \<open>C29.  A request for a slot gets an established connection whenever there is one: to a node that may
  serve the route if any of them is connected, and otherwise to some connected node, which will
  redirect it.  It fails only when no node at all is connected.\<close>

theorem slot_request_gets_connected_node:
  assumes "config_ok cf" and "distinct (map fst (co_conns core))"
  shows "\<exists>r core'. get_connection cf (ISpecificNode route) core = Ret (r, core') \<and>
           co_conns core' = co_conns core \<and> co_slots core' = co_slots core \<and>
           (case r of
              Inl e \<Rightarrow> e = no_connections \<and> (\<forall>a c. map_of (co_conns core) a \<noteq> Some (Connected c))
            | Inr (a, c) \<Rightarrow>
                map_of (co_conns core) a = Some (Connected c) \<and>
                (\<forall>addrs n c'. srm_get (co_slots core) (route_slot route) = Some addrs \<longrightarrow>
                   n \<in> serving_nodes addrs (route_slot_addr route) \<longrightarrow>
                   map_of (co_conns core) n = Some (Connected c') \<longrightarrow>
                   a \<in> serving_nodes addrs (route_slot_addr route)))"
proof -
  obtain preferred st where pref:
    "slot_addr_for_route (cf_pick cf) (co_slots core) route (cf_strategy cf) (co_strategy core) = Ret (preferred, st)"
    and serving: "\<And>addrs. srm_get (co_slots core) (route_slot route) = Some addrs \<Longrightarrow>
       \<exists>p. preferred = Some p \<and> p \<in> serving_nodes addrs (route_slot_addr route)"
    and none: "srm_get (co_slots core) (route_slot route) = None \<Longrightarrow> preferred = None"
    using preferred_serving [OF assms(1), where m = "co_slots core" and route = route and old = "co_strategy core"] by blast
  let ?conns = "co_conns core"
  let ?core = "core\<lparr>co_strategy := st\<rparr>"
  consider found where "Option.bind preferred (connected_at ?conns) = Some found"
    | found where "Option.bind preferred (connected_at ?conns) = None"
        "find_map (connected_at ?conns) (shard_fallback_addrs (co_slots core) route) = Some found"
    | "Option.bind preferred (connected_at ?conns) = None"
        "find_map (connected_at ?conns) (shard_fallback_addrs (co_slots core) route) = None"
    by (metis not_None_eq)
  then show ?thesis
  proof cases
    case 1
    then have "get_connection cf (ISpecificNode route) core = Ret (Inr found, ?core)"
      by (simp add: get_connection_def pref Let_def)
    then show ?thesis using 1 serving none by (auto simp: bind_eq_Some_conv connected_at_Some)
  next
    case 2
    then have "get_connection cf (ISpecificNode route) core = Ret (Inr found, ?core)"
      by (simp add: get_connection_def pref Let_def)
    moreover obtain a where "a \<in> set (shard_fallback_addrs (co_slots core) route)" "connected_at ?conns a = Some found"
      using find_map_Some [OF 2(2)] by blast
    ultimately show ?thesis using shard_fallback_serving by (auto simp: connected_at_Some)
  next
    case 3
    have eq: "get_connection cf (ISpecificNode route) core = Ret (random_or_error cf ?core, ?core)"
      using 3 by (simp add: get_connection_def pref Let_def)
    have no: "map_of ?conns n \<noteq> Some (Connected c)"
      if n: "srm_get (co_slots core) (route_slot route) = Some addrs" "n \<in> serving_nodes addrs (route_slot_addr route)"
      for addrs n c
    proof -
      obtain p where p: "preferred = Some p" "p \<in> serving_nodes addrs (route_slot_addr route)"
        using serving [OF n(1)] by blast
      have "connected_at ?conns p = None" using 3(1) p(1) by simp
      then show ?thesis by (rule no_serving_node_connected [OF n(1) p(2) _ 3(2) n(2)])
    qed
    show ?thesis
    proof (rule random_or_error_cases [OF assms(1), of ?core])
      assume "random_or_error cf ?core = Inl no_connections" "connected_list (co_conns ?core) = []"
      then show ?thesis using eq connected_list_iff [OF assms(2)] by fastforce
    next
      fix found assume "random_or_error cf ?core = Inr found" "found \<in> set (connected_list (co_conns ?core))"
      then show ?thesis using eq connected_list_iff [OF assms(2)] no by (cases found) auto
    qed
  qed
qed

text \<open>A configuration and a state to evaluate the operations on.\<close>

definition witness_config :: "(nat, unit, unit) core_config" where
  "witness_config =
     \<lparr>cf_choose = hd, cf_pick = hd,
      cf_nodes = sorted_list_of_set,
      cf_strategy = None, cf_connect = (\<lambda>_ w. (Inr 9, w)), cf_req = (\<lambda>_ _ w. (Inr (VArray (map encode_slot witness_slots)), w)),
      cf_max_attempts = Some 3\<rparr>"

definition witness_core :: "(nat, unit, unit) core" where
  "witness_core =
     \<lparr>co_conns = [(NodeAddress ''a'' 1, Reconnecting 1), (NodeAddress ''b'' 2, Connected 2), (NodeAddress ''c'' 3, Connected 3)],
      co_slots = from_slots witness_slots, co_strategy = (), co_world = ()\<rparr>"

lemma witness_config_ok: "config_ok witness_config"
  by (simp add: config_ok_def witness_config_def)

theorem slot_request_gets_connected_node_witness:
  "config_ok witness_config \<and>
   get_connection witness_config (ISpecificNode (Route 7 ReplicaOptional)) witness_core =
     Ret (Inr (NodeAddress ''c'' 3, 3), witness_core) \<and>
   NodeAddress ''c'' 3 \<in> set (slot_addrs_iter \<lparr>sa_primary = NodeAddress ''a'' 1, sa_replicas = [NodeAddress ''c'' 3]\<rparr>)"
proof -
  have get: "get_connection witness_config (ISpecificNode (Route 7 ReplicaOptional)) witness_core =
      Ret (Inr (NodeAddress ''c'' 3, 3), witness_core)" by code_simp
  have "distinct (map fst (co_conns witness_core))" by code_simp
  from slot_request_gets_connected_node [OF witness_config_ok this, of "Route 7 ReplicaOptional"] get
  have "\<forall>addrs n c'. srm_get (co_slots witness_core) 7 = Some addrs \<longrightarrow> n \<in> set (slot_addrs_iter addrs) \<longrightarrow>
      map_of (co_conns witness_core) n = Some (Connected c') \<longrightarrow> NodeAddress ''c'' 3 \<in> set (slot_addrs_iter addrs)"
    by (simp add: serving_nodes_def)
  moreover have "srm_get (co_slots witness_core) 7 =
      Some \<lparr>sa_primary = NodeAddress ''a'' 1, sa_replicas = [NodeAddress ''c'' 3]\<rparr>" by code_simp
  ultimately show ?thesis using get witness_config_ok by (auto simp: slot_addrs_iter_def)
qed

section \<open>Refreshing leaves only nodes of the cluster\<close>

lemma core_req_fields:
  "core_req cf conn c core = (r, core1) \<Longrightarrow>
     co_conns core1 = co_conns core \<and> co_slots core1 = co_slots core \<and> co_strategy core1 = co_strategy core"
  by (auto simp: core_req_def split: prod.splits)

lemma connect_and_check_fields:
  assumes "connect_and_check cf addr core = (r, core1)"
  shows "co_conns core1 = co_conns core \<and> co_slots core1 = co_slots core \<and> co_strategy core1 = co_strategy core"
proof -
  obtain x w where x: "cf_connect cf addr (co_world core) = (x, w)" by fastforce
  show ?thesis
  proof (cases x)
    case (Inl e)
    then show ?thesis using assms x by (auto simp: connect_and_check_def)
  next
    case (Inr conn)
    let ?c = "unlimited (if cf_strategy cf \<noteq> None then cmd ''READONLY'' else cmd ''PING'')"
    obtain reply core2 where q: "core_req cf conn ?c (core\<lparr>co_world := w\<rparr>) = (reply, core2)" by fastforce
    then have "core1 = core2" using assms x Inr by (auto simp: connect_and_check_def Let_def split: sum.splits)
    then show ?thesis using core_req_fields [OF q] by simp
  qed
qed

lemma get_or_create_conn_fields:
  assumes "get_or_create_conn cf addr conn core = (r, core1)"
  shows "co_conns core1 = co_conns core \<and> co_slots core1 = co_slots core \<and> co_strategy core1 = co_strategy core"
proof (cases conn)
  case None
  then show ?thesis using assms connect_and_check_fields [of cf addr core r core1] by (simp add: get_or_create_conn_def)
next
  case (Some c)
  obtain reply core2 where q: "core_req cf c (unlimited (cmd ''PING'')) core = (reply, core2)" by fastforce
  then have check: "snd (cluster_check_connection cf c core) = core2" by (simp add: cluster_check_connection_def)
  show ?thesis
    using assms Some check core_req_fields [OF q] connect_and_check_fields [of cf addr core2 r core1]
    by (auto simp: get_or_create_conn_def split: prod.splits sum.splits)
qed

lemma query_slots_fields:
  assumes "query_slots cf conn addr core = (r, core1)"
  shows "co_conns core1 = co_conns core" and "r = Inl e \<Longrightarrow> co_slots core1 = co_slots core"
proof -
  obtain reply core2 where q: "core_req cf conn (unlimited slot_cmd) core = (reply, core2)" by fastforce
  show "co_conns core1 = co_conns core" "r = Inl e \<Longrightarrow> co_slots core1 = co_slots core"
    using assms core_req_fields [OF q] by (auto simp: query_slots_def q Let_def split: sum.splits)
qed

lemma query_connected_fields:
  "query_connected cf conns e core = (found, e', core1) \<Longrightarrow>
     co_conns core1 = co_conns core \<and> (\<not> found \<longrightarrow> co_slots core1 = co_slots core)"
proof (induction conns arbitrary: e core)
  case (Cons x conns)
  obtain addr state where x: "x = (addr, state)" by (cases x)
  show ?case
  proof (cases state)
    case (Connected conn)
    obtain r core2 where q: "query_slots cf conn addr core = (r, core2)" by fastforce
    show ?thesis
    proof (cases r)
      case (Inl err)
      then show ?thesis
        using Cons.prems Cons.IH [of "Some err" core2] query_slots_fields [OF q] x Connected q by simp
    next
      case (Inr u)
      then show ?thesis using Cons.prems query_slots_fields(1) [OF q] x Connected q by simp
    qed
  qed (use Cons.prems Cons.IH [of e core] x in simp_all)
qed simp

text \<open>The second pass: the addresses stay, the connections it has tried are established or given up.\<close>

lemma query_repairing_fields:
  "query_repairing cf conns e core = (found, e', conns', core1) \<Longrightarrow>
     map fst conns' = map fst conns \<and> co_conns core1 = co_conns core \<and> (\<not> found \<longrightarrow> co_slots core1 = co_slots core) \<and>
     (\<not> found \<longrightarrow> (\<forall>(a, st) \<in> set conns'. st = Connecting \<or> (\<exists>c. st = Connected c)))"
proof (induction conns arbitrary: e core found e' conns' core1)
  case (Cons x conns)
  obtain addr state where x: "x = (addr, state)" by (cases x)
  obtain r core2 where g: "get_or_create_conn cf addr (into_conn state) core = (r, core2)" by fastforce
  note g' = get_or_create_conn_fields [OF g]
  show ?case
  proof (cases r)
    case (Inl err)
    obtain f e2 cs core3 where q: "query_repairing cf conns (Some err) core2 = (f, e2, cs, core3)"
      by (metis prod_cases4)
    show ?thesis using Cons.prems Cons.IH [OF q] g' by (auto simp: x g Inl q)
  next
    case (Inr conn)
    obtain r2 core3 where s: "query_slots cf conn addr core2 = (r2, core3)" by fastforce
    note s' = query_slots_fields [OF s]
    show ?thesis
    proof (cases r2)
      case (Inl err)
      obtain f e2 cs core4 where q: "query_repairing cf conns (Some err) core3 = (f, e2, cs, core4)"
        by (metis prod_cases4)
      show ?thesis using Cons.prems Cons.IH [OF q] g' s' Inl by (auto simp: x g Inr s q)
    next
      case r2: (Inr u)
      show ?thesis using Cons.prems g' s' by (auto simp: x g Inr s r2)
    qed
  qed
qed simp

lemma reopen_nodes_conns:
  "distinct (map fst (co_conns core)) \<Longrightarrow>
     distinct (map fst (co_conns (reopen_nodes cf ns core))) \<and>
     co_slots (reopen_nodes cf ns core) = co_slots core \<and>
     (\<forall>a. a \<notin> set ns \<longrightarrow> map_of (co_conns (reopen_nodes cf ns core)) a = map_of (co_conns core) a) \<and>
     (\<forall>a \<in> set ns. \<forall>st. map_of (co_conns (reopen_nodes cf ns core)) a = Some st \<longrightarrow> (\<exists>c. st = Connected c))"
proof (induction ns arbitrary: core)
  case (Cons n ns)
  let ?core1 = "core\<lparr>co_conns := AList.delete n (co_conns core)\<rparr>"
  obtain r core2 where g: "get_or_create_conn cf n (Option.bind (map_of (co_conns core) n) into_conn) ?core1 = (r, core2)"
    by fastforce
  note g' = get_or_create_conn_fields [OF g]
  let ?core3 = "case r of Inr conn \<Rightarrow> core2\<lparr>co_conns := AList.update n (Connected conn) (co_conns core2)\<rparr> | Inl _ \<Rightarrow> core2"
  have step: "reopen_nodes cf (n # ns) core = reopen_nodes cf ns ?core3" by (simp add: g)
  have d: "distinct (map fst (co_conns ?core3))"
    using Cons.prems g' by (auto simp: distinct_update distinct_delete split: sum.splits)
  have m: "map_of (co_conns ?core3) a = map_of (co_conns core) a" if "a \<noteq> n" for a
    using that g' by (auto simp: update_conv' delete_conv' split: sum.splits)
  have n: "\<exists>c. st = Connected c" if "map_of (co_conns ?core3) n = Some st" for st
    using that g' by (auto simp: update_conv' delete_conv' split: sum.splits)
  have s: "co_slots ?core3 = co_slots core" using g' by (auto split: sum.splits)
  note IH = Cons.IH [OF d]
  show ?case
    unfolding step
  proof (intro conjI allI ballI impI)
    show "distinct (map fst (co_conns (reopen_nodes cf ns ?core3)))" using IH by blast
    show "co_slots (reopen_nodes cf ns ?core3) = co_slots core" using IH s by metis
  next
    fix a assume "a \<notin> set (n # ns)"
    then show "map_of (co_conns (reopen_nodes cf ns ?core3)) a = map_of (co_conns core) a" using IH m [of a] by simp
  next
    fix a st assume a: "a \<in> set (n # ns)" "map_of (co_conns (reopen_nodes cf ns ?core3)) a = Some st"
    show "\<exists>c. st = Connected c"
    proof (cases "a \<in> set ns")
      case True
      then show ?thesis using IH a(2) by blast
    next
      case False
      then have "a = n" using a(1) by simp
      then show ?thesis using IH False a(2) n [of st] by metis
    qed
  qed
qed simp

lemma adopt_topology_conns:
  assumes "config_ok cf" and "distinct (map fst (co_conns core))"
  shows "distinct (map fst (co_conns (adopt_topology cf core))) \<and> co_slots (adopt_topology cf core) = co_slots core \<and>
         (\<forall>(a, st) \<in> set (co_conns (adopt_topology cf core)). a \<in> slot_map_nodes (co_slots core) \<and> (\<exists>c. st = Connected c))"
proof -
  let ?nodes = "slot_map_nodes (co_slots core)"
  obtain st' where st': "adopt_topology cf core = reopen_nodes cf (cf_nodes cf ?nodes)
      (core\<lparr>co_strategy := st', co_conns := filter (\<lambda>(addr, _). addr \<in> ?nodes) (co_conns core)\<rparr>)"
  proof (cases "cf_strategy cf")
    case None
    then show thesis using that [of "co_strategy core"] by (simp add: adopt_topology_def refresh_connections_locked_def Let_def)
  next
    case (Some strategy)
    then show thesis
      using that [of "st_on_topology_changed strategy (topology (co_slots core)) (co_strategy core)"]
      by (simp add: adopt_topology_def refresh_connections_locked_def Let_def)
  qed
  let ?core = "core\<lparr>co_strategy := st', co_conns := filter (\<lambda>(addr, _). addr \<in> ?nodes) (co_conns core)\<rparr>"
  let ?conns = "co_conns (reopen_nodes cf (cf_nodes cf ?nodes) ?core)"
  have "finite ?nodes" by (simp add: slot_map_nodes_def)
  then have nodes: "set (cf_nodes cf ?nodes) = ?nodes" using assms(1) by (simp add: config_ok_def)
  have d: "distinct (map fst (co_conns ?core))" using assms(2) by (simp add: distinct_map_filter)
  note re = reopen_nodes_conns [OF d, where cf = cf and ns = "cf_nodes cf ?nodes", unfolded nodes]
  have entry: "a \<in> ?nodes \<and> (\<exists>c. st = Connected c)" if "(a, st) \<in> set ?conns" for a st
  proof -
    have m: "map_of ?conns a = Some st" using that re by simp
    have "a \<in> ?nodes"
    proof (rule ccontr)
      assume out: "a \<notin> ?nodes"
      then have "map_of (co_conns ?core) a = Some st" using re m by metis
      then show False using map_of_SomeD [of "co_conns ?core" a st] out by auto
    qed
    then show ?thesis using re m by blast
  qed
  show ?thesis
    unfolding st'
  proof (intro conjI)
    show "distinct (map fst ?conns)" using re by blast
    show "co_slots (reopen_nodes cf (cf_nodes cf ?nodes) ?core) = co_slots core" using re by simp
    show "\<forall>(a, st) \<in> set ?conns. a \<in> ?nodes \<and> (\<exists>c. st = Connected c)" using entry by blast
  qed
qed

text \<open>C14.  Refreshing the slots.  When it succeeds, every connection that is kept is established and
  belongs to a node of the slot map that was read, each node once.  When it fails, the slot map and the
  addresses of the connections are as before, so that it can be tried again.\<close>

theorem refresh_keeps_only_cluster_nodes:
  assumes "config_ok cf" and "distinct (map fst (co_conns core))" and "refresh_slots cf core = (r, core')"
  shows "case r of
           Inr _ \<Rightarrow>
             distinct (map fst (co_conns core')) \<and>
             (\<forall>(a, st) \<in> set (co_conns core'). a \<in> slot_map_nodes (co_slots core') \<and> (\<exists>c. st = Connected c))
         | Inl _ \<Rightarrow>
             map fst (co_conns core') = map fst (co_conns core) \<and> co_slots core' = co_slots core"
proof -
  obtain found e core1 where 1: "query_connected cf (co_conns core) None core = (found, e, core1)"
    by (metis prod_cases3)
  obtain found' e' conns core2 where 2: "query_repairing cf (co_conns core1) e core1 = (found', e', conns, core2)"
    by (metis prod_cases4)
  note f1 = query_connected_fields [OF 1]
  note f2 = query_repairing_fields [OF 2]
  show ?thesis
  proof (cases found)
    case True
    then have "r = Inr ()" "core' = adopt_topology cf core1" using assms(3) by (simp_all add: refresh_slots_def 1)
    then show ?thesis using adopt_topology_conns [OF assms(1), of core1] f1 assms(2) by simp
  next
    case False
    show ?thesis
    proof (cases found')
      case True
      then have "r = Inr ()" "core' = adopt_topology cf (core2\<lparr>co_conns := conns\<rparr>)"
        using assms(3) False by (simp_all add: refresh_slots_def 1 2)
      then show ?thesis
        using adopt_topology_conns [OF assms(1), of "core2\<lparr>co_conns := conns\<rparr>"] f1 f2 assms(2) by simp
    next
      case found': False
      have "\<exists>err. r = Inl err" "core' = core2\<lparr>co_conns := conns\<rparr>"
        using assms(3) False found' by (auto simp: refresh_slots_def 1 2)
      then show ?thesis using f1 f2 False found' by auto
    qed
  qed
qed

theorem refresh_keeps_only_cluster_nodes_witness:
  "\<exists>core'. refresh_slots witness_config witness_core = (Inr (), core') \<and>
     co_conns core' = [(NodeAddress ''a'' 1, Connected 1), (NodeAddress ''b'' 2, Connected 2), (NodeAddress ''c'' 3, Connected 3)] \<and>
     slot_map_nodes (co_slots core') = {NodeAddress ''a'' 1, NodeAddress ''b'' 2, NodeAddress ''c'' 3} \<and>
     distinct (map fst (co_conns core'))"
proof -
  let ?core' = "snd (refresh_slots witness_config witness_core)"
  have d: "distinct (map fst (co_conns witness_core))" by code_simp
  have r: "refresh_slots witness_config witness_core = (Inr (), ?core')" by code_simp
  have "co_conns ?core' = [(NodeAddress ''a'' 1, Connected 1), (NodeAddress ''b'' 2, Connected 2), (NodeAddress ''c'' 3, Connected 3)]"
    "slot_map_nodes (co_slots ?core') = {NodeAddress ''a'' 1, NodeAddress ''b'' 2, NodeAddress ''c'' 3}"
    by code_simp+
  then show ?thesis using r refresh_keeps_only_cluster_nodes [OF witness_config_ok d r] by auto
qed

section \<open>Repairs end\<close>

lemma repair_attempt_entry:
  assumes "repair_attempt cf addr attempts core = (status, core')" and "status \<noteq> RepairAgain"
  shows "map_of (co_conns core') addr = None \<or> is_connected (map_of (co_conns core') addr)"
  using assms
  by (auto simp: repair_attempt_def remove_node_def delete_conv' update_conv' is_connected_def Let_def
      split: if_splits option.splits prod.splits sum.splits ConnState.splits)

lemma repair_loop_entry:
  "repair_loop cf addr attempts others core = Some (status, core') \<Longrightarrow>
     status \<noteq> RepairAgain \<and> (map_of (co_conns core') addr = None \<or> is_connected (map_of (co_conns core') addr))"
proof (induction others arbitrary: attempts core)
  case Nil
  then show ?case using repair_attempt_entry [of cf addr "attempts + 1" core status core']
    by (auto split: prod.splits repair.splits)
next
  case (Cons other others)
  obtain st core1 where a: "repair_attempt cf addr (attempts + 1) core = (st, core1)" by fastforce
  show ?case
  proof (cases st)
    case RepairAgain
    then show ?thesis using Cons.prems Cons.IH [of "attempts + 1" "other core1"] a by simp
  qed (use Cons.prems a repair_attempt_entry [OF a] in auto)
qed

lemma repair_loop_stops:
  assumes "cf_max_attempts cf = Some m" and "m \<le> attempts + length others"
  shows "\<exists>res. repair_loop cf addr attempts others core = Some res"
  using assms(2)
proof (induction others arbitrary: attempts core)
  case Nil
  then show ?case using assms(1) by (simp add: repair_attempt_def)
next
  case (Cons other others)
  obtain st core1 where a: "repair_attempt cf addr (attempts + 1) core = (st, core1)" by fastforce
  show ?case
  proof (cases st)
    case RepairAgain
    then show ?thesis using Cons.prems Cons.IH [of "attempts + 1" "other core1"] a by simp
  qed (use a in auto)
qed

lemma next_backoff_bounds: "0 < b \<Longrightarrow> b \<le> 1000 \<Longrightarrow> 0 < next_backoff b \<and> b \<le> next_backoff b \<and> next_backoff b \<le> 1000"
  by (auto simp: next_backoff_def)

text \<open>C30.  Repairing a lost connection.  With a limit on the number of attempts the loop ends after at
  most that many pauses, whatever the other tasks do to the connections meanwhile; and whenever it
  ends, the node has an established connection or is no longer listed, so no connection is left under
  repair without anyone repairing it.\<close>

theorem repair_ends_connected_or_removed:
  assumes "cf_max_attempts cf = Some m" and "m \<le> length others"
    and "map_of (co_conns core) addr \<noteq> Some Connecting" and "\<And>c. map_of (co_conns core) addr \<noteq> Some (Reconnecting c)"
  shows "\<exists>status core'. reconnect_loop cf addr others core = Some (status, core') \<and>
           (map_of (co_conns core') addr = None \<or> (\<exists>c. map_of (co_conns core') addr = Some (Connected c)))"
proof -
  let ?core = "core\<lparr>co_conns := mark_reconnecting addr (co_conns core)\<rparr>"
  have start: "reconnect_loop cf addr others core = repair_loop cf addr 0 others ?core"
    using assms(3,4) unfolding reconnect_loop_def by (simp del: repair_loop.simps split: option.splits ConnState.splits)
  obtain status core' where "repair_loop cf addr 0 others ?core = Some (status, core')"
    using repair_loop_stops [OF assms(1), of 0 others addr ?core] assms(2) by auto
  with repair_loop_entry [OF this] start show ?thesis
    by (auto simp: is_connected_def split: option.splits ConnState.splits)
qed

theorem repair_ends_connected_or_removed_witness:
  "\<exists>status core'. reconnect_loop (witness_config\<lparr>cf_connect := (\<lambda>_ w. (Inl no_connections, w)),
       cf_req := (\<lambda>_ _ w. (Inl no_connections, w))\<rparr>) (NodeAddress ''b'' 2) [id, id, id] witness_core = Some (status, core') \<and>
     (map_of (co_conns core') (NodeAddress ''b'' 2) = None \<or>
      (\<exists>c. map_of (co_conns core') (NodeAddress ''b'' 2) = Some (Connected c)))"
  by (rule repair_ends_connected_or_removed [where m = 3]) (simp_all add: witness_config_def witness_core_def numeral_3_eq_3)

end
