(* ===== verification/Cluster_Loop.thy ===== *)
theory Cluster_Loop
  imports Cluster_Request Subscription_Tracker
begin

text \<open>
  The event loop of the asynchronous cluster connection (\<^verbatim>\<open>ClusterConnInner\<close> in
  \<^verbatim>\<open>cluster_handling/async_connection/mod.rs\<close>, with \<^verbatim>\<open>Request::poll\<close> of \<^verbatim>\<open>request.rs\<close>): the queue of
  pending requests, the requests in flight, the answers sent, and the recovery state.

  What the futures yield is input: an element \<open>(i, outcome)\<close> of \<open>ready\<close> says that the future at
  position \<open>i\<close> of the requests in flight is ready with \<open>outcome\<close>.  The futures that refresh the
  slots or reconnect are input as well: \<open>recovered\<close> is \<open>None\<close> while they are pending.
\<close>

section \<open>State\<close>

datatype RequestState = FutureState | SleepState u64

record 'c Request =
  rq_request :: "'c PendingRequest option"
  rq_future :: RequestState

datatype ConnectionState = PollComplete | RecoverSlots | ReconnectInitial

record 'c cluster_inner =
  ci_state :: ConnectionState
  ci_pending :: "'c PendingRequest list"
  ci_in_flight :: "'c Request list"
  ci_refresh_error :: "RedisError option"
  ci_reconnects :: "NodeAddress set"
  ci_closed :: "nat set"
  ci_sent :: sends

definition cluster_inner_new :: "'c cluster_inner" where
  "cluster_inner_new =
     \<lparr>ci_state = ReconnectInitial, ci_pending = [], ci_in_flight = [], ci_refresh_error = None,
      ci_reconnects = {}, ci_closed = {}, ci_sent = []\<rparr>"

section \<open>Requests\<close>

definition start_send :: "'c CmdArg \<Rightarrow> ResultExpectation \<Rightarrow> 'c cluster_inner \<Rightarrow> 'c cluster_inner" where
  "start_send c sender s =
     s\<lparr>ci_pending := ci_pending s @ [\<lparr>pr_retry = 0, pr_sender = sender, pr_cmd = c\<rparr>]\<rparr>"

definition in_flight :: "'c PendingRequest \<Rightarrow> RequestState \<Rightarrow> 'c cluster_inner \<Rightarrow> 'c cluster_inner" where
  "in_flight request future s =
     s\<lparr>ci_in_flight := ci_in_flight s @ [\<lparr>rq_request = Some request, rq_future = future\<rparr>]\<rparr>"

definition handle_retries :: "'c Retry option \<Rightarrow> 'c cluster_inner \<Rightarrow> 'c cluster_inner" where
  "handle_retries request_handling s = (case request_handling of
     Some (MoveToPending request) \<Rightarrow> s\<lparr>ci_pending := ci_pending s @ [request]\<rparr>
   | Some (Immediately request) \<Rightarrow> in_flight request FutureState s
   | Some (AfterSleep request sleep_duration) \<Rightarrow> in_flight request (SleepState sleep_duration) s
   | None \<Rightarrow> s)"

definition dispatch_pending :: "'c cluster_inner \<Rightarrow> 'c cluster_inner" where
  "dispatch_pending s =
     fold (\<lambda>request s'. in_flight request FutureState s')
       (filter (\<lambda>request. \<not> expectation_is_closed (ci_closed s) (pr_sender request)) (ci_pending s))
       (s\<lparr>ci_pending := []\<rparr>)"

definition request_poll ::
    "(u64 \<Rightarrow> u64 \<Rightarrow> u64) \<Rightarrow> RetryParams \<Rightarrow> nat set \<Rightarrow> OperationTarget \<times> Response redis_result \<Rightarrow> 'c Request \<Rightarrow>
     ('c Retry option \<times> PollFlushAction \<times> sends) run" where
  "request_poll rng params closed outcome rq = (case rq_request rq of
     None \<Rightarrow> Ret (None, FlushNone, [])
   | Some request \<Rightarrow>
       (if expectation_is_closed closed (pr_sender request) then Ret (None, FlushNone, [])
        else (case rq_future rq of
                SleepState _ \<Rightarrow> Ret (Some (Immediately request), FlushNone, [])
              | FutureState \<Rightarrow> choose_response rng outcome request params)))"

text \<open>One pass of the loop of \<^verbatim>\<open>poll_in_flight\<close>.\<close>

definition poll_one ::
    "(u64 \<Rightarrow> u64 \<Rightarrow> u64) \<Rightarrow> RetryParams \<Rightarrow> nat \<Rightarrow> OperationTarget \<times> Response redis_result \<Rightarrow> 'c cluster_inner \<Rightarrow>
     (PollFlushAction \<times> 'c cluster_inner) run" where
  "poll_one rng params i outcome s =
     (if i < length (ci_in_flight s) then
        run_bind (request_poll rng params (ci_closed s) outcome (ci_in_flight s ! i)) (\<lambda>(request_handling, next', sent).
          let s1 = s\<lparr>ci_in_flight := take i (ci_in_flight s) @ drop (Suc i) (ci_in_flight s),
                     ci_sent := ci_sent s @ sent\<rparr>
          in Ret (next', handle_retries request_handling s1))
      else Ret (FlushNone, s))"

fun poll_ready ::
    "(u64 \<Rightarrow> u64 \<Rightarrow> u64) \<Rightarrow> RetryParams \<Rightarrow> (nat \<times> OperationTarget \<times> Response redis_result) list \<Rightarrow> PollFlushAction \<Rightarrow>
     'c cluster_inner \<Rightarrow> (PollFlushAction \<times> 'c cluster_inner) run" where
  "poll_ready rng params [] action s = Ret (action, s)"
| "poll_ready rng params ((i, outcome) # ready) action s =
     run_bind (poll_one rng params i outcome s) (\<lambda>(next', s').
       poll_ready rng params ready (change_state action next') s')"

text \<open>\<open>None\<close> is \<^verbatim>\<open>Poll::Pending\<close>.\<close>

definition poll_in_flight ::
    "(u64 \<Rightarrow> u64 \<Rightarrow> u64) \<Rightarrow> RetryParams \<Rightarrow> (nat \<times> OperationTarget \<times> Response redis_result) list \<Rightarrow>
     'c cluster_inner \<Rightarrow> (PollFlushAction option \<times> 'c cluster_inner) run" where
  "poll_in_flight rng params ready s =
     run_bind (poll_ready rng params ready FlushNone s) (\<lambda>(poll_flush_action, s').
       Ret (if poll_flush_action \<noteq> FlushNone \<or> ci_in_flight s' = [] then Some poll_flush_action else None, s'))"

definition poll_complete ::
    "(u64 \<Rightarrow> u64 \<Rightarrow> u64) \<Rightarrow> RetryParams \<Rightarrow> (nat \<times> OperationTarget \<times> Response redis_result) list \<Rightarrow>
     'c cluster_inner \<Rightarrow> (PollFlushAction option \<times> 'c cluster_inner) run" where
  "poll_complete rng params ready s = poll_in_flight rng params ready (dispatch_pending s)"

fun fail_requests ::
    "(u64 \<Rightarrow> u64 \<Rightarrow> u64) \<Rightarrow> RetryParams \<Rightarrow> RedisError \<Rightarrow> 'c PendingRequest list \<Rightarrow> 'c cluster_inner \<Rightarrow> 'c cluster_inner run" where
  "fail_requests rng params refresh_error [] s = Ret s"
| "fail_requests rng params refresh_error (request # requests) s =
     run_bind (choose_response rng (NotFound, Inl refresh_error) request params) (\<lambda>(request_handling, _, sent).
       fail_requests rng params refresh_error requests (handle_retries request_handling (s\<lparr>ci_sent := ci_sent s @ sent\<rparr>)))"

definition send_refresh_error ::
    "(u64 \<Rightarrow> u64 \<Rightarrow> u64) \<Rightarrow> RetryParams \<Rightarrow> 'c cluster_inner \<Rightarrow> 'c cluster_inner run" where
  "send_refresh_error rng params s = (case ci_refresh_error s of
     None \<Rightarrow> Ret s
   | Some refresh_error \<Rightarrow>
       (let inflight_requests = List.map_filter rq_request (ci_in_flight s);
            s1 = s\<lparr>ci_refresh_error := None,
                   ci_in_flight := map (\<lambda>rq. rq\<lparr>rq_request := None\<rparr>) (ci_in_flight s)\<rparr>
        in if inflight_requests \<noteq> [] then fail_requests rng params refresh_error inflight_requests s1
           else (case ci_pending s1 of
                   [] \<Rightarrow> Ret s1
                 | request # rest \<Rightarrow> fail_requests rng params refresh_error [request] (s1\<lparr>ci_pending := rest\<rparr>))))"

section \<open>Subscriptions and recovery\<close>

definition resubscribe_request ::
    "(bytes \<Rightarrow> u16) \<Rightarrow> ((Route \<times> nat list) list \<Rightarrow> (Route \<times> nat list) list) \<Rightarrow> u16 \<Rightarrow> Cmd \<Rightarrow> 'c PendingRequest run" where
  "resubscribe_request crc16 hm drawn c =
     map_run (\<lambda>info.
       let routing = internal_routing_of drawn (case info of Some r \<Rightarrow> r | None \<Rightarrow> SingleNode Random)
       in \<lparr>pr_retry = 0, pr_sender = Internal, pr_cmd = CmdRequest c routing\<rparr>)
       (for_routable crc16 hm cmd_routable c)"

fun map_runs :: "('a \<Rightarrow> 'b run) \<Rightarrow> 'a list \<Rightarrow> 'b list run" where
  "map_runs f [] = Ret []"
| "map_runs f (x # xs) = run_bind (f x) (\<lambda>y. run_bind (map_runs f xs) (\<lambda>ys. Ret (y # ys)))"

record cluster_env =
  env_crc16 :: "bytes \<Rightarrow> u16"
  env_hm :: "(Route \<times> nat list) list \<Rightarrow> (Route \<times> nat list) list"
  env_hs :: "bytes set \<Rightarrow> bytes list"
  env_itoa :: "int \<Rightarrow> bytes"
  env_drawn :: u16

definition resubscribe_all ::
    "cluster_env \<Rightarrow> SubscriptionTracker option \<Rightarrow> 'c cluster_inner \<Rightarrow> 'c cluster_inner run" where
  "resubscribe_all E tracker s = (case tracker of
     None \<Rightarrow> Ret s
   | Some t \<Rightarrow>
       run_bind (get_subscription_pipeline (env_itoa E) (env_hs E) t) (\<lambda>subscription_pipe.
       run_bind (map_runs (resubscribe_request (env_crc16 E) (env_hm E) (env_drawn E)) (commands subscription_pipe)) (\<lambda>requests.
         Ret (s\<lparr>ci_pending := ci_pending s @ requests\<rparr>))))"

text \<open>\<open>None\<close> is \<^verbatim>\<open>Poll::Pending\<close>.\<close>

definition poll_recover ::
    "cluster_env \<Rightarrow> SubscriptionTracker option \<Rightarrow> unit redis_result option \<Rightarrow> 'c cluster_inner \<Rightarrow>
     (unit redis_result option \<times> 'c cluster_inner) run" where
  "poll_recover E tracker recovered s =
     (let complete = map_run (\<lambda>s'. (Some (Inr ()), s')) (resubscribe_all E tracker (s\<lparr>ci_state := PollComplete\<rparr>))
      in (case ci_state s of
            PollComplete \<Rightarrow> Ret (Some (Inr ()), s)
          | RecoverSlots \<Rightarrow>
              (case recovered of
                 None \<Rightarrow> Ret (None, s)
               | Some (Inr _) \<Rightarrow> complete
               | Some (Inl err) \<Rightarrow> Ret (Some (Inl err), s))
          | ReconnectInitial \<Rightarrow>
              (case recovered of
                 None \<Rightarrow> Ret (None, s)
               | Some _ \<Rightarrow> complete)))"

section \<open>The loop\<close>

text \<open>What one pass of the loop of \<^verbatim>\<open>poll_flush\<close> ends with: it returns, ready or pending, or goes on.
  Input are the reconnects that finish during the pass, and the addresses whose connection is known
  to be under repair, if the lock of the connections can be taken at once.\<close>

datatype flush_result = FlushReady | FlushPending | FlushAgain

record flush_input =
  fi_reconnected :: "NodeAddress set"
  fi_repairing :: "NodeAddress set option"
  fi_tracker :: "SubscriptionTracker option"
  fi_recovered :: "unit redis_result option"
  fi_ready :: "(nat \<times> OperationTarget \<times> Response redis_result) list"

definition register_reconnect_futures ::
    "NodeAddress set option \<Rightarrow> NodeAddress set \<Rightarrow> 'c cluster_inner \<Rightarrow> 'c cluster_inner" where
  "register_reconnect_futures repairing addrs s =
     s\<lparr>ci_reconnects := ci_reconnects s \<union> (case repairing of None \<Rightarrow> addrs | Some busy \<Rightarrow> addrs - busy)\<rparr>"

definition flush_action ::
    "NodeAddress set option \<Rightarrow> PollFlushAction \<Rightarrow> 'c cluster_inner \<Rightarrow> flush_result \<times> 'c cluster_inner" where
  "flush_action repairing action s = (case action of
     FlushNone \<Rightarrow> (FlushReady, s)
   | RebuildSlots \<Rightarrow> (FlushAgain, s\<lparr>ci_state := RecoverSlots\<rparr>)
   | FlushReconnect addrs \<Rightarrow> (FlushAgain, register_reconnect_futures repairing addrs s)
   | FlushReconnectInitial \<Rightarrow> (FlushAgain, s\<lparr>ci_state := ReconnectInitial\<rparr>))"

definition poll_flush_pass ::
    "(u64 \<Rightarrow> u64 \<Rightarrow> u64) \<Rightarrow> RetryParams \<Rightarrow> cluster_env \<Rightarrow> flush_input \<Rightarrow> 'c cluster_inner \<Rightarrow>
     (flush_result \<times> 'c cluster_inner) run" where
  "poll_flush_pass rng params E inp s =
     run_bind (send_refresh_error rng params s) (\<lambda>s1.
     run_bind (poll_recover E (fi_tracker inp) (fi_recovered inp)
                 (s1\<lparr>ci_reconnects := ci_reconnects s1 - fi_reconnected inp\<rparr>)) (\<lambda>(res, s2).
       case res of
         None \<Rightarrow> Ret (FlushPending, s2)
       | Some (Inl err) \<Rightarrow> Ret (FlushPending, s2\<lparr>ci_refresh_error := Some err\<rparr>)
       | Some (Inr _) \<Rightarrow>
           run_bind (poll_complete rng params (fi_ready inp) s2) (\<lambda>(action, s3).
             case action of
               None \<Rightarrow> Ret (FlushPending, s3)
             | Some a \<Rightarrow> Ret (flush_action (fi_repairing inp) a s3))))"

section \<open>Accounting for requests\<close>

text \<open>The requests that are still to be answered, and the channels they are to be answered on.\<close>

definition live :: "'c cluster_inner \<Rightarrow> 'c PendingRequest list" where
  "live s = ci_pending s @ List.map_filter rq_request (ci_in_flight s)"

fun channel :: "ResultExpectation \<Rightarrow> nat multiset" where
  "channel (External ch) = {#ch#}"
| "channel Internal = {#}"

definition channels :: "'c PendingRequest list \<Rightarrow> nat multiset" where
  "channels rs = (\<Sum>r \<leftarrow> rs. channel (pr_sender r))"

definition answered :: "sends \<Rightarrow> nat multiset" where
  "answered sent = mset (map fst sent)"

lemma channels_simps [simp]:
  "channels [] = {#}" "channels (r # rs) = channel (pr_sender r) + channels rs"
  "channels (rs @ rs') = channels rs + channels rs'"
  by (simp_all add: channels_def)

lemma answered_simps [simp]:
  "answered [] = {#}" "answered (sent @ sent') = answered sent + answered sent'"
  by (simp_all add: answered_def)

lemma answered_expectation_send [simp]: "answered (expectation_send sender r) = channel sender"
  by (cases sender) (simp_all add: expectation_send_def answered_def)

text \<open>The steps of the loop only lose requests whose caller is gone, and answer each request at most
  once: \<open>kept closed before after\<close> compares the channels before and after a step.\<close>

definition kept :: "nat set \<Rightarrow> nat multiset \<Rightarrow> nat multiset \<Rightarrow> bool" where
  "kept closed before after \<longleftrightarrow>
     (\<forall>ch. count after ch \<le> count before ch \<and> (ch \<notin> closed \<longrightarrow> count after ch = count before ch))"

lemma kept_refl [simp, intro]: "kept closed M M"
  by (simp add: kept_def)

lemma kept_trans: "kept closed M M' \<Longrightarrow> kept closed M' M'' \<Longrightarrow> kept closed M M''"
  unfolding kept_def by (metis le_trans)

lemma kept_add: "kept closed M M' \<Longrightarrow> kept closed (M + N) (M' + N)"
  by (simp add: kept_def)

lemma kept_drop: "expectation_is_closed closed sender \<Longrightarrow> kept closed (channel sender + M) M"
  by (cases sender) (auto simp: kept_def expectation_is_closed_def)

definition load :: "'c cluster_inner \<Rightarrow> nat multiset" where
  "load s = channels (live s) + answered (ci_sent s)"

text \<open>No request has used more retries than allowed.\<close>

definition retries_ok :: "RetryParams \<Rightarrow> 'c PendingRequest list \<Rightarrow> bool" where
  "retries_ok params rs \<longleftrightarrow> (\<forall>r \<in> set rs. pr_retry r \<le> number_of_retries params)"

lemma retries_ok_simps [simp]:
  "retries_ok params []" "retries_ok params (r # rs) \<longleftrightarrow> pr_retry r \<le> number_of_retries params \<and> retries_ok params rs"
  "retries_ok params (rs @ rs') \<longleftrightarrow> retries_ok params rs \<and> retries_ok params rs'"
  by (auto simp: retries_ok_def)

subsection \<open>Single steps\<close>

lemma live_in_flight: "live (in_flight r f s) = live s @ [r]"
  by (simp add: live_def in_flight_def List.map_filter_simps)

lemma in_flight_fields [simp]:
  "ci_sent (in_flight r f s) = ci_sent s" "ci_closed (in_flight r f s) = ci_closed s"
  "ci_pending (in_flight r f s) = ci_pending s" "ci_refresh_error (in_flight r f s) = ci_refresh_error s"
  by (simp_all add: in_flight_def)

lemma handle_retries_fields [simp]:
  "ci_sent (handle_retries h s) = ci_sent s" "ci_closed (handle_retries h s) = ci_closed s"
  "ci_refresh_error (handle_retries h s) = ci_refresh_error s"
  by (simp_all add: handle_retries_def split: option.splits Retry.splits)

lemma channels_handle_retries:
  "channels (live (handle_retries h s)) =
     channels (live s) + (case h of None \<Rightarrow> {#} | Some again \<Rightarrow> channel (pr_sender (retry_request again)))"
  by (auto simp: handle_retries_def live_in_flight split: option.splits Retry.splits)
     (simp_all add: live_def ac_simps)

lemma retries_ok_handle_retries:
  "retries_ok params (live (handle_retries h s)) \<longleftrightarrow>
     retries_ok params (live s) \<and>
     (case h of None \<Rightarrow> True | Some again \<Rightarrow> pr_retry (retry_request again) \<le> number_of_retries params)"
  by (auto simp: handle_retries_def live_in_flight split: option.splits Retry.splits) (auto simp: live_def)

lemma load_handle_retries:
  assumes "answered_or_retried params request h sent"
  shows "load (handle_retries h (s\<lparr>ci_sent := ci_sent s @ sent\<rparr>)) = load s + channel (pr_sender request)"
proof -
  have "live (s\<lparr>ci_sent := ci_sent s @ sent\<rparr>) = live s" by (simp add: live_def)
  then show ?thesis
    using assms by (auto simp: load_def channels_handle_retries answered_or_retried_def split: option.splits)
qed

lemma answered_or_retried_bound:
  "answered_or_retried params request (Some again) sent \<Longrightarrow>
     pr_retry (retry_request again) \<le> number_of_retries params"
  by (auto simp: answered_or_retried_def word_le_nat_alt word_less_nat_alt)

lemma live_updates [simp]:
  "live (ci_sent_update f s) = live s" "live (ci_state_update g s) = live s"
  "live (ci_refresh_error_update e s) = live s" "live (ci_reconnects_update r s) = live s"
  "live (ci_closed_update c s) = live s"
  by (simp_all add: live_def)

lemma load_updates [simp]:
  "load (ci_state_update g s) = load s" "load (ci_refresh_error_update e s) = load s"
  "load (ci_reconnects_update r s) = load s" "load (ci_closed_update c s) = load s"
  by (simp_all add: load_def)

subsection \<open>The operations keep every request\<close>

definition keeps :: "RetryParams \<Rightarrow> 'c cluster_inner \<Rightarrow> 'c cluster_inner \<Rightarrow> bool" where
  "keeps params s s' \<longleftrightarrow>
     ci_closed s' = ci_closed s \<and> retries_ok params (live s') \<and> kept (ci_closed s) (load s) (load s')"

lemma keepsI [intro?]:
  "ci_closed s' = ci_closed s \<Longrightarrow> retries_ok params (live s') \<Longrightarrow> kept (ci_closed s) (load s) (load s') \<Longrightarrow>
     keeps params s s'"
  by (simp add: keeps_def)

lemma keepsD:
  assumes "keeps params s s'"
  shows "ci_closed s' = ci_closed s" "retries_ok params (live s')" "kept (ci_closed s) (load s) (load s')"
  using assms by (simp_all add: keeps_def)

lemma keeps_refl [intro]: "retries_ok params (live s) \<Longrightarrow> keeps params s s"
  by (simp add: keeps_def)

lemma keeps_trans [trans]: "keeps params s s' \<Longrightarrow> keeps params s' s'' \<Longrightarrow> keeps params s s''"
  unfolding keeps_def using kept_trans by metis

lemma live_dispatch:
  "live (fold (\<lambda>request s'. in_flight request FutureState s') rs s) = live s @ rs"
  by (induction rs arbitrary: s) (simp_all add: live_in_flight)

lemma fold_in_flight_fields:
  "ci_sent (fold (\<lambda>request s'. in_flight request FutureState s') rs s) = ci_sent s"
  "ci_closed (fold (\<lambda>request s'. in_flight request FutureState s') rs s) = ci_closed s"
  "ci_pending (fold (\<lambda>request s'. in_flight request FutureState s') rs s) = ci_pending s"
  by (induction rs arbitrary: s) simp_all

lemma kept_filter_open:
  "kept closed (channels rs) (channels (filter (\<lambda>r. \<not> expectation_is_closed closed (pr_sender r)) rs))"
proof (induction rs)
  case (Cons r rs)
  show ?case
  proof (cases "expectation_is_closed closed (pr_sender r)")
    case True
    then show ?thesis using Cons kept_trans [OF kept_drop [OF True, of "channels rs"]] by simp
  next
    case False
    then show ?thesis using kept_add [OF Cons.IH, of "channel (pr_sender r)"] by (simp add: ac_simps)
  qed
qed simp

lemma dispatch_pending_keeps:
  assumes "retries_ok params (live s)"
  shows "keeps params s (dispatch_pending s)"
proof
  let ?open = "filter (\<lambda>r. \<not> expectation_is_closed (ci_closed s) (pr_sender r)) (ci_pending s)"
  have l: "live (dispatch_pending s) = List.map_filter rq_request (ci_in_flight s) @ ?open"
    by (simp add: dispatch_pending_def live_dispatch) (simp add: live_def)
  show "ci_closed (dispatch_pending s) = ci_closed s"
    by (simp add: dispatch_pending_def fold_in_flight_fields)
  show "retries_ok params (live (dispatch_pending s))"
    using assms unfolding l by (auto simp: live_def retries_ok_def)
  have "load (dispatch_pending s) =
      channels ?open + (channels (List.map_filter rq_request (ci_in_flight s)) + answered (ci_sent s))"
    unfolding load_def l by (simp add: dispatch_pending_def fold_in_flight_fields ac_simps)
  moreover have "load s =
      channels (ci_pending s) + (channels (List.map_filter rq_request (ci_in_flight s)) + answered (ci_sent s))"
    by (simp add: load_def live_def ac_simps)
  ultimately show "kept (ci_closed s) (load s) (load (dispatch_pending s))"
    using kept_add [OF kept_filter_open [of "ci_closed s" "ci_pending s"]] by simp
qed

text \<open>What polling one future gives.\<close>

lemma request_poll_outcome:
  assumes "retry_params_ok params"
    and "\<forall>request. rq_request rq = Some request \<longrightarrow> pr_retry request \<le> number_of_retries params"
  obtains h action sent where "request_poll rng params closed outcome rq = Ret (h, action, sent)"
    and "(rq_request rq = None \<or> (\<exists>request. rq_request rq = Some request \<and> expectation_is_closed closed (pr_sender request))) \<and>
           h = None \<and> sent = [] \<or>
         (\<exists>request. rq_request rq = Some request \<and> rq_future rq \<noteq> FutureState \<and> h = Some (Immediately request) \<and> sent = []) \<or>
         (\<exists>request. rq_request rq = Some request \<and> rq_future rq = FutureState \<and> answered_or_retried params request h sent)"
proof (cases "rq_request rq")
  case None
  then show ?thesis using that by (simp add: request_poll_def)
next
  case (Some request)
  show ?thesis
  proof (cases "expectation_is_closed closed (pr_sender request)")
    case True
    then show ?thesis using that Some by (simp add: request_poll_def)
  next
    case False
    show ?thesis
    proof (cases "rq_future rq")
      case (SleepState d)
      then show ?thesis using that Some False by (simp add: request_poll_def)
    next
      case FutureState
      obtain h action sent where "choose_response rng outcome request params = Ret (h, action, sent)"
        "answered_or_retried params request h sent"
        using choose_response_outcome [OF assms(1)] assms(2) Some by blast
      then show ?thesis using that Some False FutureState by (simp add: request_poll_def)
    qed
  qed
qed

lemma poll_one_keeps:
  assumes "retry_params_ok params" and "retries_ok params (live s)"
  shows "\<exists>action s'. poll_one rng params i outcome s = Ret (action, s') \<and> keeps params s s'"
proof (cases "i < length (ci_in_flight s)")
  case False
  then show ?thesis using keeps_refl [OF assms(2)] by (simp add: poll_one_def)
next
  case i: True
  let ?rq = "ci_in_flight s ! i"
  let ?s0 = "s\<lparr>ci_in_flight := take i (ci_in_flight s) @ drop (Suc i) (ci_in_flight s)\<rparr>"
  have split: "ci_in_flight s = take i (ci_in_flight s) @ ?rq # drop (Suc i) (ci_in_flight s)"
    using i by (rule id_take_nth_drop)
  have all: "List.map_filter rq_request (ci_in_flight s) =
      List.map_filter rq_request (take i (ci_in_flight s)) @
      (case rq_request ?rq of None \<Rightarrow> [] | Some r \<Rightarrow> [r]) @ List.map_filter rq_request (drop (Suc i) (ci_in_flight s))"
    by (subst split) (simp add: List.map_filter_simps split: option.splits)
  have load: "load s = load ?s0 + (case rq_request ?rq of None \<Rightarrow> {#} | Some r \<Rightarrow> channel (pr_sender r))"
    by (simp add: load_def live_def all ac_simps split: option.splits)
  have ok: "retries_ok params (live ?s0)" "\<forall>r. rq_request ?rq = Some r \<longrightarrow> pr_retry r \<le> number_of_retries params"
    using assms(2) by (auto simp: live_def all)
  obtain h action sent where poll: "request_poll rng params (ci_closed s) outcome ?rq = Ret (h, action, sent)"
    and cases: "(rq_request ?rq = None \<or> (\<exists>r. rq_request ?rq = Some r \<and> expectation_is_closed (ci_closed s) (pr_sender r))) \<and>
           h = None \<and> sent = [] \<or>
         (\<exists>r. rq_request ?rq = Some r \<and> rq_future ?rq \<noteq> FutureState \<and> h = Some (Immediately r) \<and> sent = []) \<or>
         (\<exists>r. rq_request ?rq = Some r \<and> rq_future ?rq = FutureState \<and> answered_or_retried params r h sent)"
    by (rule request_poll_outcome [OF assms(1) ok(2)])
  let ?s' = "handle_retries h (?s0\<lparr>ci_sent := ci_sent ?s0 @ sent\<rparr>)"
  have step: "poll_one rng params i outcome s = Ret (action, ?s')"
    using i poll by (simp add: poll_one_def Let_def)
  have "keeps params s ?s'"
  proof
    show "ci_closed ?s' = ci_closed s" by simp
    show "retries_ok params (live ?s')"
      using cases ok answered_or_retried_bound
      by (auto simp: retries_ok_handle_retries split: option.splits)
    show "kept (ci_closed s) (load s) (load ?s')"
      using cases
    proof (elim disjE conjE exE)
      fix r assume r: "rq_request ?rq = Some r" "answered_or_retried params r h sent"
      show ?thesis using load_handle_retries [OF r(2), of ?s0] load r(1) by simp
    next
      fix r assume "rq_request ?rq = Some r" "h = Some (Immediately r)" "sent = []"
      then show ?thesis using load by (simp add: load_def channels_handle_retries ac_simps)
    next
      assume "h = None" "sent = []" "rq_request ?rq = None"
      then show ?thesis using load by (simp add: handle_retries_def load_def live_def)
    next
      fix r assume "h = None" "sent = []" "rq_request ?rq = Some r" "expectation_is_closed (ci_closed s) (pr_sender r)"
      then show ?thesis using load kept_drop [of "ci_closed s" "pr_sender r" "load ?s0"]
        by (simp add: handle_retries_def load_def live_def ac_simps)
    qed
  qed
  then show ?thesis using step by blast
qed

lemma poll_ready_keeps:
  assumes "retry_params_ok params" and "retries_ok params (live s)"
  shows "\<exists>action' s'. poll_ready rng params ready action s = Ret (action', s') \<and> keeps params s s'"
  using assms(2)
proof (induction ready arbitrary: action s)
  case (Cons r ready)
  obtain i outcome where r: "r = (i, outcome)" by (cases r)
  obtain next' s1 where one: "poll_one rng params i outcome s = Ret (next', s1)" "keeps params s s1"
    using poll_one_keeps [OF assms(1) Cons.prems] by blast
  then show ?case
    using Cons.IH [OF keepsD(2) [OF one(2)], of "change_state action next'"] keeps_trans [OF one(2)] r by auto
qed (use keeps_refl in auto)

lemma poll_complete_keeps:
  assumes "retry_params_ok params" and "retries_ok params (live s)"
  shows "\<exists>action s'. poll_complete rng params ready s = Ret (action, s') \<and> keeps params s s'"
proof -
  note dispatched = dispatch_pending_keeps [OF assms(2)]
  obtain action s' where "poll_ready rng params ready FlushNone (dispatch_pending s) = Ret (action, s')"
    "keeps params (dispatch_pending s) s'"
    using poll_ready_keeps [OF assms(1) keepsD(2) [OF dispatched]] by blast
  then show ?thesis
    using keeps_trans [OF dispatched] by (auto simp: poll_complete_def poll_in_flight_def)
qed

lemma fail_requests_load:
  assumes "retry_params_ok params" and "retries_ok params (live s)" and "retries_ok params rs"
  shows "\<exists>s'. fail_requests rng params e rs s = Ret s' \<and> ci_closed s' = ci_closed s \<and>
           retries_ok params (live s') \<and> load s' = load s + channels rs"
  using assms(2,3)
proof (induction rs arbitrary: s)
  case (Cons r rs)
  obtain h action sent where c: "choose_response rng (NotFound, Inl e) r params = Ret (h, action, sent)"
    "answered_or_retried params r h sent"
    using choose_response_outcome [OF assms(1)] Cons.prems(2) by force
  let ?s = "handle_retries h (s\<lparr>ci_sent := ci_sent s @ sent\<rparr>)"
  have "retries_ok params (live ?s)"
    using Cons.prems(1) c(2) answered_or_retried_bound by (auto simp: retries_ok_handle_retries split: option.splits)
  then obtain s' where "fail_requests rng params e rs ?s = Ret s'" "ci_closed s' = ci_closed ?s"
    "retries_ok params (live s')" "load s' = load ?s + channels rs"
    using Cons.IH [of ?s] Cons.prems(2) by auto
  then show ?case using c load_handle_retries [OF c(2), of s] by (auto simp: ac_simps)
qed simp

lemma map_filter_no_request [simp]:
  "List.map_filter rq_request (map (\<lambda>rq. rq\<lparr>rq_request := None\<rparr>) rqs) = []"
  by (induction rqs) (simp_all add: List.map_filter_simps)

lemma send_refresh_error_keeps:
  assumes "retry_params_ok params" and "retries_ok params (live s)"
  shows "\<exists>s'. send_refresh_error rng params s = Ret s' \<and> keeps params s s' \<and> load s' = load s"
proof (cases "ci_refresh_error s")
  case None
  then show ?thesis using keeps_refl [OF assms(2)] by (simp add: send_refresh_error_def)
next
  case (Some e)
  let ?rs = "List.map_filter rq_request (ci_in_flight s)"
  let ?s1 = "s\<lparr>ci_refresh_error := None, ci_in_flight := map (\<lambda>rq. rq\<lparr>rq_request := None\<rparr>) (ci_in_flight s)\<rparr>"
  have live1: "live ?s1 = ci_pending s" by (simp add: live_def)
  show ?thesis
  proof (cases "?rs = []")
    case False
    have "retries_ok params (live ?s1)" "retries_ok params ?rs" using assms(2) by (simp_all add: live1) (simp_all add: live_def)
    from fail_requests_load [OF assms(1) this, of rng e]
    obtain s' where "fail_requests rng params e ?rs ?s1 = Ret s'" "ci_closed s' = ci_closed ?s1"
      "retries_ok params (live s')" "load s' = load ?s1 + channels ?rs" by blast
    moreover have "load ?s1 + channels ?rs = load s" by (simp add: load_def live1) (simp add: live_def ac_simps)
    ultimately show ?thesis
      using False Some by (auto simp: send_refresh_error_def Let_def keeps_def)
  next
    case True
    show ?thesis
    proof (cases "ci_pending s")
      case Nil
      then show ?thesis using True Some assms(2) live1
        by (auto simp: send_refresh_error_def Let_def keeps_def load_def live_def)
    next
      case (Cons r rest)
      let ?s2 = "?s1\<lparr>ci_pending := rest\<rparr>"
      have live2: "live ?s2 = rest" by (simp add: live_def)
      have "retries_ok params (live ?s2)" "retries_ok params [r]"
        using assms(2) Cons by (simp_all add: live2) (simp_all add: live_def)
      from fail_requests_load [OF assms(1) this, of rng e]
      obtain s' where "fail_requests rng params e [r] ?s2 = Ret s'" "ci_closed s' = ci_closed ?s2"
        "retries_ok params (live s')" "load s' = load ?s2 + channels [r]" by blast
      moreover have "load ?s2 + channels [r] = load s"
        using True Cons by (simp add: load_def live2) (simp add: live_def ac_simps)
      ultimately show ?thesis
        using True Some Cons by (auto simp: send_refresh_error_def Let_def keeps_def simp del: fail_requests.simps)
    qed
  qed
qed

lemma map_runs_Ret: "\<forall>x \<in> set xs. f x = Ret (g x) \<Longrightarrow> map_runs f xs = Ret (map g xs)"
  by (induction xs) simp_all

lemma tracker_args_plain: "xs \<in> set (tracker_args hs t) \<Longrightarrow> plain_cmd (cmd_of_args xs)"
  using plain_cmd_of_args by (auto simp: tracker_args_def subscribe_args_def split: if_splits)

lemma resubscribe_request_plain:
  assumes "plain_cmd c"
  shows "\<exists>routing. resubscribe_request crc16 hm drawn c =
           Ret \<lparr>pr_retry = 0, pr_sender = Internal, pr_cmd = CmdRequest c routing\<rparr>"
proof -
  have "for_routable crc16 hm cmd_routable c \<noteq> Panic"
    using for_routable_list_no_panic cmd_request.for_routable_args [OF assms] by simp
  then show ?thesis
    by (cases "for_routable crc16 hm cmd_routable c") (simp_all add: resubscribe_request_def Let_def)
qed

lemma resubscribe_all_adds:
  fixes s :: "'c cluster_inner"
  shows "\<exists>rs. resubscribe_all E tracker s = Ret (s\<lparr>ci_pending := ci_pending s @ rs\<rparr>) \<and>
     (\<forall>r \<in> set rs. pr_retry r = 0 \<and> pr_sender r = Internal)"
proof (cases tracker)
  case None
  then show ?thesis by (intro exI [of _ "[]"]) (simp add: resubscribe_all_def)
next
  case (Some t)
  let ?cs = "map cmd_of_args (tracker_args (env_hs E) t)"
  have "\<forall>c \<in> set ?cs. \<exists>routing :: 'c InternalRoutingInfo. resubscribe_request (env_crc16 E) (env_hm E) (env_drawn E) c =
      Ret \<lparr>pr_retry = 0, pr_sender = Internal, pr_cmd = CmdRequest c routing\<rparr>"
    using tracker_args_plain resubscribe_request_plain by fastforce
  then obtain routing :: "Cmd \<Rightarrow> 'c InternalRoutingInfo" where "\<forall>c \<in> set ?cs. resubscribe_request (env_crc16 E) (env_hm E) (env_drawn E) c =
      Ret \<lparr>pr_retry = 0, pr_sender = Internal, pr_cmd = CmdRequest c (routing c)\<rparr>" by (rule bchoice [THEN exE])
  from map_runs_Ret [OF this] show ?thesis
    by (intro exI [of _ "map (\<lambda>c. \<lparr>pr_retry = 0, pr_sender = Internal, pr_cmd = CmdRequest c (routing c)\<rparr>) ?cs"])
       (auto simp: resubscribe_all_def Some get_subscription_pipeline_eq)
qed

lemma channels_internal: "\<forall>r \<in> set rs. pr_sender r = Internal \<Longrightarrow> channels rs = {#}"
  by (induction rs) simp_all

lemma resubscribe_all_keeps:
  assumes "retries_ok params (live s)"
  shows "\<exists>s'. resubscribe_all E tracker s = Ret s' \<and> keeps params s s'"
proof -
  obtain rs where rs: "resubscribe_all E tracker s = Ret (s\<lparr>ci_pending := ci_pending s @ rs\<rparr>)"
    "\<forall>r \<in> set rs. pr_retry r = 0 \<and> pr_sender r = Internal"
    using resubscribe_all_adds by blast
  then have "channels rs = {#}" "retries_ok params rs" by (simp_all add: channels_internal retries_ok_def)
  then have "keeps params s (s\<lparr>ci_pending := ci_pending s @ rs\<rparr>)"
    using assms by (simp add: keeps_def load_def live_def)
  then show ?thesis using rs(1) by blast
qed

lemma poll_recover_keeps:
  assumes "retries_ok params (live s)"
  shows "\<exists>res s'. poll_recover E tracker recovered s = Ret (res, s') \<and> keeps params s s'"
proof -
  obtain s' where s': "resubscribe_all E tracker (s\<lparr>ci_state := PollComplete\<rparr>) = Ret s'"
    "keeps params (s\<lparr>ci_state := PollComplete\<rparr>) s'"
    using resubscribe_all_keeps [of params "s\<lparr>ci_state := PollComplete\<rparr>"] assms by auto
  moreover have "keeps params s s'" using s'(2) by (simp add: keeps_def)
  ultimately show ?thesis using keeps_refl [OF assms]
    by (auto simp: poll_recover_def Let_def split: ConnectionState.splits option.splits sum.splits)
qed

lemma poll_flush_pass_keeps:
  assumes "retry_params_ok params" and "retries_ok params (live s)"
  shows "\<exists>res s'. poll_flush_pass rng params E inp s = Ret (res, s') \<and> keeps params s s'"
proof -
  obtain s1 where s1: "send_refresh_error rng params s = Ret s1" "keeps params s s1"
    using send_refresh_error_keeps [OF assms] by blast
  let ?s1 = "s1\<lparr>ci_reconnects := ci_reconnects s1 - fi_reconnected inp\<rparr>"
  have k1: "keeps params s ?s1" using s1(2) by (simp add: keeps_def)
  obtain res s2 where s2: "poll_recover E (fi_tracker inp) (fi_recovered inp) ?s1 = Ret (res, s2)" "keeps params ?s1 s2"
    using poll_recover_keeps [OF keepsD(2) [OF k1]] by blast
  have k2: "keeps params s s2" by (rule keeps_trans [OF k1 s2(2)])
  obtain a s3 where s3: "poll_complete rng params (fi_ready inp) s2 = Ret (a, s3)" "keeps params s2 s3"
    using poll_complete_keeps [OF assms(1) keepsD(2) [OF k2]] by blast
  have k3: "keeps params s s3" by (rule keeps_trans [OF k2 s3(2)])
  have "keeps params s (snd (flush_action (fi_repairing inp) b s3))" for b
    using k3 by (cases b) (simp_all add: flush_action_def register_reconnect_futures_def keeps_def)
  moreover have "keeps params s (s2\<lparr>ci_refresh_error := Some err\<rparr>)" for err using k2 by (simp add: keeps_def)
  ultimately show ?thesis using k2 k3
    by (auto simp: poll_flush_pass_def s1(1) s2(1) s3(1) split: option.splits sum.splits)
      (metis surjective_pairing)+
qed

section \<open>Every request is answered exactly once\<close>

text \<open>The states of a connection, with the channels of the requests submitted so far: requests are
  submitted, callers drop their receiver, and the loop makes passes with arbitrary input.\<close>

inductive reached :: "RetryParams \<Rightarrow> nat multiset \<Rightarrow> 'c cluster_inner \<Rightarrow> bool" for params where
  reached_new: "reached params {#} cluster_inner_new"
| reached_send: "reached params M s \<Longrightarrow> reached params (M + channel sender) (start_send c sender s)"
| reached_close: "reached params M s \<Longrightarrow> reached params M (s\<lparr>ci_closed := insert ch (ci_closed s)\<rparr>)"
| reached_flush:
    "reached params M s \<Longrightarrow> poll_flush_pass rng params E inp s = Ret (res, s') \<Longrightarrow> reached params M s'"

lemma load_start_send: "load (start_send c sender s) = load s + channel sender"
  by (simp add: start_send_def load_def live_def ac_simps)

lemma reached_load:
  assumes "retry_params_ok params" and "reached params M s"
  shows "retries_ok params (live s) \<and> kept (ci_closed s) M (load s)"
  using assms(2)
proof (induction rule: reached.induct)
  case reached_new
  then show ?case by (simp add: cluster_inner_new_def live_def load_def)
next
  case (reached_send M s sender c)
  have "live (start_send c sender s) \<noteq> [] \<and> retries_ok params (live (start_send c sender s))"
    using reached_send.IH by (simp add: start_send_def live_def)
  moreover have "ci_closed (start_send c sender s) = ci_closed s" by (simp add: start_send_def)
  ultimately show ?case
    using reached_send.IH kept_add [of "ci_closed s" M "load s" "channel sender"] by (simp add: load_start_send)
next
  case (reached_close M s ch)
  then show ?case by (simp add: kept_def)
next
  case (reached_flush M s rng E inp res s')
  have "keeps params s s'"
    using poll_flush_pass_keeps [OF assms(1), of s rng E inp] reached_flush by auto
  then show ?case using reached_flush.IH kept_trans by (auto simp: keeps_def)
qed

text \<open>C3.  No request is lost and none is answered twice.  In every state the connection can reach,
  the number of requests waiting on a channel plus the answers sent on it is the number of requests
  submitted with it, unless the caller is gone, and never more; no request has used more retries
  than allowed; and the next pass of the loop, whatever its futures yield, does not panic.\<close>

theorem requests_are_never_lost:
  assumes "retry_params_ok params" and "reached params M s"
  shows "(\<forall>ch. count (channels (live s)) ch + count (answered (ci_sent s)) ch \<le> count M ch) \<and>
         (\<forall>ch. ch \<notin> ci_closed s \<longrightarrow>
            count (channels (live s)) ch + count (answered (ci_sent s)) ch = count M ch) \<and>
         (\<forall>r \<in> set (live s). pr_retry r \<le> number_of_retries params) \<and>
         poll_flush_pass rng params E inp s \<noteq> Panic"
proof -
  note ok = reached_load [OF assms]
  have "poll_flush_pass rng params E inp s \<noteq> Panic"
    using poll_flush_pass_keeps [OF assms(1), of s rng E inp] ok by auto
  then show ?thesis using ok by (auto simp: kept_def load_def retries_ok_def)
qed

section \<open>Termination\<close>

text \<open>The steps that work on requests.  The passes of the loop consist of these steps, of changes of the
  recovery state, and of new requests that subscribe again.\<close>

inductive progress :: "RetryParams \<Rightarrow> 'c cluster_inner \<Rightarrow> 'c cluster_inner \<Rightarrow> bool" for params where
  dispatched: "ci_pending s \<noteq> [] \<Longrightarrow> progress params s (dispatch_pending s)"
| polled: "i < length (ci_in_flight s) \<Longrightarrow> poll_one rng params i outcome s = Ret (action, s') \<Longrightarrow> progress params s s'"
| failed: "ci_refresh_error s \<noteq> None \<Longrightarrow> send_refresh_error rng params s = Ret s' \<Longrightarrow> progress params s s'"

text \<open>The attempts left, and the work before the next attempt.\<close>

definition attempts_left :: "RetryParams \<Rightarrow> 'c PendingRequest \<Rightarrow> nat" where
  "attempts_left params r = unat (number_of_retries params) + 1 - unat (pr_retry r)"

definition budget :: "RetryParams \<Rightarrow> 'c cluster_inner \<Rightarrow> nat" where
  "budget params s = (\<Sum>r \<leftarrow> live s. attempts_left params r)"

fun stage :: "'c Request \<Rightarrow> nat" where
  "stage rq = (case rq_future rq of FutureState \<Rightarrow> 1 | SleepState _ \<Rightarrow> 2)"

definition work :: "'c cluster_inner \<Rightarrow> nat" where
  "work s = 2 * length (ci_pending s) + (\<Sum>rq \<leftarrow> ci_in_flight s. stage rq)"

definition error_pending :: "'c cluster_inner \<Rightarrow> nat" where
  "error_pending s = (if ci_refresh_error s = None then 0 else 1)"

lemma attempts_left_positive: "pr_retry r \<le> number_of_retries params \<Longrightarrow> 0 < attempts_left params r"
  by (simp add: attempts_left_def word_le_nat_alt)

lemma budget_handle_retries:
  "budget params (handle_retries h s) =
     budget params s + (case h of None \<Rightarrow> 0 | Some again \<Rightarrow> attempts_left params (retry_request again))"
  by (auto simp: budget_def handle_retries_def live_in_flight split: option.splits Retry.splits)
     (simp add: live_def)

lemma budget_updates [simp]:
  "budget params (ci_sent_update f s) = budget params s"
  "budget params (ci_refresh_error_update e s) = budget params s"
  by (simp_all add: budget_def)

lemma attempt_uses_budget:
  assumes "answered_or_retried params r h sent" and "pr_retry r \<le> number_of_retries params"
  shows "budget params (handle_retries h (s\<lparr>ci_sent := ci_sent s @ sent\<rparr>)) < budget params s + attempts_left params r"
  using assms attempts_left_positive [OF assms(2)]
  by (auto simp: budget_handle_retries answered_or_retried_def attempts_left_def word_less_nat_alt split: option.splits)

lemma in_flight_dispatch:
  "ci_in_flight (fold (\<lambda>r s'. in_flight r FutureState s') rs s) =
     ci_in_flight s @ map (\<lambda>r. \<lparr>rq_request = Some r, rq_future = FutureState\<rparr>) rs"
  by (induction rs arbitrary: s) (simp_all add: in_flight_def)

lemma dispatch_decreases:
  assumes "ci_pending s \<noteq> []"
  shows "budget params (dispatch_pending s) \<le> budget params s \<and> work (dispatch_pending s) < work s"
proof
  let ?open = "filter (\<lambda>r. \<not> expectation_is_closed (ci_closed s) (pr_sender r)) (ci_pending s)"
  have "live (dispatch_pending s) = List.map_filter rq_request (ci_in_flight s) @ ?open"
    by (simp add: dispatch_pending_def live_dispatch) (simp add: live_def)
  then show "budget params (dispatch_pending s) \<le> budget params s"
    using sum_list_filter_le [of "attempts_left params" _ "ci_pending s"] by (simp add: budget_def live_def)
  have "work (dispatch_pending s) = (\<Sum>rq \<leftarrow> ci_in_flight s. stage rq) + length ?open"
    by (simp add: work_def dispatch_pending_def in_flight_dispatch fold_in_flight_fields comp_def sum_list_triv)
  moreover have "length ?open \<le> length (ci_pending s)" by (rule length_filter_le)
  moreover have "0 < length (ci_pending s)" using assms by simp
  ultimately show "work (dispatch_pending s) < work s" unfolding work_def [of s] by linarith
qed

lemma budget_at:
  assumes "i < length (ci_in_flight s)"
  shows "budget params s =
           budget params (s\<lparr>ci_in_flight := take i (ci_in_flight s) @ drop (Suc i) (ci_in_flight s)\<rparr>) +
           (case rq_request (ci_in_flight s ! i) of None \<Rightarrow> 0 | Some r \<Rightarrow> attempts_left params r)"
proof -
  have "sum_list (map (attempts_left params) (List.map_filter rq_request (ci_in_flight s))) =
      (\<Sum>r \<in># mset (List.map_filter rq_request (ci_in_flight s)). attempts_left params r)"
    by (metis mset_map sum_mset_sum_list)
  also have "\<dots> = sum_list (map (attempts_left params)
        (List.map_filter rq_request (take i (ci_in_flight s) @ drop (Suc i) (ci_in_flight s)))) +
      (case rq_request (ci_in_flight s ! i) of None \<Rightarrow> 0 | Some r \<Rightarrow> attempts_left params r)"
    unfolding map_filter_at [OF assms, of rq_request]
    by (simp flip: mset_map add: sum_mset_sum_list split: option.splits)
  finally show ?thesis by (simp add: budget_def live_def)
qed

lemma poll_decreases:
  assumes "retry_params_ok params" and "retries_ok params (live s)" and i: "i < length (ci_in_flight s)"
    and "poll_one rng params i outcome s = Ret (action, s')"
  shows "budget params s' < budget params s \<or>
         budget params s' = budget params s \<and> work s' < work s"
proof -
  let ?rq = "ci_in_flight s ! i"
  let ?s0 = "s\<lparr>ci_in_flight := take i (ci_in_flight s) @ drop (Suc i) (ci_in_flight s)\<rparr>"
  have bound: "pr_retry r \<le> number_of_retries params" if "rq_request ?rq = Some r" for r
  proof -
    have "r \<in> set (List.map_filter rq_request (ci_in_flight s))"
      using i that nth_mem [OF i] unfolding in_map_filter by blast
    then show ?thesis using assms(2) by (simp add: live_def retries_ok_def)
  qed
  note budget = budget_at [OF i, of params]
  have work: "work s = work ?s0 + stage ?rq"
    using sum_list_at [OF i, of stage] by (simp add: work_def)
  obtain h action' sent where poll: "request_poll rng params (ci_closed s) outcome ?rq = Ret (h, action', sent)"
    and cases: "(rq_request ?rq = None \<or> (\<exists>r. rq_request ?rq = Some r \<and> expectation_is_closed (ci_closed s) (pr_sender r))) \<and>
           h = None \<and> sent = [] \<or>
         (\<exists>r. rq_request ?rq = Some r \<and> rq_future ?rq \<noteq> FutureState \<and> h = Some (Immediately r) \<and> sent = []) \<or>
         (\<exists>r. rq_request ?rq = Some r \<and> rq_future ?rq = FutureState \<and> answered_or_retried params r h sent)"
    by (rule request_poll_outcome [OF assms(1)]) (use bound in blast)
  have s': "s' = handle_retries h (?s0\<lparr>ci_sent := ci_sent ?s0 @ sent\<rparr>)"
    using assms(4) i poll by (simp add: poll_one_def Let_def)
  show ?thesis
    using cases
  proof (elim disjE conjE exE)
    fix r assume r: "rq_request ?rq = Some r" "answered_or_retried params r h sent"
    show ?thesis using attempt_uses_budget [OF r(2) bound [OF r(1)], of ?s0] budget r(1) by (simp add: s')
  next
    fix r assume r: "rq_request ?rq = Some r" "rq_future ?rq \<noteq> FutureState" "h = Some (Immediately r)" "sent = []"
    have "work s' = work ?s0 + 1" using r by (simp add: s' handle_retries_def in_flight_def work_def)
    moreover have "stage ?rq = 2" using r(2) by (cases "rq_future ?rq") simp_all
    ultimately show ?thesis using r budget work by (simp add: s' budget_handle_retries)
  next
    assume "h = None" "sent = []" "rq_request ?rq = None"
    then have "s' = ?s0" by (simp add: s' handle_retries_def)
    moreover have "0 < stage ?rq" by (cases "rq_future ?rq") simp_all
    ultimately show ?thesis using budget work \<open>rq_request ?rq = None\<close> by simp
  next
    fix r assume r: "h = None" "sent = []" "rq_request ?rq = Some r"
    then have "s' = ?s0" by (simp add: s' handle_retries_def)
    then show ?thesis using budget r(3) attempts_left_positive [OF bound [OF r(3)]] by simp
  qed
qed

lemma fail_requests_budget:
  assumes "retry_params_ok params" and "retries_ok params rs" and "fail_requests rng params e rs s = Ret s'"
  shows "budget params s' + length rs \<le> budget params s + (\<Sum>r \<leftarrow> rs. attempts_left params r)"
  using assms(2,3)
proof (induction rs arbitrary: s)
  case (Cons r rs)
  obtain h action sent where c: "choose_response rng (NotFound, Inl e) r params = Ret (h, action, sent)"
    "answered_or_retried params r h sent"
    using choose_response_outcome [OF assms(1)] Cons.prems(1) by force
  let ?s = "handle_retries h (s\<lparr>ci_sent := ci_sent s @ sent\<rparr>)"
  have "fail_requests rng params e rs ?s = Ret s'" using Cons.prems(2) c(1) by simp
  then have "budget params s' + length rs \<le> budget params ?s + (\<Sum>r \<leftarrow> rs. attempts_left params r)"
    using Cons.IH Cons.prems(1) by simp
  moreover have "budget params ?s < budget params s + attempts_left params r"
    using attempt_uses_budget [OF c(2), of s] Cons.prems(1) by simp
  ultimately show ?case by simp
qed simp

lemma refresh_error_decreases:
  assumes "retry_params_ok params" and "retries_ok params (live s)"
    and "ci_refresh_error s \<noteq> None" and "send_refresh_error rng params s = Ret s'"
  shows "budget params s' < budget params s \<or>
         budget params s' = budget params s \<and> work s' = work s \<and> error_pending s' < error_pending s"
proof -
  obtain e where e: "ci_refresh_error s = Some e" using assms(3) by blast
  let ?rs = "List.map_filter rq_request (ci_in_flight s)"
  let ?s1 = "s\<lparr>ci_refresh_error := None, ci_in_flight := map (\<lambda>rq. rq\<lparr>rq_request := None\<rparr>) (ci_in_flight s)\<rparr>"
  have live1: "live ?s1 = ci_pending s" by (simp add: live_def)
  have ok: "retries_ok params ?rs" "retries_ok params (ci_pending s)" using assms(2) by (simp_all add: live_def)
  have total: "budget params s = (\<Sum>r \<leftarrow> ci_pending s. attempts_left params r) + (\<Sum>r \<leftarrow> ?rs. attempts_left params r)"
    by (simp add: budget_def live_def)
  consider "?rs \<noteq> []" | "?rs = []" "ci_pending s = []" | r rest where "?rs = []" "ci_pending s = r # rest"
    by (cases "ci_pending s") blast+
  then show ?thesis
  proof cases
    case 1
    then have "fail_requests rng params e ?rs ?s1 = Ret s'"
      using assms(4) e by (simp add: send_refresh_error_def Let_def)
    then have "budget params s' + length ?rs \<le> budget params ?s1 + (\<Sum>r \<leftarrow> ?rs. attempts_left params r)"
      by (rule fail_requests_budget [OF assms(1) ok(1)])
    moreover have "budget params ?s1 = (\<Sum>r \<leftarrow> ci_pending s. attempts_left params r)"
      unfolding budget_def live1 ..
    moreover have "0 < length ?rs" using 1 by simp
    ultimately show ?thesis using total by linarith
  next
    case 2
    then have "s' = ?s1" using assms(4) e by (simp add: send_refresh_error_def Let_def)
    moreover have "budget params ?s1 = budget params s" using 2 total unfolding budget_def live1 by simp
    ultimately show ?thesis by (simp add: work_def error_pending_def e comp_def)
  next
    case 3
    let ?s2 = "?s1\<lparr>ci_pending := rest\<rparr>"
    have "fail_requests rng params e [r] ?s2 = Ret s'"
      using 3 assms(4) e by (simp add: send_refresh_error_def Let_def del: fail_requests.simps)
    then have "budget params s' + length [r] \<le> budget params ?s2 + (\<Sum>r \<leftarrow> [r]. attempts_left params r)"
      by (rule fail_requests_budget [OF assms(1), rotated]) (use ok(2) 3(2) in simp)
    moreover have "budget params ?s2 = (\<Sum>r \<leftarrow> rest. attempts_left params r)" by (simp add: budget_def live_def)
    ultimately show ?thesis using total 3 by simp
  qed
qed

lemma progress_keeps:
  assumes "retry_params_ok params" and "retries_ok params (live s)" and "progress params s s'"
  shows "keeps params s s'"
  using assms(3)
proof cases
  case dispatched
  then show ?thesis using dispatch_pending_keeps [OF assms(2)] by simp
next
  case (polled i rng outcome action)
  then show ?thesis using poll_one_keeps [OF assms(1,2), of rng i outcome] by auto
next
  case (failed rng)
  then show ?thesis using send_refresh_error_keeps [OF assms(1,2), of rng] by auto
qed

lemma progress_decreases:
  assumes "retry_params_ok params" and "retries_ok params (live s)" and "progress params s s'"
  shows "(s', s) \<in> measures [budget params, work, error_pending]"
  using assms(3)
proof cases
  case dispatched
  then show ?thesis using dispatch_decreases [of s params] by auto
next
  case (polled i rng outcome action)
  from poll_decreases [OF assms(1,2) this] show ?thesis by auto
next
  case (failed rng)
  from refresh_error_decreases [OF assms(1,2) this] show ?thesis by auto
qed

lemma progress_star_keeps:
  assumes "retry_params_ok params" and "(progress params)\<^sup>*\<^sup>* s s'" and "retries_ok params (live s)"
  shows "keeps params s s'"
  using assms(2)
proof (induction rule: rtranclp_induct)
  case base
  show ?case by (rule keeps_refl [OF assms(3)])
next
  case (step s1 s2)
  from progress_keeps [OF assms(1) keepsD(2) [OF step.IH] step.hyps(2)] show ?case
    by (rule keeps_trans [OF step.IH])
qed



text \<open>A connection with one request, before and after its only attempt.\<close>

definition one_request :: "unit cluster_inner" where
  "one_request = start_send (CmdRequest (cmd ''PING'') (ISingleNode IRandom)) (External 1) cluster_inner_new"

definition one_answer :: "unit cluster_inner" where
  "one_answer = cluster_inner_new\<lparr>ci_sent := [(1, Inr (Single Okay))]\<rparr>"

lemma default_params_ok: "retry_params_ok retry_params_default"
  by (simp add: retry_params_ok_def retry_params_default_def)

lemma one_request_reached: "reached retry_params_default {#1#} one_request"
  using reached_send [OF reached_new, of retry_params_default "External 1"] by (simp add: one_request_def)

lemma one_request_answered: "(progress retry_params_default)\<^sup>*\<^sup>* one_request one_answer"
proof -
  let ?d = "dispatch_pending one_request"
  have "ci_pending one_request \<noteq> []" by (simp add: one_request_def start_send_def)
  then have 1: "progress retry_params_default one_request ?d" by (rule dispatched)
  have d: "?d = cluster_inner_new\<lparr>ci_in_flight := [\<lparr>rq_request = Some \<lparr>pr_retry = 0, pr_sender = External 1,
      pr_cmd = CmdRequest (cmd ''PING'') (ISingleNode IRandom)\<rparr>, rq_future = FutureState\<rparr>]\<rparr>"
    by (simp add: dispatch_pending_def one_request_def start_send_def in_flight_def cluster_inner_new_def
        expectation_is_closed_def)
  have "poll_one (\<lambda>low high. low) retry_params_default 0 (Node (NodeAddress ''a'' 1), Inr (Single Okay)) ?d =
      Ret (FlushNone, one_answer)"
    by (simp add: d poll_one_def request_poll_def choose_response_def response_error_def expectation_send_def
        is_error_that_requires_action_def expectation_is_closed_def cluster_inner_new_def handle_retries_def one_answer_def)
  then have 2: "progress retry_params_default ?d one_answer"
    by (rule polled [rotated]) (simp add: d)
  show ?thesis using 1 2 by auto
qed

lemma one_answer_final: "\<not> (\<exists>s. progress retry_params_default one_answer s)"
  by (auto elim!: progress.cases simp: one_answer_def cluster_inner_new_def)

theorem requests_are_never_lost_witness:
  "retry_params_ok retry_params_default \<and> reached retry_params_default {#1#} one_request \<and>
   count (channels (live one_request)) 1 + count (answered (ci_sent one_request)) 1 = 1"
  using requests_are_never_lost [OF default_params_ok one_request_reached] one_request_reached default_params_ok
  by (simp add: one_request_def start_send_def cluster_inner_new_def)



end
