(* ===== verification/Multi_Slot.thy ===== *)
theory Multi_Slot
  imports Cluster_Routing
begin

text \<open>
  Commands that are split over several slots, and the answers of the nodes put together again
  (\<^verbatim>\<open>cluster_handling/routing.rs\<close>): the sub-commands, the numeric, logical, map and array
  aggregations, and the merge that restores the order of the keys.  A split command is then shown
  to answer like the same command on a single node that holds all keys.
\<close>

section \<open>Sub-commands\<close>

definition opt_arg :: "bytes option \<Rightarrow> Cmd \<Rightarrow> Cmd run" where
  "opt_arg a c = cmd_arg (to_args_option (to_args_string cmd_write_arg)) a c"

fun add_indices :: "'r routable \<Rightarrow> 'r \<Rightarrow> nat list \<Rightarrow> Cmd \<Rightarrow> Cmd run" where
  "add_indices R r [] new_cmd = Ret new_cmd"
| "add_indices R r (index # indices) new_cmd =
     run_bind (rt_arg_idx R r (index + 1)) (\<lambda>a.
     run_bind (opt_arg a new_cmd) (add_indices R r indices))"

definition command_for_multi_slot_indices :: "'r routable \<Rightarrow> 'r \<Rightarrow> nat list \<Rightarrow> Cmd run" where
  "command_for_multi_slot_indices R original_cmd indices =
     run_bind (rt_arg_idx R original_cmd 0) (\<lambda>a.
     run_bind (opt_arg a cmd_new) (add_indices R original_cmd indices))"

section \<open>Aggregation\<close>

text \<open>\<^verbatim>\<open>i64\<close> addition with its overflow check.\<close>

definition checked_add :: "i64 \<Rightarrow> i64 \<Rightarrow> i64 run" where
  "checked_add a b =
     (if - (2 ^ 63) \<le> sint a + sint b \<and> sint a + sint b < 2 ^ 63 then Ret (a + b) else Panic)"

definition not_integers :: RedisError where
  "not_integers = error_of UnexpectedReturnType ''expected array of integers as response''"

definition not_arrays :: RedisError where
  "not_arrays = error_of UnexpectedReturnType ''expected array of values as response''"

fun aggregate_op :: "AggregateOp \<Rightarrow> i64 \<Rightarrow> i64 \<Rightarrow> i64 run" where
  "aggregate_op MinOp acc i = Ret (if i <s acc then i else acc)"
| "aggregate_op SumOp acc i = checked_add acc i"

fun aggregate_fold :: "AggregateOp \<Rightarrow> i64 \<Rightarrow> Value list \<Rightarrow> i64 redis_result run" where
  "aggregate_fold op acc [] = Ret (Inr acc)"
| "aggregate_fold op acc (cur # values) =
     (case cur of
        VInt i \<Rightarrow> run_bind (aggregate_op op acc i) (\<lambda>acc'. aggregate_fold op acc' values)
      | _ \<Rightarrow> Ret (Inl not_integers))"

definition aggregate_init :: "AggregateOp \<Rightarrow> i64" where
  "aggregate_init op = (case op of MinOp \<Rightarrow> 2 ^ 63 - 1 | SumOp \<Rightarrow> 0)"

definition aggregate :: "Value list \<Rightarrow> AggregateOp \<Rightarrow> Value redis_result run" where
  "aggregate values op = map_run (map_sum id VInt) (aggregate_fold op (aggregate_init op) values)"

fun and_ints :: "nat \<Rightarrow> bool list \<Rightarrow> Value list \<Rightarrow> bool list redis_result run" where
  "and_ints index acc [] = Ret (Inr acc)"
| "and_ints index acc (value # values) =
     (case value of
        VInt i \<Rightarrow>
          (case get_idx acc index of
             None \<Rightarrow> Panic
           | Some b \<Rightarrow> and_ints (Suc index) (acc[index := b \<and> 0 <s i]) values)
      | _ \<Rightarrow> Ret (Inl not_integers))"

fun logical_fold :: "bool list \<Rightarrow> Value list \<Rightarrow> bool list redis_result run" where
  "logical_fold acc [] = Ret (Inr acc)"
| "logical_fold acc (cur # rest) =
     (case cur of
        VArray values \<Rightarrow>
          run_bind (and_ints 0 (if acc = [] then replicate (length values) True else acc) values) (\<lambda>r.
            case r of Inl e \<Rightarrow> Ret (Inl e) | Inr acc' \<Rightarrow> logical_fold acc' rest)
      | _ \<Rightarrow> Ret (Inl not_integers))"

definition logical_aggregate :: "Value list \<Rightarrow> LogicalAggregateOp \<Rightarrow> Value redis_result run" where
  "logical_aggregate values op =
     map_run (map_sum id (\<lambda>results. VArray (map (\<lambda>b. VInt (if b then 1 else 0)) results)))
       (logical_fold [] values)"

text \<open>\<^verbatim>\<open>*map.entry(key).or_insert(0) += value\<close>\<close>

fun add_entry :: "bytes \<Rightarrow> i64 \<Rightarrow> (bytes \<times> i64) list \<Rightarrow> (bytes \<times> i64) list run" where
  "add_entry k v [] = map_run (\<lambda>s. [(k, s)]) (checked_add 0 v)"
| "add_entry k v ((k', v') # m) =
     (if k' = k then map_run (\<lambda>s. (k', s) # m) (checked_add v' v)
      else map_run (\<lambda>m'. (k', v') # m') (add_entry k v m))"

fun add_map_elements :: "(bytes \<times> i64) list \<Rightarrow> Value list \<Rightarrow> (bytes \<times> i64) list redis_result run" where
  "add_map_elements m [] = Ret (Inr m)"
| "add_map_elements m (key # rest) =
     (case key of
        BulkString k \<Rightarrow>
          (case rest of
             VInt v # elements \<Rightarrow> run_bind (add_entry k v m) (\<lambda>m'. add_map_elements m' elements)
           | _ \<Rightarrow> Ret (Inl (error_of UnexpectedReturnType ''expected integer value'')))
      | _ \<Rightarrow> Ret (Inl (error_of UnexpectedReturnType ''expected string key'')))"

fun combine_maps_fold :: "(bytes \<times> i64) list \<Rightarrow> Value list \<Rightarrow> (bytes \<times> i64) list redis_result run" where
  "combine_maps_fold m [] = Ret (Inr m)"
| "combine_maps_fold m (value # values) =
     (case value of
        VArray elements \<Rightarrow>
          run_bind (add_map_elements m elements) (\<lambda>r.
            case r of Inl e \<Rightarrow> Ret (Inl e) | Inr m' \<Rightarrow> combine_maps_fold m' values)
      | _ \<Rightarrow> Ret (Inl not_arrays))"

definition combine_map_results ::
    "((bytes \<times> i64) list \<Rightarrow> (bytes \<times> i64) list) \<Rightarrow> Value list \<Rightarrow> Value redis_result run" where
  "combine_map_results hm values =
     map_run (map_sum id (\<lambda>m. VMap (map (\<lambda>(k, v). (BulkString k, VInt v)) (hm m))))
       (combine_maps_fold [] values)"

fun combine_arrays_fold :: "Value list \<Rightarrow> Value list \<Rightarrow> Value list redis_result" where
  "combine_arrays_fold results [] = Inr results"
| "combine_arrays_fold results (value # values) =
     (case value of
        VArray vs \<Rightarrow> combine_arrays_fold (results @ vs) values
      | _ \<Rightarrow> Inl not_arrays)"

definition combine_array_results :: "Value list \<Rightarrow> Value redis_result" where
  "combine_array_results values = map_sum id VArray (combine_arrays_fold [] values)"

section \<open>Merging by key order\<close>

text \<open>\<^verbatim>\<open>iter().step_by(n)\<close>\<close>

fun step_by_aux :: "nat \<Rightarrow> nat \<Rightarrow> 'a list \<Rightarrow> 'a list" where
  "step_by_aux n k [] = []"
| "step_by_aux n k (x # xs) = (if k = 0 then x # step_by_aux n (n - 1) xs else step_by_aux n (k - 1) xs)"

definition step_by :: "nat \<Rightarrow> 'a list \<Rightarrow> 'a list" where
  "step_by n xs = step_by_aux n 0 xs"

text \<open>\<^verbatim>\<open>{indices:?}\<close>\<close>

fun show_items :: "nat list \<Rightarrow> bytes" where
  "show_items [] = []"
| "show_items [k] = show_nat k"
| "show_items (k # ks) = show_nat k @ '', '' @ show_items ks"

definition debug_indices :: "nat list \<Rightarrow> bytes" where
  "debug_indices ks = ''['' @ show_items ks @ '']''"

definition check_indices_input :: "(Route \<times> nat list) list \<Rightarrow> nat \<Rightarrow> unit redis_result" where
  "check_indices_input route_arg_indices step_count =
     (case List.find (\<lambda>(_, indices). length indices mod step_count \<noteq> 0) route_arg_indices of
        Some (_, indices) \<Rightarrow>
          Inl (General Client ''Invalid indices input detected''
                (Some (''Expected argument pattern with tuples of size '' @ show_nat step_count @
                       '', but found indices: '' @ debug_indices indices)))
      | None \<Rightarrow> Inr ())"

text \<open>The iterator yields its index lists on demand: each is a call that may panic.\<close>

definition calculate_multi_slot_result_indices ::
    "(Route \<times> nat list) list \<Rightarrow> MultiSlotArgPattern \<Rightarrow> nat list run list redis_result" where
  "calculate_multi_slot_result_indices route_arg_indices args_pattern =
     (case args_pattern of
        KeysOnly \<Rightarrow> Inr (map (\<lambda>(_, indices). Ret indices) route_arg_indices)
      | KeysAndLastArg \<Rightarrow>
          Inr (map (\<lambda>(_, indices). if length indices = 0 then Panic else slice_range indices 0 (length indices - 1))
                 route_arg_indices)
      | KeyWithTwoArgTriples \<Rightarrow>
          res_bind (check_indices_input route_arg_indices 3) (\<lambda>_.
            Inr (map (\<lambda>(_, indices). Ret (map (\<lambda>idx. idx div 3) (step_by 3 indices))) route_arg_indices))
      | KeyValuePairs \<Rightarrow>
          res_bind (check_indices_input route_arg_indices 2) (\<lambda>_.
            Inr (map (\<lambda>(_, indices). Ret (map (\<lambda>idx. idx div 2) (step_by 2 indices))) route_arg_indices)))"

fun place_results :: "(nat \<times> Value) list \<Rightarrow> Value list \<Rightarrow> Value list run" where
  "place_results [] results = Ret results"
| "place_results ((index, value) # rest) results =
     run_bind (set_idx results index value) (place_results rest)"

fun sort_results :: "(nat list run \<times> Value) list \<Rightarrow> Value list \<Rightarrow> Value list redis_result run" where
  "sort_results [] results = Ret (Inr results)"
| "sort_results ((key_indices', value) # rest) results =
     run_bind key_indices' (\<lambda>key_indices.
       case value of
         VArray values \<Rightarrow>
           (if length values \<noteq> length key_indices then Panic
            else run_bind (place_results (zip key_indices values) results) (sort_results rest))
       | _ \<Rightarrow> Ret (Inl not_arrays))"

definition results_len :: "Value list \<Rightarrow> nat" where
  "results_len values = foldl (\<lambda>acc value. case value of VArray vs \<Rightarrow> length vs + acc | _ \<Rightarrow> 0) 0 values"

definition combine_and_sort_array_results ::
    "Value list \<Rightarrow> (Route \<times> nat list) list \<Rightarrow> MultiSlotArgPattern \<Rightarrow> Value redis_result run" where
  "combine_and_sort_array_results values route_arg_indices args_pattern =
     (case calculate_multi_slot_result_indices route_arg_indices args_pattern of
        Inl e \<Rightarrow> Ret (Inl e)
      | Inr result_indices \<Rightarrow>
          (if length values \<noteq> length result_indices
           then Ret (Inl (General Client
                  ''Mismatch in the number of multi-slot results compared to the expected result count.''
                  (Some (''Expected: '' @ show_nat (length values) @ '', Found: '' @ show_nat (length result_indices)))))
           else map_run (map_sum id VArray)
                  (sort_results (zip result_indices values) (replicate (results_len values) VNil))))"

section \<open>How the keys are grouped\<close>

definition group_keys ::
    "(nat \<Rightarrow> Route) \<Rightarrow> (nat \<Rightarrow> nat list) \<Rightarrow> nat list \<Rightarrow> (Route \<times> nat list) list \<Rightarrow> (Route \<times> nat list) list" where
  "group_keys rt pos js m = foldl (\<lambda>m j. push_route (rt j) (pos j) m) m js"

lemma fst_push_route: "set (map fst (push_route r ks m)) = insert r (set (map fst m))"
  by (induction r ks m rule: push_route.induct) auto

lemma distinct_push_route: "distinct (map fst m) \<Longrightarrow> distinct (map fst (push_route r ks m))"
proof (induction r ks m rule: push_route.induct)
  case (2 r ks r' "is" m)
  then show ?case using fst_push_route [of r ks m] by (auto simp: image_iff)
qed simp

lemma map_of_push_route:
  "map_of (push_route r ks m) x =
     (if x = r then Some ((case map_of m r of None \<Rightarrow> [] | Some is \<Rightarrow> is) @ ks) else map_of m x)"
  by (induction r ks m rule: push_route.induct) auto

lemma group_keys_spec:
  "distinct (map fst (group_keys rt pos js [])) \<and>
   map_of (group_keys rt pos js []) r =
     (if r \<in> rt ` set js then Some (concat (map pos (filter (\<lambda>j. rt j = r) js))) else None)"
proof (induction js rule: rev_induct)
  case (snoc j js)
  then show ?case
    by (auto simp: group_keys_def distinct_push_route map_of_push_route image_iff) metis
qed (simp add: group_keys_def)

lemma group_keys_entries:
  assumes "mset routes = mset (group_keys rt pos js [])"
  shows "distinct (map fst routes)" and "set (map fst routes) = rt ` set js"
    and "routes = map (\<lambda>r. (r, concat (map pos (filter (\<lambda>j. rt j = r) js)))) (map fst routes)"
proof -
  let ?g = "group_keys rt pos js []"
  have s: "set routes = set ?g" using assms by (metis set_mset_mset)
  have d: "distinct (map fst ?g)" using group_keys_spec by blast
  show "distinct (map fst routes)"
    using d assms by (metis mset_eq_imp_distinct_iff mset_map)
  have in_g: "(r, is) \<in> set ?g \<longleftrightarrow> r \<in> rt ` set js \<and> is = concat (map pos (filter (\<lambda>j. rt j = r) js))" for r "is"
    using map_of_eq_Some_iff [OF d, of r "is"] group_keys_spec [of rt pos js r] by (auto split: if_splits)
  show "set (map fst routes) = rt ` set js"
    unfolding set_map s using in_g by (auto simp: image_iff) (metis fst_conv in_g imageI)
  show "routes = map (\<lambda>r. (r, concat (map pos (filter (\<lambda>j. rt j = r) js)))) (map fst routes)"
    unfolding map_map by (rule map_idI [symmetric]) (use s in_g in auto)
qed

section \<open>The merge restores the order of the keys\<close>

lemma place_results_spec:
  "\<forall>i \<in> set g. i < length results \<Longrightarrow>
     place_results (zip g (map ans g)) results =
     Ret (map (\<lambda>i. if i \<in> set g then ans i else results ! i) [0..<length results])"
proof (induction g arbitrary: results)
  case Nil
  then show ?case by (simp add: map_nth)
next
  case (Cons j g)
  then have "place_results (zip g (map ans g)) (results[j := ans j]) =
      Ret (map (\<lambda>i. if i \<in> set g then ans i else results[j := ans j] ! i) [0..<length results])"
    by (subst Cons.IH) auto
  then show ?case using Cons.prems by (auto simp: set_idx_def nth_list_update)
qed

lemma sort_results_spec:
  "\<forall>g \<in> set gs. \<forall>i \<in> set g. i < length results \<Longrightarrow>
     sort_results (zip (map Ret gs) (map (\<lambda>g. VArray (map ans g)) gs)) results =
     Ret (Inr (map (\<lambda>i. if i \<in> (\<Union>g \<in> set gs. set g) then ans i else results ! i) [0..<length results]))"
proof (induction gs arbitrary: results)
  case Nil
  then show ?case by (simp add: map_nth)
next
  case (Cons g gs)
  let ?r = "map (\<lambda>i. if i \<in> set g then ans i else results ! i) [0..<length results]"
  have "sort_results (zip (map Ret gs) (map (\<lambda>g. VArray (map ans g)) gs)) ?r =
      Ret (Inr (map (\<lambda>i. if i \<in> (\<Union>g \<in> set gs. set g) then ans i else ?r ! i) [0..<length results]))"
    using Cons.prems by (subst Cons.IH) auto
  then show ?case using Cons.prems by (simp add: place_results_spec)
qed

lemma results_len_arrays:
  "results_len (map (\<lambda>g. VArray (map ans g)) gs) = sum_list (map length gs)"
proof -
  have "foldl (\<lambda>acc value. case value of VArray vs \<Rightarrow> length vs + acc | _ \<Rightarrow> 0) a (map (\<lambda>g. VArray (map ans g)) gs) =
      a + sum_list (map length gs)" for a
    by (induction gs arbitrary: a) auto
  then show ?thesis by (simp add: results_len_def)
qed

lemma combine_and_sort_groups:
  assumes "calculate_multi_slot_result_indices routes p = Inr (map Ret gs)"
    and "(\<Union>g \<in> set gs. set g) = {..<n}" and "sum_list (map length gs) = n"
  shows "combine_and_sort_array_results (map (\<lambda>g. VArray (map ans g)) gs) routes p =
         Ret (Inr (VArray (map ans [0..<n])))"
proof -
  have "\<forall>g \<in> set gs. \<forall>i \<in> set g. i < length (replicate n VNil)" using assms(2) by auto
  from sort_results_spec [OF this, of ans] show ?thesis
    using assms by (simp add: combine_and_sort_array_results_def results_len_arrays)
qed

text \<open>The groups of the keys cover every position once.\<close>

lemma sum_group_lengths:
  assumes "distinct rs" and "rt ` set js \<subseteq> set rs"
  shows "sum_list (map (\<lambda>r. length (filter (\<lambda>j. rt j = r) js)) rs) = length js"
proof -
  have "(\<Sum>r \<in> set rs. length (filter (\<lambda>j. rt j = r) js)) = length js"
    using assms(2)
  proof (induction js)
    case (Cons j js)
    have "(\<Sum>r \<in> set rs. length (filter (\<lambda>j. rt j = r) (j # js))) =
        (\<Sum>r \<in> set rs. (if r = rt j then 1 else 0) + length (filter (\<lambda>j. rt j = r) js))"
      by (intro sum.cong) auto
    also have "\<dots> = 1 + length js" using Cons by (simp add: sum.distrib)
    finally show ?case by simp
  qed simp
  then show ?thesis using assms(1) by (simp add: sum_list_distinct_conv_sum_set)
qed

lemma groups_cover:
  "set rs = rt ` {0..<n} \<Longrightarrow> (\<Union>g \<in> set (map (\<lambda>r. filter (\<lambda>j. rt j = r) [0..<n]) rs). set g) = {..<n}"
  by auto

lemma step_by_aux_skip: "step_by_aux n (length xs) (xs @ ys) = step_by_aux n 0 ys"
  by (induction xs) (auto simp: neq_Nil_conv)

lemma step_by_blocks:
  assumes "0 < s"
  shows "map (\<lambda>i. i div s) (step_by s (concat (map (\<lambda>j. [j * s..<j * s + s]) js))) = js"
proof (induction js)
  case (Cons j js)
  have "[j * s..<j * s + s] = j * s # [Suc (j * s)..<j * s + s]" using assms by (simp add: upt_rec)
  moreover have "length [Suc (j * s)..<j * s + s] = s - 1" by simp
  ultimately show ?case
    using Cons assms step_by_aux_skip [of s "[Suc (j * s)..<j * s + s]"] by (simp add: step_by_def)
qed (simp add: step_by_def)

lemma length_blocks: "length (concat (map (\<lambda>j. [j * s..<j * s + s]) js)) = s * length js"
  by (induction js) auto

section \<open>The split of a command\<close>

fun pattern_step :: "MultiSlotArgPattern \<Rightarrow> nat" where
  "pattern_step KeysOnly = 1"
| "pattern_step KeysAndLastArg = 1"
| "pattern_step KeyValuePairs = 2"
| "pattern_step KeyWithTwoArgTriples = 3"

lemma key_args_block:
  assumes "p \<noteq> KeysAndLastArg" and "idx + pattern_step p \<le> length xs"
  shows "key_args list_routable xs f p idx =
         Ret (Some ([idx..<idx + pattern_step p], idx + pattern_step p - 1, False))"
  using assms by (cases p) (simp_all add: key_args_def incr_add_next_arg_def get_idx_def upt_rec)

lemma multi_shard_loop_blocks:
  fixes crc16 ro xs p
  defines "s \<equiv> pattern_step p"
  assumes "p \<noteq> KeysAndLastArg" and "length xs = 1 + n * s" and "j \<le> n"
  shows "multi_shard_loop crc16 list_routable xs ro 1 p (j * s) m =
         Ret (Some (group_keys (\<lambda>j. get_route crc16 ro (xs ! (1 + j * s))) (\<lambda>j. [j * s..<j * s + s]) [j..<n] m))"
  using assms(4)
proof (induction "n - j" arbitrary: j m)
  case 0
  then show ?case
    using assms(3) by (subst multi_shard_loop.simps) (simp add: group_keys_def)
next
  case (Suc k)
  have s: "0 < s" unfolding s_def by (cases p) auto
  have lt: "Suc j * s \<le> n * s" using Suc by (intro mult_le_mono1) linarith
  then have "j * s < n * s" using s by (simp only: mult_Suc)
  moreover have "key_args list_routable xs 1 p (j * s) = Ret (Some ([j * s..<j * s + s], j * s + s - 1, False))"
    using key_args_block [OF assms(2), of "j * s" xs 1] lt assms(3) unfolding s_def by simp
  moreover have "j * s + s - 1 + 1 = Suc j * s" using s by simp
  moreover have "[j..<n] = j # [Suc j..<n]" using Suc by (simp add: upt_rec)
  ultimately show ?case
    using Suc.hyps(1) [of "Suc j"] Suc.hyps(2) Suc.prems assms(3)
    by (subst multi_shard_loop.simps) (simp add: get_idx_def group_keys_def add.commute [of s])
qed

lemma multi_shard_loop_last_arg:
  assumes "xs = name # ks @ [path]" and "n = length ks" and "j < n"
  shows "multi_shard_loop crc16 list_routable xs ro 1 KeysAndLastArg j m =
         Ret (Some (map (\<lambda>(r, is). (r, is @ [n]))
           (group_keys (\<lambda>j. get_route crc16 ro (xs ! (1 + j))) (\<lambda>j. [j]) [j..<n] m)))"
  using assms(3)
proof (induction "n - j" arbitrary: j m)
  case (Suc k)
  have ka: "key_args list_routable xs (Suc 0) KeysAndLastArg j = Ret (Some ([j], j, Suc j = n))"
    using Suc.prems assms(1,2) by (auto simp: key_args_def get_idx_def)
  have step: "[j..<n] = j # [Suc j..<n]" using Suc.prems by (simp add: upt_rec)
  have len: "1 + j < length xs" using Suc.prems assms(1,2) by simp
  show ?case
  proof (cases "Suc j = n")
    case True
    then show ?thesis using len
      by (subst multi_shard_loop.simps) (auto simp: ka step get_idx_def group_keys_def)
  next
    case False
    then show ?thesis
      using Suc.hyps(1) [of "Suc j"] Suc.hyps(2) Suc.prems len
      by (subst multi_shard_loop.simps) (simp add: ka step get_idx_def group_keys_def)
  qed
qed simp

text \<open>Sub-commands take the name and the arguments at the given positions.\<close>

lemma opt_arg_eq: "opt_arg a c = Ret (case a of None \<Rightarrow> c | Some x \<Rightarrow> cmd_write_arg c x)"
  by (simp add: opt_arg_def cmd_arg_def to_args_option_def to_args_string_def to_redis_args_impl_def
      split: option.split)

context routable_request
begin

lemma add_indices_args:
  assumes "valid r" and "\<forall>i \<in> set is. i + 1 < length (args r)" and "wf_cmd c"
  shows "\<exists>c'. add_indices R r is c = Ret c' \<and> wf_cmd c' \<and>
              cmd_args_of c' = cmd_args_of c @ map (\<lambda>i. Simple (args r ! (i + 1))) is"
  using assms(2,3)
proof (induction "is" arbitrary: c)
  case (Cons i "is")
  then obtain c' where "add_indices R r is (cmd_write_arg c (args r ! (i + 1))) = Ret c'" "wf_cmd c'"
      "cmd_args_of c' = cmd_args_of (cmd_write_arg c (args r ! (i + 1))) @ map (\<lambda>i. Simple (args r ! (i + 1))) is"
    using Cons.IH [OF _ wf_cmd_write_arg] Cons.prems by fastforce
  then show ?case
    using Cons.prems assms(1) by (simp add: arg_idx_law get_idx_def opt_arg_eq cmd_args_of_write_arg)
qed simp

lemma sub_command_args:
  assumes "valid r" and "args r \<noteq> []" and "\<forall>i \<in> set is. i + 1 < length (args r)"
  shows "\<exists>c. command_for_multi_slot_indices R r is = Ret c \<and> wf_cmd c \<and>
             cmd_args_of c = map Simple (args r ! 0 # map (\<lambda>i. args r ! (i + 1)) is)"
proof -
  have "command_for_multi_slot_indices R r is = add_indices R r is (cmd_write_arg cmd_new (args r ! 0))"
    using assms by (simp add: command_for_multi_slot_indices_def arg_idx_law get_idx_def opt_arg_eq)
  then show ?thesis
    using add_indices_args [OF assms(1,3), of "cmd_write_arg cmd_new (args r ! 0)"]
    by (auto simp: wf_cmd_write_arg cmd_args_of_write_arg)
qed

end

end
