(* ===== verification/Multi_Slot_Answers.thy ===== *)
theory Multi_Slot_Answers
  imports Multi_Slot
begin

text \<open>
  What a split command answers: for any assignment of slots and any order in which the routes are
  collected, the merged or summed answers of the nodes are the answer one node holding all keys
  would give.
\<close>

section \<open>A split command answers like one node\<close>

lemma filter_by_position: "map ((!) ks) (filter (\<lambda>j. P (ks ! j)) [0..<length ks]) = filter P ks"
proof -
  have "filter P ks = filter P (map ((!) ks) [0..<length ks])" by (simp add: map_nth)
  then show ?thesis by (simp add: filter_map comp_def)
qed

lemma map_by_position: "map (\<lambda>j. f (xs ! j)) [0..<length xs] = map f xs"
  by (rule nth_equalityI) simp_all

lemma route_slot_get_route: "route_slot (get_route crc16 ro k) = slot_num (slot_for_key crc16 k)"
  by (simp add: get_route_def route_with_key_def route_with_slot_def)

lemma simple_args_of: "cmd_args_of c = map Simple xs \<Longrightarrow> simple_args c = xs"
  by (simp add: simple_args_def comp_def)

text \<open>What a multi slot routing says about the loop over the keys.\<close>

lemma multi_slot_routing:
  assumes "plain_cmd c" and "simple_args c = name # as"
    and "to_ascii_uppercase name = command" and "command \<notin> set container_commands"
    and "base_routing command = ByMultiShard pat"
    and "for_routable crc16 hm cmd_routable c = Ret (Some (MultiNode (MultiSlot routes p) policy))"
  shows "p = pat" and "policy = for_command command"
    and "\<exists>m. routes = hm m \<and>
           multi_shard_loop crc16 list_routable (name # as) (is_readonly_cmd command) 1 pat 0 [] = Ret (Some m)"
proof -
  have "routable_command list_routable (name # as) = Ret (Some command)"
    using assms(3,4) by (simp add: routable_command_def get_idx_def)
  then have "for_routable crc16 hm list_routable (name # as) = multi_shard crc16 hm list_routable (name # as) command 1 pat"
    using assms(5) by (simp add: for_routable_def)
  then have ms: "multi_shard crc16 hm list_routable (name # as) command 1 pat = Ret (Some (MultiNode (MultiSlot routes p) policy))"
    using assms(6) cmd_request.for_routable_args [OF assms(1), of crc16 hm] assms(2) by simp
  then show "p = pat" and "policy = for_command command"
    by (auto simp: multi_shard_def run_bind_eq_Ret split: option.splits if_splits)
  show "\<exists>m. routes = hm m \<and>
           multi_shard_loop crc16 list_routable (name # as) (is_readonly_cmd command) 1 pat 0 [] = Ret (Some m)"
    using ms by (auto simp: multi_shard_def run_bind_eq_Ret split: option.splits if_splits)
qed

lemma sub_commands_of_routes:
  assumes "plain_cmd c" and "simple_args c = name # as"
    and "\<And>r. r \<in> set rs \<Longrightarrow> \<forall>i \<in> set (idxs r). i < length as"
  shows "\<exists>subs. list_all2 (\<lambda>(r, is) sub. command_for_multi_slot_indices cmd_routable c is = Ret sub)
                  (map (\<lambda>r. (r, idxs r)) rs) subs \<and>
                map simple_args subs = map (\<lambda>r. name # map ((!) as) (idxs r)) rs"
proof -
  have "\<exists>sub. command_for_multi_slot_indices cmd_routable c (idxs r) = Ret sub \<and>
              simple_args sub = name # map ((!) as) (idxs r)" if r: "r \<in> set rs" for r
  proof -
    obtain sub where "command_for_multi_slot_indices cmd_routable c (idxs r) = Ret sub"
        and "cmd_args_of sub = map Simple (name # map ((!) as) (idxs r))"
      using cmd_request.sub_command_args [OF assms(1), of "idxs r"] assms(2) assms(3) [OF r] by auto
    then show ?thesis using simple_args_of by blast
  qed
  then obtain f where f: "\<And>r. r \<in> set rs \<Longrightarrow> command_for_multi_slot_indices cmd_routable c (idxs r) = Ret (f r) \<and>
              simple_args (f r) = name # map ((!) as) (idxs r)" by metis
  then show ?thesis
    by (intro exI [of _ "map f rs"]) (auto simp: list_all2_map1 list_all2_map2 list_all2_same)
qed

text \<open>The merge, for the groups of the positions of the keys.\<close>

lemma combine_and_sort_by_route:
  assumes "distinct rs" and "set rs = rt ` set [0..<n]"
    and "calculate_multi_slot_result_indices routes p = Inr (map (\<lambda>r. Ret (filter (\<lambda>j. rt j = r) [0..<n])) rs)"
  shows "combine_and_sort_array_results (map (\<lambda>r. VArray (map ans (filter (\<lambda>j. rt j = r) [0..<n]))) rs) routes p =
         Ret (Inr (VArray (map ans [0..<n])))"
  using combine_and_sort_groups [of routes p "map (\<lambda>r. filter (\<lambda>j. rt j = r) [0..<n]) rs" n ans]
    groups_cover [of rs rt n] sum_group_lengths [OF assms(1), of rt "[0..<n]"] assms(2,3)
  by (simp add: comp_def)

lemma list_all2_eq_map: "map f xs = map g ys \<Longrightarrow> list_all2 (\<lambda>x y. f x = g y) xs ys"
  by (simp add: list_all2_conv_all_nth) (metis length_map nth_map)

text \<open>The routes of a command with keys only, and of one with a shared last argument.\<close>

lemma keys_only_routes:
  assumes "\<And>m. mset (hm m) = mset m" and "routes = hm m"
    and "multi_shard_loop crc16 list_routable (name # ks) ro 1 KeysOnly 0 [] = Ret (Some m)"
  shows "distinct (map fst routes)"
    and "set (map fst routes) = (\<lambda>j. get_route crc16 ro (ks ! j)) ` set [0..<length ks]"
    and "routes = map (\<lambda>r. (r, filter (\<lambda>j. get_route crc16 ro (ks ! j) = r) [0..<length ks])) (map fst routes)"
proof -
  have "m = group_keys (\<lambda>j. get_route crc16 ro (ks ! j)) (\<lambda>j. [j..<j + 1]) [0..<length ks] []"
    using multi_shard_loop_blocks [of KeysOnly "name # ks" "length ks" 0 crc16 ro "[]"] assms(3) by simp
  then have e: "mset routes = mset (group_keys (\<lambda>j. get_route crc16 ro (ks ! j)) (\<lambda>j. [j..<j + 1]) [0..<length ks] [])"
    using assms(1,2) by simp
  show "distinct (map fst routes)"
    and "set (map fst routes) = (\<lambda>j. get_route crc16 ro (ks ! j)) ` set [0..<length ks]"
    by (rule group_keys_entries [OF e])+
  show "routes = map (\<lambda>r. (r, filter (\<lambda>j. get_route crc16 ro (ks ! j) = r) [0..<length ks])) (map fst routes)"
    using group_keys_entries(3) [OF e] by (simp add: concat_map_singleton)
qed

lemma last_arg_routes:
  assumes "\<And>m. mset (hm m) = mset m" and "routes = hm m" and "ks \<noteq> []"
    and "multi_shard_loop crc16 list_routable (name # ks @ [path]) ro 1 KeysAndLastArg 0 [] = Ret (Some m)"
  shows "distinct (map fst routes)"
    and "set (map fst routes) = (\<lambda>j. get_route crc16 ro (ks ! j)) ` set [0..<length ks]"
    and "routes = map (\<lambda>r. (r, filter (\<lambda>j. get_route crc16 ro (ks ! j) = r) [0..<length ks] @ [length ks])) (map fst routes)"
proof -
  let ?n = "length ks" and ?f = "\<lambda>(r, is). (r, is @ [length ks])"
  let ?g = "group_keys (\<lambda>j. get_route crc16 ro ((ks @ [path]) ! j)) (\<lambda>j. [j]) [0..<?n] []"
  have gk: "?g = group_keys (\<lambda>j. get_route crc16 ro (ks ! j)) (\<lambda>j. [j]) [0..<?n] []"
    unfolding group_keys_def by (intro foldl_cong) (auto simp: nth_append)
  have "m = map ?f ?g"
    using multi_shard_loop_last_arg [of "name # ks @ [path]" name ks path ?n 0 crc16 ro "[]"] assms(3,4) by simp
  then have e': "mset routes = image_mset ?f (mset ?g)" using assms(1,2) by simp
  define cut where "cut = map (\<lambda>(r, is :: nat list). (r, butlast is)) routes"
  have "mset cut = mset ?g" unfolding cut_def mset_map e' by (simp add: image_mset.compositionality comp_def case_prod_beta)
  then have e: "mset cut = mset (group_keys (\<lambda>j. get_route crc16 ro (ks ! j)) (\<lambda>j. [j]) [0..<?n] [])" by (simp add: gk)
  have fst: "map fst cut = map fst routes" by (simp add: cut_def comp_def case_prod_beta)
  show "distinct (map fst routes)"
    and "set (map fst routes) = (\<lambda>j. get_route crc16 ro (ks ! j)) ` set [0..<?n]"
    using group_keys_entries(1,2) [OF e] unfolding fst by auto
  have "set routes = ?f ` set ?g" using arg_cong [OF e', of set_mset] by simp
  then have "routes = map ?f cut"
    unfolding cut_def map_map by (intro map_idI [symmetric]) auto
  then show "routes = map (\<lambda>r. (r, filter (\<lambda>j. get_route crc16 ro (ks ! j) = r) [0..<?n] @ [?n])) (map fst routes)"
    using arg_cong [OF group_keys_entries(3) [OF e], of "map ?f"] fst by (simp add: concat_map_singleton comp_def)
qed

text \<open>A split \<^verbatim>\<open>MGET\<close> answers like the whole command on one node that holds all keys: every
  sub-command goes to the slot of its keys, and the merge of the answers of the nodes, in whatever
  order the routes were collected, is the array of the values of all keys in the order asked
  for.\<close>

theorem split_mget_answers_like_one_node:
  assumes "plain_cmd c" and "simple_args c = name # ks" and "to_ascii_uppercase name = ''MGET''"
    and "\<And>m. mset (hm m) = mset m"
    and "for_routable crc16 hm cmd_routable c = Ret (Some (MultiNode (MultiSlot routes p) policy))"
    and "\<And>n as. serve (n # as) = VArray (map look as)"
  shows "\<exists>subs. list_all2 (\<lambda>(r, is) sub. command_for_multi_slot_indices cmd_routable c is = Ret sub) routes subs \<and>
           list_all2 (\<lambda>(r, is) sub. \<forall>k \<in> set (tl (simple_args sub)). slot_num (slot_for_key crc16 k) = route_slot r)
             routes subs \<and>
           policy = Some CombineArrays \<and>
           combine_and_sort_array_results (map (serve \<circ> simple_args) subs) routes p =
             Ret (Inr (serve (simple_args c)))"
proof -
  let ?rt = "\<lambda>k. get_route crc16 (is_readonly_cmd ''MGET'') k"
  let ?n = "length ks" and ?rs = "map fst routes"
  let ?g = "\<lambda>r. filter (\<lambda>j. ?rt (ks ! j) = r) [0..<?n]"
  have tab: "''MGET'' \<notin> set container_commands" "base_routing ''MGET'' = ByMultiShard KeysOnly"
      "for_command ''MGET'' = Some CombineArrays"
    by code_simp+
  note ms = multi_slot_routing [OF assms(1,2,3) tab(1,2) assms(5)]
  obtain m where m: "routes = hm m"
      "multi_shard_loop crc16 list_routable (name # ks) (is_readonly_cmd ''MGET'') 1 KeysOnly 0 [] = Ret (Some m)"
    using ms(3) by blast
  note g = keys_only_routes [OF assms(4) m]
  note routes = g(3)
  have fp: "map ((!) ks) (?g r) = filter (\<lambda>k. ?rt k = r) ks" for r
    by (rule filter_by_position)
  have "\<forall>i \<in> set (?g r). i < length ks" for r by simp
  then obtain subs where subs: "list_all2 (\<lambda>(r, is) sub. command_for_multi_slot_indices cmd_routable c is = Ret sub) routes subs"
      "map simple_args subs = map (\<lambda>r. name # filter (\<lambda>k. ?rt k = r) ks) ?rs"
    using sub_commands_of_routes [OF assms(1,2), of ?rs ?g] unfolding fp routes [symmetric] by blast
  have "list_all2 (\<lambda>x sub. name # filter (\<lambda>k. ?rt k = fst x) ks = simple_args sub) routes subs"
    using subs(2) by (intro list_all2_eq_map) (simp add: comp_def)
  then have slots: "list_all2 (\<lambda>(r, is) sub. \<forall>k \<in> set (tl (simple_args sub)). slot_num (slot_for_key crc16 k) = route_slot r) routes subs"
    by (rule list_all2_mono) (auto simp: route_slot_get_route simp flip: eq_commute [of "simple_args _"])
  have answers: "map (serve \<circ> simple_args) subs = map (\<lambda>r. VArray (map (\<lambda>j. look (ks ! j)) (?g r))) ?rs"
  proof -
    have "map (serve \<circ> simple_args) subs = map serve (map simple_args subs)" by simp
    also have "\<dots> = map (\<lambda>r. VArray (map (\<lambda>j. look (ks ! j)) (?g r))) ?rs"
      unfolding subs(2) fp [symmetric] by (simp add: assms(6) comp_def)
    finally show ?thesis .
  qed
  have "calculate_multi_slot_result_indices routes p = Inr (map (\<lambda>r. Ret (?g r)) ?rs)"
    unfolding ms(1) calculate_multi_slot_result_indices_def MultiSlotArgPattern.case
    by (subst (1) routes) (simp only: map_map comp_def prod.case)
  note merged = combine_and_sort_by_route [OF g(1,2) this, of "\<lambda>j. look (ks ! j)"]
  have whole: "serve (simple_args c) = VArray (map (\<lambda>j. look (ks ! j)) [0..<?n])"
    using map_by_position [of look ks] by (simp only: assms(2,6))
  show ?thesis
    using merged ms(2) tab(3) unfolding whole [symmetric] answers [symmetric]
    by (intro exI [of _ subs] conjI subs(1) slots) simp_all
qed

definition witness_crc16 :: "bytes \<Rightarrow> u16" where
  "witness_crc16 bs = of_nat (sum_list (map byte_val bs))"

text \<open>A split \<^verbatim>\<open>JSON.MGET\<close>, whose last argument is the path that every node needs, answers like
  the whole command on one node.\<close>

theorem split_json_mget_answers_like_one_node:
  assumes "plain_cmd c" and "simple_args c = name # ks @ [path]" and "ks \<noteq> []"
    and "to_ascii_uppercase name = ''JSON.MGET''"
    and "\<And>m. mset (hm m) = mset m"
    and "for_routable crc16 hm cmd_routable c = Ret (Some (MultiNode (MultiSlot routes p) policy))"
    and "\<And>n as pth. serve (n # as @ [pth]) = VArray (map (look pth) as)"
  shows "\<exists>subs. list_all2 (\<lambda>(r, is) sub. command_for_multi_slot_indices cmd_routable c is = Ret sub) routes subs \<and>
           policy = Some CombineArrays \<and>
           combine_and_sort_array_results (map (serve \<circ> simple_args) subs) routes p =
             Ret (Inr (serve (simple_args c)))"
proof -
  let ?rt = "\<lambda>k. get_route crc16 (is_readonly_cmd ''JSON.MGET'') k"
  let ?n = "length ks" and ?rs = "map fst routes"
  let ?g = "\<lambda>r. filter (\<lambda>j. ?rt (ks ! j) = r) [0..<?n]"
  have tab: "''JSON.MGET'' \<notin> set container_commands" "base_routing ''JSON.MGET'' = ByMultiShard KeysAndLastArg"
      "for_command ''JSON.MGET'' = Some CombineArrays"
    by code_simp+
  note ms = multi_slot_routing [OF assms(1,2,4) tab(1,2) assms(6)]
  obtain m where m: "routes = hm m"
      "multi_shard_loop crc16 list_routable (name # ks @ [path]) (is_readonly_cmd ''JSON.MGET'') 1 KeysAndLastArg 0 [] = Ret (Some m)"
    using ms(3) by blast
  note g = last_arg_routes [OF assms(5) m(1) assms(3) m(2)]
  have fp: "map ((!) (ks @ [path])) (?g r @ [?n]) = map ((!) ks) (?g r) @ [path]" for r
    by (auto simp: nth_append)
  have "\<forall>i \<in> set (?g r @ [?n]). i < length (ks @ [path])" for r by auto
  then obtain subs where subs: "list_all2 (\<lambda>(r, is) sub. command_for_multi_slot_indices cmd_routable c is = Ret sub) routes subs"
      "map simple_args subs = map (\<lambda>r. name # map ((!) ks) (?g r) @ [path]) ?rs"
    using sub_commands_of_routes [OF assms(1,2), of ?rs "\<lambda>r. ?g r @ [?n]"] unfolding fp g(3) [symmetric] by blast
  have "map (serve \<circ> simple_args) subs = map serve (map simple_args subs)" by simp
  also have "\<dots> = map (\<lambda>r. VArray (map (\<lambda>j. look path (ks ! j)) (?g r))) ?rs"
    unfolding subs(2) by (simp add: assms(7) comp_def)
  finally have answers: "map (serve \<circ> simple_args) subs = map (\<lambda>r. VArray (map (\<lambda>j. look path (ks ! j)) (?g r))) ?rs" .
  have "calculate_multi_slot_result_indices routes p = Inr (map (\<lambda>r. Ret (?g r)) ?rs)"
    unfolding ms(1) calculate_multi_slot_result_indices_def MultiSlotArgPattern.case
    by (subst (1) g(3)) (simp add: slice_range_def)
  note merged = combine_and_sort_by_route [OF g(1,2) this, of "\<lambda>j. look path (ks ! j)"]
  have whole: "serve (simple_args c) = VArray (map (\<lambda>j. look path (ks ! j)) [0..<?n])"
    using map_by_position [of "look path" ks] by (simp only: assms(2,7))
  show ?thesis
    using merged ms(2) tab(3) unfolding whole [symmetric] answers [symmetric]
    by (intro exI [of _ subs] conjI subs(1)) simp_all
qed

lemma sint_of_nat_64: "n < 2 ^ 63 \<Longrightarrow> sint (of_nat n :: 64 word) = int n"
proof -
  assume "n < 2 ^ 63"
  then have "signed_take_bit 63 (int n) = int n" by (intro signed_take_bit_int_eq_self) auto
  moreover have "sint (of_nat n :: 64 word) = sint (word_of_int (int n) :: 64 word)" by simp
  ultimately show ?thesis by (simp only: sint_sbintrunc') simp
qed

lemma aggregate_fold_counts:
  "a + sum_list cs < 2 ^ 63 \<Longrightarrow>
     aggregate_fold SumOp (of_nat a) (map (\<lambda>n. VInt (of_nat n)) cs) = Ret (Inr (of_nat (a + sum_list cs)))"
proof (induction cs arbitrary: a)
  case (Cons n cs)
  then have "checked_add (of_nat a) (of_nat n) = Ret (of_nat (a + n))"
    by (simp add: checked_add_def sint_of_nat_64 flip: of_nat_add of_nat_less_iff)
  then show ?case using Cons.IH [of "a + n"] Cons.prems by (simp add: add.assoc)
qed simp

lemma counts_by_route:
  fixes cnt :: "bytes multiset \<Rightarrow> nat"
  assumes "\<And>A B. set_mset A \<inter> set_mset B = {} \<Longrightarrow> cnt (A + B) = cnt A + cnt B" and "distinct rs"
  shows "sum_list (map (\<lambda>r. cnt (mset (filter (\<lambda>k. rt k = r) ks))) rs) = cnt (mset (filter (\<lambda>k. rt k \<in> set rs) ks))"
  using assms(2)
proof (induction rs)
  case Nil
  then show ?case using assms(1) [of "{#}" "{#}"] by simp
next
  case (Cons r rs)
  have "mset (filter (\<lambda>k. rt k \<in> set (r # rs)) ks) =
      mset (filter (\<lambda>k. rt k = r) ks) + mset (filter (\<lambda>k. rt k \<in> set rs) ks)"
    using Cons.prems by (induction ks) auto
  moreover have "cnt (mset (filter (\<lambda>k. rt k = r) ks) + mset (filter (\<lambda>k. rt k \<in> set rs) ks)) =
      cnt (mset (filter (\<lambda>k. rt k = r) ks)) + cnt (mset (filter (\<lambda>k. rt k \<in> set rs) ks))"
    using Cons.prems by (intro assms(1)) auto
  ultimately show ?case using Cons by simp
qed

text \<open>A split counting command (\<^verbatim>\<open>DEL\<close>, \<^verbatim>\<open>EXISTS\<close>, \<^verbatim>\<open>UNLINK\<close>, \<^verbatim>\<open>TOUCH\<close>) answers like the whole
  command on one node: the sum of the counts of the nodes is the count of all keys, for every way of
  counting that adds up over disjoint sets of keys, whether or not it counts repeated keys again.\<close>

theorem split_count_answers_like_one_node:
  fixes cnt :: "bytes multiset \<Rightarrow> nat"
  assumes "plain_cmd c" and "simple_args c = name # ks"
    and "to_ascii_uppercase name \<in> {''DEL'', ''EXISTS'', ''UNLINK'', ''TOUCH''}"
    and "\<And>m. mset (hm m) = mset m"
    and "for_routable crc16 hm cmd_routable c = Ret (Some (MultiNode (MultiSlot routes p) policy))"
    and "\<And>n as. serve (n # as) = VInt (of_nat (cnt (mset as)))"
    and "\<And>A B. set_mset A \<inter> set_mset B = {} \<Longrightarrow> cnt (A + B) = cnt A + cnt B"
    and "cnt (mset ks) < 2 ^ 63"
  shows "\<exists>subs. list_all2 (\<lambda>(r, is) sub. command_for_multi_slot_indices cmd_routable c is = Ret sub) routes subs \<and>
           policy = Some (Aggregate SumOp) \<and>
           aggregate (map (serve \<circ> simple_args) subs) SumOp = Ret (Inr (serve (simple_args c)))"
proof -
  define command where "command = to_ascii_uppercase name"
  let ?rt = "\<lambda>k. get_route crc16 (is_readonly_cmd command) k"
  let ?g = "\<lambda>r. filter (\<lambda>j. ?rt (ks ! j) = r) [0..<length ks]" and ?rs = "map fst routes"
  have "\<forall>x \<in> {''DEL'', ''EXISTS'', ''UNLINK'', ''TOUCH''}. x \<notin> set container_commands \<and>
      base_routing x = ByMultiShard KeysOnly \<and> for_command x = Some (Aggregate SumOp)" by code_simp
  then have tab: "command \<notin> set container_commands" "base_routing command = ByMultiShard KeysOnly"
      "for_command command = Some (Aggregate SumOp)" using assms(3) unfolding command_def by blast+
  note ms = multi_slot_routing [OF assms(1,2) command_def [symmetric] tab(1,2) assms(5)]
  obtain m where m: "routes = hm m"
      "multi_shard_loop crc16 list_routable (name # ks) (is_readonly_cmd command) 1 KeysOnly 0 [] = Ret (Some m)"
    using ms(3) by blast
  note g = keys_only_routes [OF assms(4) m]
  have fp: "map ((!) ks) (?g r) = filter (\<lambda>k. ?rt k = r) ks" for r
    by (rule filter_by_position)
  have "\<forall>i \<in> set (?g r). i < length ks" for r by simp
  then obtain subs where subs: "list_all2 (\<lambda>(r, is) sub. command_for_multi_slot_indices cmd_routable c is = Ret sub) routes subs"
      "map simple_args subs = map (\<lambda>r. name # filter (\<lambda>k. ?rt k = r) ks) ?rs"
    using sub_commands_of_routes [OF assms(1,2), of ?rs ?g] unfolding fp g(3) [symmetric] by blast
  let ?cs = "map (\<lambda>r. cnt (mset (filter (\<lambda>k. ?rt k = r) ks))) ?rs"
  have answers: "map (serve \<circ> simple_args) subs = map (\<lambda>n. VInt (of_nat n)) ?cs"
    unfolding map_map [symmetric] subs(2) by (simp add: assms(6) comp_def)
  have "filter (\<lambda>k. ?rt k \<in> set ?rs) ks = ks"
    unfolding g(2) by (auto simp: filter_id_conv in_set_conv_nth)
  then have "sum_list ?cs = cnt (mset ks)" using counts_by_route [OF assms(7) g(1), of ?rt ks] by simp
  then have "aggregate (map (serve \<circ> simple_args) subs) SumOp = Ret (Inr (serve (simple_args c)))"
    using aggregate_fold_counts [of 0 ?cs] assms(2,6,8) unfolding answers
    by (simp add: aggregate_def aggregate_init_def)
  then show ?thesis using subs(1) ms(2) tab(3) by (intro exI [of _ subs] conjI) simp_all
qed

text \<open>C27.  The check that every key of an \<^verbatim>\<open>MSET\<close> has a value looks one position too early, so the
  value missing after the last key goes unnoticed: the command is split, and the sub-command of the
  last key consists of the key alone.\<close>

theorem mset_without_last_value_is_split:
  assumes "slot_for_key crc16 k1 \<noteq> slot_for_key crc16 k2"
  shows "\<exists>routes p policy sub.
     for_routable crc16 id list_routable [''MSET'', k1, v1, k2] = Ret (Some (MultiNode (MultiSlot routes p) policy)) \<and>
     (\<exists>is. (Route (slot_num (slot_for_key crc16 k2)) Master, is) \<in> set routes \<and>
        command_for_multi_slot_indices list_routable [''MSET'', k1, v1, k2] is = Ret sub) \<and>
     simple_args sub = [''MSET'', k2]"
proof -
  let ?xs = "[''MSET'', k1, v1, k2]"
  let ?r = "\<lambda>k. Route (slot_num (slot_for_key crc16 k)) Master"
  have tab: "to_ascii_uppercase ''MSET'' = ''MSET''" "''MSET'' \<notin> set container_commands"
      "base_routing ''MSET'' = ByMultiShard KeyValuePairs" "\<not> is_readonly_cmd ''MSET''" by code_simp+
  have ne: "?r k1 \<noteq> ?r k2" using assms by (cases "slot_for_key crc16 k1"; cases "slot_for_key crc16 k2") auto
  have rt: "get_route crc16 (is_readonly_cmd ''MSET'') k = ?r k" for k
    using tab(4) by (simp add: get_route_def route_with_key_def route_with_slot_def)
  have "multi_shard_loop crc16 list_routable ?xs (is_readonly_cmd ''MSET'') 1 KeyValuePairs 0 [] =
      Ret (Some [(?r k1, [0, 1]), (?r k2, [2, 3])])"
    using ne by (simp add: multi_shard_loop.simps get_idx_def key_args_def incr_add_next_arg_def rt)
  then have "for_routable crc16 id list_routable ?xs =
      Ret (Some (MultiNode (MultiSlot [(?r k1, [0, 1]), (?r k2, [2, 3])] KeyValuePairs) (for_command ''MSET'')))"
    using tab by (simp add: for_routable_def routable_command_def multi_shard_def get_idx_def)
  moreover have "command_for_multi_slot_indices list_routable ?xs [2, 3] = Ret (cmd_write_arg (cmd_write_arg cmd_new ''MSET'') k2)"
    by (simp add: command_for_multi_slot_indices_def opt_arg_eq get_idx_def numeral_eq_Suc)
  moreover have "simple_args (cmd_write_arg (cmd_write_arg cmd_new ''MSET'') k2) = [''MSET'', k2]"
    by (simp add: simple_args_def cmd_args_of_write_arg wf_cmd_write_arg)
  ultimately show ?thesis by fastforce
qed

theorem mset_without_last_value_is_split_witness:
  "\<exists>routes p policy sub.
     for_routable witness_crc16 id list_routable [''MSET'', ''a'', ''1'', ''b''] = Ret (Some (MultiNode (MultiSlot routes p) policy)) \<and>
     (\<exists>is. (Route (slot_num (slot_for_key witness_crc16 ''b'')) Master, is) \<in> set routes \<and>
        command_for_multi_slot_indices list_routable [''MSET'', ''a'', ''1'', ''b''] is = Ret sub) \<and>
     simple_args sub = [''MSET'', ''b'']"
proof -
  have "slot_for_key witness_crc16 ''a'' \<noteq> slot_for_key witness_crc16 ''b''" by code_simp
  then show ?thesis by (rule mset_without_last_value_is_split)
qed

end
