(* ===== verification/Cluster_Fanout.thy ===== *)
theory Cluster_Fanout
  imports Cluster_Nodes Cluster_Loop Multi_Slot_Answers
begin

text \<open>
  Execution of a request by the asynchronous cluster client (\<^verbatim>\<open>Core::try_request\<close> and what it calls in
  \<^verbatim>\<open>cluster_handling/async_connection/mod.rs\<close>): on one node, or on several nodes whose answers are
  then aggregated.

  The answers of the nodes to the parts of a request on several nodes are input, as they come through
  the event loop: \<open>None\<close> is a channel whose sender was dropped.  \<open>order\<close> is the order in which they
  arrive, a list of positions: \<^verbatim>\<open>try_join_all\<close> stops at the first error to arrive and \<^verbatim>\<open>select_ok\<close> at
  the first success.
\<close>

section \<open>Waiting for several answers\<close>

fun first_error :: "'a redis_result list \<Rightarrow> RedisError option" where
  "first_error [] = None"
| "first_error (Inl e # rs) = Some e"
| "first_error (Inr _ # rs) = first_error rs"

definition try_join_all :: "nat list \<Rightarrow> 'a redis_result list \<Rightarrow> 'a list redis_result" where
  "try_join_all order results = (case first_error (map ((!) results) order) of
     Some e \<Rightarrow> Inl e
   | None \<Rightarrow> map_res id results)"

fun select_ok_from :: "RedisError \<Rightarrow> 'a redis_result list \<Rightarrow> 'a redis_result" where
  "select_ok_from e [] = Inl e"
| "select_ok_from e (Inr x # rs) = Inr x"
| "select_ok_from e (Inl e' # rs) = select_ok_from e' rs"

definition select_ok :: "nat list \<Rightarrow> 'a redis_result list \<Rightarrow> 'a redis_result run" where
  "select_ok order results = (case map ((!) results) order of
     [] \<Rightarrow> Panic
   | Inr x # _ \<Rightarrow> Ret (Inr x)
   | Inl e # rs \<Rightarrow> Ret (select_ok_from e rs))"

section \<open>Aggregating\<close>

definition convert_result :: "Response redis_result option \<Rightarrow> Value redis_result run" where
  "convert_result res = (case res of
     None \<Rightarrow> Ret (Inl (error_of Client ''request wasn't handled due to internal failure''))
   | Some (Inl e) \<Rightarrow> Ret (Inl e)
   | Some (Inr (Single v)) \<Rightarrow> Ret (Inr v)
   | Some (Inr (Multiple _)) \<Rightarrow> Panic)"

text \<open>The loop of the policy \<^verbatim>\<open>FirstSucceededNonEmptyOrAllEmpty\<close>.\<close>

fun first_non_empty ::
    "nat \<Rightarrow> nat \<Rightarrow> RedisError option \<Rightarrow> Value redis_result list \<Rightarrow> Value redis_result" where
  "first_non_empty num_results nil_counter last_err [] =
     (if nil_counter = num_results then Inr VNil
      else Inl (case last_err of
                  Some e \<Rightarrow> e
                | None \<Rightarrow> error_of ClusterConnectionNotFound ''Couldn't find any connection''))"
| "first_non_empty num_results nil_counter last_err (val # vals) = (case val of
     Inr VNil \<Rightarrow> first_non_empty num_results (nil_counter + 1) last_err vals
   | Inr (VServerError err) \<Rightarrow> first_non_empty num_results nil_counter (Some (ServerErr err)) vals
   | Inr v \<Rightarrow> Inr v
   | Inl err \<Rightarrow> first_non_empty num_results nil_counter (Some err) vals)"

definition keep_server_error :: "Value redis_result \<Rightarrow> Value redis_result" where
  "keep_server_error r = (case r of
     Inr v \<Rightarrow> Inr v
   | Inl err \<Rightarrow>
       (case try_into_server_error err of
          Inr server_error \<Rightarrow> Inr (VServerError server_error)
        | Inl err' \<Rightarrow> Inl err'))"

definition aggregate_values ::
    "((bytes \<times> i64) list \<Rightarrow> (bytes \<times> i64) list) \<Rightarrow> NodeAddress list \<Rightarrow> nat list \<Rightarrow> MultipleNodeRoutingInfo \<Rightarrow>
     ResponsePolicy option \<Rightarrow> Value redis_result list \<Rightarrow> Value redis_result run" where
  "aggregate_values hmi nodes order routing response_policy results =
     (let joined = (\<lambda>f. case try_join_all order results of Inl e \<Rightarrow> Ret (Inl e) | Inr values \<Rightarrow> f values);
          by_node = map_sum id VMap (map_res (\<lambda>(addr, r).
            res_bind (keep_server_error r) (\<lambda>v. Inr (BulkString (node_address_text addr), v))) (zip nodes results))
      in (case response_policy of
            Some AllSucceeded \<Rightarrow>
              joined (\<lambda>values. Ret (if values = [] then Inl (error_of ClusterConnectionNotFound
                                        ''No results received for multi-node operation'')
                                    else Inr (last values)))
          | Some OneSucceeded \<Rightarrow> select_ok order results
          | Some FirstSucceededNonEmptyOrAllEmpty \<Rightarrow> Ret (first_non_empty (length results) 0 None results)
          | Some (Aggregate op) \<Rightarrow> joined (\<lambda>values. aggregate values op)
          | Some (AggregateLogical op) \<Rightarrow> joined (\<lambda>values. logical_aggregate values op)
          | Some CombineArrays \<Rightarrow>
              joined (\<lambda>values. case routing of
                 MultiSlot routes pattern \<Rightarrow> combine_and_sort_array_results values routes pattern
               | _ \<Rightarrow> Ret (combine_array_results values))
          | Some CombineMaps \<Rightarrow> joined (combine_map_results hmi)
          | Some Special \<Rightarrow> Ret by_node
          | None \<Rightarrow> Ret by_node))"

definition aggregate_results ::
    "((bytes \<times> i64) list \<Rightarrow> (bytes \<times> i64) list) \<Rightarrow> (NodeAddress \<times> Response redis_result option) list \<Rightarrow> nat list \<Rightarrow>
     MultipleNodeRoutingInfo \<Rightarrow> ResponsePolicy option \<Rightarrow> Value redis_result run" where
  "aggregate_results hmi receivers order routing response_policy =
     (if receivers = []
      then Ret (Inl (error_of ClusterConnectionNotFound ''No nodes found for multi-node operation''))
      else run_bind (map_runs (\<lambda>(_, answer). convert_result answer) receivers)
             (aggregate_values hmi (map fst receivers) order routing response_policy))"

section \<open>Requests on several nodes\<close>

definition to_request :: "('c, 's, 'w) core \<Rightarrow> NodeAddress \<times> Cmd \<Rightarrow> (NodeAddress \<times> 'c \<times> Cmd) option" where
  "to_request core part = (case part of (addr, c) \<Rightarrow>
     map_option (\<lambda>conn. (addr, conn, c)) (Option.bind (map_of (co_conns core) addr) connected_or_reconnecting))"

fun slot_parts :: "Cmd \<Rightarrow> (Route \<times> nat list) list \<Rightarrow> NodeAddress option list \<Rightarrow> (NodeAddress \<times> Cmd) list run" where
  "slot_parts c ((_, indices) # routes) (addr_opt # addrs) =
     (case addr_opt of
        None \<Rightarrow> slot_parts c routes addrs
      | Some addr \<Rightarrow>
          run_bind (command_for_multi_slot_indices cmd_routable c indices) (\<lambda>part.
            map_run ((#) (addr, part)) (slot_parts c routes addrs)))"
| "slot_parts c _ _ = Ret []"

definition parts_of ::
    "('c, 's, 'w) core_config \<Rightarrow> Cmd \<Rightarrow> MultipleNodeRoutingInfo \<Rightarrow> ('c, 's, 'w) core \<Rightarrow>
     ((NodeAddress \<times> Cmd) list \<times> ('c, 's, 'w) core) run" where
  "parts_of cf c routing core = (case routing of
     AllNodes \<Rightarrow> Ret (map (\<lambda>a. (a, c)) (cf_nodes cf (addresses_for_all_nodes (co_slots core))), core)
   | AllMasters \<Rightarrow> Ret (map (\<lambda>a. (a, c)) (cf_nodes cf (addresses_for_all_primaries (co_slots core))), core)
   | MultiSlot routes _ \<Rightarrow>
       run_bind (addresses_for_multi_slot (cf_pick cf) (co_slots core) routes (cf_strategy cf) (co_strategy core)) (\<lambda>(addrs, st).
         map_run (\<lambda>parts. (parts, core\<lparr>co_strategy := st\<rparr>)) (slot_parts c routes addrs)))"

text \<open>The parts that are sent, each with the connection it is sent on.  In the code they are put into
  the queue of pending requests, routed to that connection.\<close>

definition fan_out_requests ::
    "('c, 's, 'w) core_config \<Rightarrow> Cmd \<Rightarrow> MultipleNodeRoutingInfo \<Rightarrow> ('c, 's, 'w) core \<Rightarrow>
     ((NodeAddress \<times> 'c \<times> Cmd) list \<times> ('c, 's, 'w) core) run" where
  "fan_out_requests cf c routing core =
     map_run (\<lambda>(parts, core1). (List.map_filter (to_request core) parts, core1)) (parts_of cf c routing core)"

definition part_request :: "nat \<Rightarrow> NodeAddress \<times> 'c \<times> Cmd \<Rightarrow> 'c PendingRequest" where
  "part_request ch part = (case part of (addr, conn, c) \<Rightarrow>
     \<lparr>pr_retry = 0, pr_sender = External ch, pr_cmd = CmdRequest c (ISingleNode (IConnection addr conn))\<rparr>)"

definition execute_on_multiple_nodes ::
    "('c, 's, 'w) core_config \<Rightarrow> ((bytes \<times> i64) list \<Rightarrow> (bytes \<times> i64) list) \<Rightarrow>
     ((NodeAddress \<times> 'c \<times> Cmd) list \<Rightarrow> Response redis_result option list) \<Rightarrow> nat list \<Rightarrow>
     Cmd \<Rightarrow> MultipleNodeRoutingInfo \<Rightarrow> ResponsePolicy option \<Rightarrow> ('c, 's, 'w) core \<Rightarrow>
     ((OperationTarget \<times> Response redis_result) \<times> ('c, 's, 'w) core) run" where
  "execute_on_multiple_nodes cf hmi answers order c routing response_policy core =
     (if co_conns core = []
      then Ret ((FanOut, Inl (error_of ClusterConnectionNotFound ''No connections found for multi-node operation'')), core)
      else
        run_bind (fan_out_requests cf c routing core) (\<lambda>(requests, core1).
        run_bind (aggregate_results hmi (zip (map fst requests) (answers requests)) order routing response_policy) (\<lambda>r.
          Ret ((FanOut, map_sum id Single r), core1))))"

section \<open>Requests\<close>

definition track_reply ::
    "Cmd \<Rightarrow> Value redis_result \<Rightarrow> SubscriptionTracker option \<Rightarrow> SubscriptionTracker option run" where
  "track_reply c reply tracker = (case (reply, tracker) of
     (Inr v, Some t) \<Rightarrow>
       (case v of
          VServerError _ \<Rightarrow> Ret tracker
        | _ \<Rightarrow> map_run Some (update_with_cmd c t))
   | _ \<Rightarrow> Ret tracker)"

definition try_cmd_request ::
    "('c, 's, 'w) core_config \<Rightarrow> ((bytes \<times> i64) list \<Rightarrow> (bytes \<times> i64) list) \<Rightarrow>
     ((NodeAddress \<times> 'c \<times> Cmd) list \<Rightarrow> Response redis_result option list) \<Rightarrow> nat list \<Rightarrow>
     Cmd \<Rightarrow> 'c InternalRoutingInfo \<Rightarrow> SubscriptionTracker option \<times> ('c, 's, 'w) core \<Rightarrow>
     ((OperationTarget \<times> Response redis_result) \<times> SubscriptionTracker option \<times> ('c, 's, 'w) core) run" where
  "try_cmd_request cf hmi answers order c routing state = (case state of (tracker, core) \<Rightarrow>
     (case routing of
        IMultiNode nodes policy \<Rightarrow>
          map_run (\<lambda>(r, core1). (r, tracker, core1)) (execute_on_multiple_nodes cf hmi answers order c nodes policy core)
      | ISingleNode route \<Rightarrow>
          run_bind (get_connection cf route core) (\<lambda>(r, core1).
            case r of
              Inl err \<Rightarrow> Ret ((NotFound, Inl err), tracker, core1)
            | Inr (addr, conn) \<Rightarrow>
                (let (reply, core2) = core_req cf conn c core1
                 in run_bind (track_reply c reply tracker) (\<lambda>tracker'.
                      Ret ((Node addr, map_sum id Single reply), tracker', core2))))))"

text \<open>The subscriptions of a pipeline are tracked command by command, skipping those the server
  refused; in a transaction the replies are inside the one reply of EXEC.  \<open>res[index]\<close> panics when
  there are fewer replies than commands.\<close>

fun track_replies ::
    "Value list \<Rightarrow> nat \<Rightarrow> Cmd list \<Rightarrow> SubscriptionTracker \<Rightarrow> SubscriptionTracker run" where
  "track_replies res index [] t = Ret t"
| "track_replies res index (c # cs) t =
     (if length res \<le> index then Panic
      else run_bind (case res ! index of VServerError _ \<Rightarrow> Ret t | _ \<Rightarrow> update_with_cmd c t)
             (track_replies res (index + 1) cs))"

definition track_pipeline ::
    "Pipeline \<Rightarrow> Value list redis_result \<Rightarrow> SubscriptionTracker option \<Rightarrow> SubscriptionTracker option run" where
  "track_pipeline p reply tracker = (case (reply, tracker) of
     (Inr res, Some t) \<Rightarrow>
       (if is_transaction p then
          (case res of
             [VArray arr] \<Rightarrow> map_run Some (track_replies arr 0 (commands p) t)
           | [_] \<Rightarrow> map_run Some (track_replies res 0 (commands p) t)
           | _ \<Rightarrow> Panic)
        else map_run Some (track_replies res 0 (commands p) t))
   | _ \<Rightarrow> Ret tracker)"

definition try_pipeline_request ::
    "('c, 's, 'w) core_config \<Rightarrow> ('c \<Rightarrow> Pipeline \<Rightarrow> nat \<Rightarrow> nat \<Rightarrow> 'w \<Rightarrow> Value list redis_result \<times> 'w) \<Rightarrow>
     Pipeline \<Rightarrow> nat \<Rightarrow> nat \<Rightarrow> 'c InternalSingleNodeRouting \<Rightarrow> SubscriptionTracker option \<times> ('c, 's, 'w) core \<Rightarrow>
     ((OperationTarget \<times> Response redis_result) \<times> SubscriptionTracker option \<times> ('c, 's, 'w) core) run" where
  "try_pipeline_request cf req_pipeline p offset n route state = (case state of (tracker, core) \<Rightarrow>
     run_bind (get_connection cf route core) (\<lambda>(r, core1).
       case r of
         Inl err \<Rightarrow> Ret ((NotFound, Inl err), tracker, core1)
       | Inr (addr, conn) \<Rightarrow>
           (let (reply, w) = req_pipeline conn p offset n (co_world core1)
            in run_bind (track_pipeline p reply tracker) (\<lambda>tracker'.
                 Ret ((Node addr, map_sum id Multiple reply), tracker', core1\<lparr>co_world := w\<rparr>)))))"

definition try_request ::
    "('c, 's, 'w) core_config \<Rightarrow> ((bytes \<times> i64) list \<Rightarrow> (bytes \<times> i64) list) \<Rightarrow>
     ((NodeAddress \<times> 'c \<times> Cmd) list \<Rightarrow> Response redis_result option list) \<Rightarrow> nat list \<Rightarrow>
     ('c \<Rightarrow> Pipeline \<Rightarrow> nat \<Rightarrow> nat \<Rightarrow> 'w \<Rightarrow> Value list redis_result \<times> 'w) \<Rightarrow>
     'c CmdArg \<Rightarrow> SubscriptionTracker option \<times> ('c, 's, 'w) core \<Rightarrow>
     ((OperationTarget \<times> Response redis_result) \<times> SubscriptionTracker option \<times> ('c, 's, 'w) core) run" where
  "try_request cf hmi answers order req_pipeline c state = (case c of
     ReconnectRequest addr \<Rightarrow> Ret ((Node addr, Inl (error_of Io ''connection dropped'')), state)
   | CmdRequest command routing \<Rightarrow> try_cmd_request cf hmi answers order command routing state
   | PipelineRequest p offset n route \<Rightarrow> try_pipeline_request cf req_pipeline p offset n route state)"

section \<open>The interface of the connection\<close>

text \<open>\<^verbatim>\<open>route_command\<close> and \<^verbatim>\<open>route_pipeline\<close> take the answer out of the response that arrives on their
  channel; \<open>None\<close> is a channel whose sender was dropped.\<close>

definition command_answer :: "Response redis_result option \<Rightarrow> Value redis_result run" where
  "command_answer received = (case received of
     None \<Rightarrow> Ret (Inl (io_error BrokenPipe))
   | Some (Inl e) \<Rightarrow> Ret (Inl e)
   | Some (Inr (Single v)) \<Rightarrow> Ret (Inr v)
   | Some (Inr (Multiple _)) \<Rightarrow> Panic)"

definition pipeline_answer :: "Response redis_result option \<Rightarrow> Value list redis_result run" where
  "pipeline_answer received = (case received of
     None \<Rightarrow> Ret (Inl closed_connection_error)
   | Some (Inl e) \<Rightarrow> Ret (Inl e)
   | Some (Inr (Multiple vs)) \<Rightarrow> Ret (Inr vs)
   | Some (Inr (Single _)) \<Rightarrow> Panic)"

definition command_message ::
    "(bytes \<Rightarrow> u16) \<Rightarrow> ((Route \<times> nat list) list \<Rightarrow> (Route \<times> nat list) list) \<Rightarrow> u16 \<Rightarrow> Cmd \<Rightarrow> 'c CmdArg run" where
  "command_message crc16 hm drawn c =
     map_run (\<lambda>info. CmdRequest c (internal_routing_of drawn (case info of Some r \<Rightarrow> r | None \<Rightarrow> SingleNode Random)))
       (for_routable crc16 hm cmd_routable c)"

definition pipeline_message ::
    "(bytes \<Rightarrow> u16) \<Rightarrow> ((Route \<times> nat list) list \<Rightarrow> (Route \<times> nat list) list) \<Rightarrow> u16 \<Rightarrow> Pipeline \<Rightarrow> nat \<Rightarrow> nat \<Rightarrow>
     'c CmdArg redis_result run" where
  "pipeline_message crc16 hm drawn p offset n =
     map_run (\<lambda>route. res_bind route (\<lambda>r.
        Inr (PipelineRequest p offset n (internal_single_of drawn (single_node_of_route r)))))
       (route_for_pipeline crc16 hm drawn p)"

section \<open>A split request answered by the cluster\<close>

lemma first_error_oks: "\<forall>r \<in> set rs. \<exists>x. r = Inr x \<Longrightarrow> first_error rs = None"
proof (induction rs)
  case (Cons r rs)
  then obtain x where "r = Inr x" by auto
  then show ?case using Cons by simp
qed simp

lemma map_res_id_oks [simp]: "map_res id (map Inr xs) = Inr xs"
  by (induction xs) simp_all

lemma try_join_all_oks:
  "set order \<subseteq> {..<length xs} \<Longrightarrow> try_join_all order (map Inr xs) = Inr xs"
proof -
  assume "set order \<subseteq> {..<length xs}"
  then have "first_error (map ((!) (map Inr xs)) order) = None" by (intro first_error_oks) auto
  then show ?thesis by (simp add: try_join_all_def)
qed

lemma map_runs_convert_singles:
  "length nodes = length vs \<Longrightarrow>
     map_runs (\<lambda>(_, answer). convert_result answer) (zip nodes (map (\<lambda>v. Some (Inr (Single v))) vs)) = Ret (map Inr vs)"
  by (induction nodes vs rule: list_induct2) (simp_all add: convert_result_def)

lemma addresses_for_multi_slot_serving:
  assumes "config_ok cf" and "\<forall>(r, is) \<in> set routes. srm_get m (route_slot r) \<noteq> None"
  shows "\<exists>as st'. addresses_for_multi_slot (cf_pick cf) m routes (cf_strategy cf) st = Ret (map Some as, st') \<and>
           list_all2 (\<lambda>(r, is) a. \<exists>addrs. srm_get m (route_slot r) = Some addrs \<and>
             a \<in> serving_nodes addrs (route_slot_addr r)) routes as"
  using assms(2)
proof (induction routes arbitrary: st)
  case (Cons x routes)
  obtain r ks where x: "x = (r, ks)" by (cases x)
  obtain addrs where addrs: "srm_get m (route_slot r) = Some addrs" using Cons.prems x by auto
  obtain a st1 where a: "slot_addr (cf_pick cf) addrs (route_slot r) (route_slot_addr r) (cf_strategy cf) st = Ret (a, st1)"
    "a \<in> serving_nodes addrs (route_slot_addr r)"
    using slot_addr_serving [OF assms(1)] by blast
  then have 1: "slot_addr_for_route (cf_pick cf) m r (cf_strategy cf) st = Ret (Some a, st1)"
    by (simp add: slot_addr_for_route_def addrs)
  obtain as st2 where 2: "addresses_for_multi_slot (cf_pick cf) m routes (cf_strategy cf) st1 = Ret (map Some as, st2)"
    "list_all2 (\<lambda>(r, is) a. \<exists>addrs. srm_get m (route_slot r) = Some addrs \<and>
       a \<in> serving_nodes addrs (route_slot_addr r)) routes as"
    using Cons.IH [of st1] Cons.prems by force
  then show ?case using 1 a(2) addrs x by (intro exI [of _ "a # as"] exI [of _ st2]) simp
qed simp

lemma slot_parts_all:
  assumes "list_all2 (\<lambda>(r, is) sub. command_for_multi_slot_indices cmd_routable c is = Ret sub) routes subs"
    and "length as = length subs"
  shows "slot_parts c routes (map Some as) = Ret (zip as subs)"
  using assms
proof (induction routes subs arbitrary: as rule: list_all2_induct)
  case (Cons x routes sub subs)
  then show ?case by (cases as; cases x) simp_all
qed simp

lemma to_request_pair:
  "to_request core (a, c) =
     map_option (\<lambda>conn. (a, conn, c)) (Option.bind (map_of (co_conns core) a) connected_or_reconnecting)"
  by (simp add: to_request_def)

lemma to_request_all:
  assumes "\<forall>a \<in> set as. \<exists>conn. Option.bind (map_of (co_conns core) a) connected_or_reconnecting = Some conn"
    and "length as = length subs"
  shows "\<exists>conns. length conns = length subs \<and>
           List.map_filter (to_request core) (zip as subs) = zip as (zip conns subs)"
  using assms(2,1)
proof (induction as subs rule: list_induct2)
  case (Cons a as sub subs)
  then obtain conn conns where "Option.bind (map_of (co_conns core) a) connected_or_reconnecting = Some conn"
    "length conns = length subs" "List.map_filter (to_request core) (zip as subs) = zip as (zip conns subs)" by auto
  then show ?case by (intro exI [of _ "conn # conns"]) (simp add: to_request_pair List.map_filter_simps)
qed (simp add: List.map_filter_simps)

lemma serving_in_shard: "a \<in> serving_nodes addrs sa \<Longrightarrow> a \<in> set (slot_addrs_iter addrs)"
  by (cases sa) (auto simp: serving_nodes_def slot_addrs_iter_def split: if_splits)

lemma slot_map_nodes_iff: "a \<in> slot_map_nodes m \<longleftrightarrow> (\<exists>v \<in> set (srm_values m). a \<in> set (slot_addrs_iter v))"
  by (auto simp: slot_map_nodes_def)

lemma srm_get_value:
  assumes "srm_get m s = Some v"
  shows "v \<in> set (srm_values m)"
proof -
  obtain e start where "List.find (\<lambda>(e, _, _). s \<le> e) m = Some (e, start, v)"
    using assms by (auto simp: srm_get_def split: option.splits if_splits)
  then obtain i where "i < length m" "m ! i = (e, start, v)" by (auto simp: find_Some_iff)
  then have "(e, start, v) \<in> set m" by (metis nth_mem)
  then show ?thesis by (force simp: srm_values_def)
qed

text \<open>The requests sent for a command that is split over slots that are all served.\<close>

lemma fan_out_multi_slot:
  assumes "config_ok cf" and "\<forall>(r, is) \<in> set routes. srm_get (co_slots core) (route_slot r) \<noteq> None"
    and "\<forall>a \<in> slot_map_nodes (co_slots core). \<exists>conn. Option.bind (map_of (co_conns core) a) connected_or_reconnecting = Some conn"
    and "list_all2 (\<lambda>(r, is) sub. command_for_multi_slot_indices cmd_routable c is = Ret sub) routes subs"
  obtains as conns core' where
    "fan_out_requests cf c (MultiSlot routes p) core = Ret (zip as (zip conns subs), core')"
    "length as = length subs" "length conns = length subs"
    "list_all2 (\<lambda>(r, is) a. \<exists>addrs. srm_get (co_slots core) (route_slot r) = Some addrs \<and>
       a \<in> set (slot_addrs_iter addrs)) routes as"
proof -
  obtain as st where as: "addresses_for_multi_slot (cf_pick cf) (co_slots core) routes (cf_strategy cf) (co_strategy core) =
      Ret (map Some as, st)"
    "list_all2 (\<lambda>(r, is) a. \<exists>addrs. srm_get (co_slots core) (route_slot r) = Some addrs \<and>
       a \<in> serving_nodes addrs (route_slot_addr r)) routes as"
    using addresses_for_multi_slot_serving [OF assms(1,2)] by blast
  have len: "length as = length subs"
    using list_all2_lengthD [OF as(2)] list_all2_lengthD [OF assms(4)] by simp
  have shard: "list_all2 (\<lambda>(r, is) a. \<exists>addrs. srm_get (co_slots core) (route_slot r) = Some addrs \<and>
       a \<in> set (slot_addrs_iter addrs)) routes as"
    using as(2) by (rule list_all2_mono) (auto dest: serving_in_shard)
  have "a \<in> slot_map_nodes (co_slots core)" if a: "a \<in> set as" for a
  proof -
    obtain i where "i < length as" "as ! i = a" using a by (auto simp: in_set_conv_nth)
    then obtain addrs s where "srm_get (co_slots core) s = Some addrs" "a \<in> set (slot_addrs_iter addrs)"
      using list_all2_nthD2 [OF shard, of i] by (auto split: prod.splits)
    then show ?thesis using srm_get_value [of "co_slots core"] by (auto simp: slot_map_nodes_iff)
  qed
  then obtain conns where "length conns = length subs"
    "List.map_filter (to_request core) (zip as subs) = zip as (zip conns subs)"
    using to_request_all [OF _ len, of core] assms(3) by blast
  then show thesis
    using that [of as conns "core\<lparr>co_strategy := st\<rparr>"] as(1) len shard
    by (simp add: fan_out_requests_def parts_of_def slot_parts_all [OF assms(4) len])
qed

text \<open>C7.  A cluster answers MGET like a single node.  When every slot is served and every node has a
  connection, a MGET over any keys is sent in parts, each to a node of the shard that holds the slot of
  its keys, and however the answers arrive, the reply is the values of all keys in the order they were
  asked for.\<close>

theorem cluster_mget_answers_like_one_node:
  assumes "plain_cmd c" and "simple_args c = name # ks" and "to_ascii_uppercase name = ''MGET''"
    and "\<And>m. mset (hm m) = mset m"
    and "for_routable crc16 hm cmd_routable c = Ret (Some (MultiNode (MultiSlot routes p) policy))"
    and "\<And>n as. serve (n # as) = VArray (map look as)"
    and "config_ok cf" and "routes \<noteq> []" and "co_conns core \<noteq> []" and "set order \<subseteq> {..<length routes}"
    and "\<forall>(r, is) \<in> set routes. srm_get (co_slots core) (route_slot r) \<noteq> None"
    and "\<forall>a \<in> slot_map_nodes (co_slots core). \<exists>conn. Option.bind (map_of (co_conns core) a) connected_or_reconnecting = Some conn"
  shows "\<exists>requests core'.
           fan_out_requests cf c (MultiSlot routes p) core = Ret (requests, core') \<and>
           (\<forall>(a, conn, part) \<in> set requests. \<forall>k \<in> set (tl (simple_args part)). \<exists>addrs.
              srm_get (co_slots core) (slot_num (slot_for_key crc16 k)) = Some addrs \<and> a \<in> set (slot_addrs_iter addrs)) \<and>
           execute_on_multiple_nodes cf hmi (map (\<lambda>(_, _, part). Some (Inr (Single (serve (simple_args part)))))) order
             c (MultiSlot routes p) policy core =
             Ret ((FanOut, Inr (Single (serve (simple_args c)))), core')"
proof -
  obtain subs where subs: "list_all2 (\<lambda>(r, is) sub. command_for_multi_slot_indices cmd_routable c is = Ret sub) routes subs"
    "list_all2 (\<lambda>(r, is) sub. \<forall>k \<in> set (tl (simple_args sub)). slot_num (slot_for_key crc16 k) = route_slot r) routes subs"
    "policy = Some CombineArrays"
    "combine_and_sort_array_results (map (serve \<circ> simple_args) subs) routes p = Ret (Inr (serve (simple_args c)))"
    using split_mget_answers_like_one_node [OF assms(1-6)] by blast
  obtain as conns core' where fan: "fan_out_requests cf c (MultiSlot routes p) core = Ret (zip as (zip conns subs), core')"
    and len: "length as = length subs" "length conns = length subs"
    and shard: "list_all2 (\<lambda>(r, is) a. \<exists>addrs. srm_get (co_slots core) (route_slot r) = Some addrs \<and>
       a \<in> set (slot_addrs_iter addrs)) routes as"
    using fan_out_multi_slot [OF assms(7,11,12) subs(1)] by blast
  let ?requests = "zip as (zip conns subs)"
  let ?vs = "map (serve \<circ> simple_args) subs"
  have routes: "length routes = length subs" by (rule list_all2_lengthD [OF subs(1)])
  have "\<exists>addrs. srm_get (co_slots core) (slot_num (slot_for_key crc16 k)) = Some addrs \<and> a \<in> set (slot_addrs_iter addrs)"
    if req: "(a, conn, part) \<in> set ?requests" and k: "k \<in> set (tl (simple_args part))" for a conn part k
  proof -
    obtain i where "i < length subs" "as ! i = a" "subs ! i = part"
      using req len by (auto simp: in_set_zip)
    then show ?thesis
      using list_all2_nthD2 [OF shard, of i] list_all2_nthD2 [OF subs(2), of i] k len by (auto split: prod.splits)
  qed
  moreover have nodes: "map fst ?requests = as" using len by simp
  have answers: "map (\<lambda>(_, _, part). Some (Inr (Single (serve (simple_args part))))) ?requests =
      map (\<lambda>v. Some (Inr (Single v))) ?vs"
    using len by (intro nth_equalityI) simp_all
  have "subs \<noteq> []" "as \<noteq> []" using assms(8) routes len by auto
  then have "aggregate_results hmi (zip as (map (\<lambda>v. Some (Inr (Single v))) ?vs)) order (MultiSlot routes p) policy =
      Ret (Inr (serve (simple_args c)))"
    using map_runs_convert_singles [of as ?vs] try_join_all_oks [of order ?vs] assms(10) len routes subs(3,4)
    by (simp add: aggregate_results_def aggregate_values_def zip_eq_Nil_iff del: map_map)
  then have "execute_on_multiple_nodes cf hmi (map (\<lambda>(_, _, part). Some (Inr (Single (serve (simple_args part)))))) order
      c (MultiSlot routes p) policy core = Ret ((FanOut, Inr (Single (serve (simple_args c)))), core')"
    using assms(9) by (simp only: execute_on_multiple_nodes_def fan nodes answers run_bind_simps prod.case if_False) simp
  ultimately show ?thesis using fan by blast
qed

theorem cluster_mget_answers_like_one_node_witness:
  "\<exists>requests core'.
     fan_out_requests witness_config (cmd_of_args [''mget'', ''a'', ''b'', ''{a}c''])
       (MultiSlot [(Route 98 ReplicaOptional, [1]), (Route 97 ReplicaOptional, [0, 2])] KeysOnly) witness_core = Ret (requests, core') \<and>
     execute_on_multiple_nodes witness_config id
       (map (\<lambda>(_, _, part). Some (Inr (Single (VArray (map BulkString (tl (simple_args part)))))))) [1, 0]
       (cmd_of_args [''mget'', ''a'', ''b'', ''{a}c''])
       (MultiSlot [(Route 98 ReplicaOptional, [1]), (Route 97 ReplicaOptional, [0, 2])] KeysOnly) (Some CombineArrays) witness_core =
       Ret ((FanOut, Inr (Single (VArray [BulkString ''a'', BulkString ''b'', BulkString ''{a}c'']))), core')"
proof -
  let ?xs = "[''mget'', ''a'', ''b'', ''{a}c'']"
  let ?routes = "[(Route 98 ReplicaOptional, [1]), (Route 97 ReplicaOptional, [0, 2])]"
  have p: "plain_cmd (cmd_of_args ?xs)" "simple_args (cmd_of_args ?xs) = ?xs"
    using plain_cmd_of_args [of ?xs] by auto
  have "for_routable witness_crc16 rev list_routable ?xs =
      Ret (Some (MultiNode (MultiSlot ?routes KeysOnly) (Some CombineArrays)))" by code_simp
  then have r: "for_routable witness_crc16 rev cmd_routable (cmd_of_args ?xs) =
      Ret (Some (MultiNode (MultiSlot ?routes KeysOnly) (Some CombineArrays)))"
    using cmd_request.for_routable_args [OF p(1)] p(2) by simp
  have up: "to_ascii_uppercase ''mget'' = ''MGET''" by code_simp
  have served: "\<forall>(r, is) \<in> set ?routes. srm_get (co_slots witness_core) (route_slot r) \<noteq> None" by code_simp
  have "slot_map_nodes (co_slots witness_core) = {NodeAddress ''a'' 1, NodeAddress ''b'' 2, NodeAddress ''c'' 3}"
    by code_simp
  then have conns: "\<forall>a \<in> slot_map_nodes (co_slots witness_core).
      \<exists>conn. Option.bind (map_of (co_conns witness_core) a) connected_or_reconnecting = Some conn"
    by (simp add: witness_core_def)
  show ?thesis
    using cluster_mget_answers_like_one_node [OF p up _ r _ witness_config_ok _ _ _ served conns,
        of "\<lambda>xs. VArray (map BulkString (tl xs))" BulkString "[1, 0]" id] by (auto simp: p(2) witness_core_def)
qed

section \<open>Errors hidden by the policy that asks for success\<close>

text \<open>C34.  A node that refuses its part of a request on all nodes with an error that needs no action of
  the client, such as a missing permission, answers with an error value, and the policy
  \<^verbatim>\<open>AllSucceeded\<close> returns the answer of the last node: the request succeeds although one node refused.\<close>

theorem all_succeeded_hides_server_error:
  assumes "\<not> requires_action e" and "pr_cmd request = CmdRequest c (ISingleNode route)" and "pr_sender request = External ch"
  shows "choose_response rng (Node n, Inr (Single (VServerError e))) request params =
           Ret (None, FlushNone, [(ch, Inr (Single (VServerError e)))]) \<and>
         aggregate_results hmi [(n, Some (Inr (Single (VServerError e)))), (n', Some (Inr (Single Okay)))] [0, 1]
           AllMasters (Some AllSucceeded) = Ret (Inr Okay)"
proof
  show "choose_response rng (Node n, Inr (Single (VServerError e))) request params =
      Ret (None, FlushNone, [(ch, Inr (Single (VServerError e)))])"
    using assms by (simp add: choose_response_def response_error_def is_error_that_requires_action_def expectation_send_def)
  show "aggregate_results hmi [(n, Some (Inr (Single (VServerError e)))), (n', Some (Inr (Single Okay)))] [0, 1]
      AllMasters (Some AllSucceeded) = Ret (Inr Okay)"
    by (simp add: aggregate_results_def aggregate_values_def convert_result_def try_join_all_def)
qed

theorem all_succeeded_hides_server_error_witness:
  "aggregate_results id [(NodeAddress ''a'' 1, Some (Inr (Single (VServerError (Known NoPerm None))))),
     (NodeAddress ''b'' 2, Some (Inr (Single Okay)))] [0, 1] AllMasters (for_command ''FLUSHALL'') = Ret (Inr Okay)"
proof -
  have "for_command ''FLUSHALL'' = Some AllSucceeded" by code_simp
  moreover have "\<not> requires_action (Known NoPerm None)" by (simp add: requires_action_iff se_kind_def image_iff)
  ultimately show ?thesis
    using all_succeeded_hides_server_error [of "Known NoPerm None"
        "part_request 1 (NodeAddress ''a'' 1, (), cmd ''FLUSHALL'')" "cmd ''FLUSHALL''" "IConnection (NodeAddress ''a'' 1) ()" 1
        "\<lambda>low high. low" "NodeAddress ''a'' 1" retry_params_default id "NodeAddress ''b'' 2"]
    by (simp add: part_request_def)
qed

section \<open>Tracking the subscriptions of a transaction\<close>

lemma update_with_cmd_plain_no_panic: "plain_cmd c \<Longrightarrow> update_with_cmd c t \<noteq> Panic"
  by (simp add: update_with_cmd_def tracker_to_request_plain)

text \<open>C35.  A transaction that the server discards, because a watched key changed, is answered with a
  nil instead of the array of the replies.  On a connection that tracks subscriptions, looking at the
  reply of the second command then is out of range and panics.\<close>

theorem discarded_transaction_panics:
  assumes "is_transaction p" and "commands p = c1 # c2 # cs" and "plain_cmd c1"
  shows "track_pipeline p (Inr [VNil]) (Some t) = Panic"
  using assms update_with_cmd_plain_no_panic [OF assms(3), of t]
  by (cases "update_with_cmd c1 t") (simp_all add: track_pipeline_def)

theorem discarded_transaction_panics_witness:
  "track_pipeline (atomic (pipeline_new\<lparr>commands := map cmd_of_args [[''SET'', ''a'', ''1''], [''SET'', ''a'', ''2'']]\<rparr>))
     (Inr [VNil]) (Some tracker_default) = Panic"
  using discarded_transaction_panics [of "atomic (pipeline_new\<lparr>commands := map cmd_of_args [[''SET'', ''a'', ''1''], [''SET'', ''a'', ''2'']]\<rparr>)"
      "cmd_of_args [''SET'', ''a'', ''1'']" "cmd_of_args [''SET'', ''a'', ''2'']" "[]" tracker_default]
    plain_cmd_of_args [of "[''SET'', ''a'', ''1'']"]
  by (simp add: atomic_def is_transaction_def)

section \<open>Redirections\<close>

lemma redirect_of_text:
  assumes "redirect_node e = Some (node_address_text a, slot)"
    and "na_host a \<noteq> []" and "hd (na_host a) \<noteq> CHR ''[''" and "last (na_host a) \<noteq> CHR '']''"
  shows "redirect_of mk e = Some (mk a)"
  using split_node_address_text [OF assms(2-4), of 0 0 "na_port a"] assms(1)
  by (simp add: redirect_of_def node_address_try_from_def node_address_text_def)

lemma node_address_text_graphic:
  "\<forall>c \<in> set (na_host a). graphic c \<Longrightarrow> node_address_text a \<noteq> [] \<and> (\<forall>c \<in> set (node_address_text a). graphic c)"
  by (auto simp: node_address_text_def graphic_def in_range_def dest!: show_nat_digits is_digit_graphic)

text \<open>C13.  Following a redirection.  When a node answers a command with the line of a MOVED or ASK error,
  and attempts remain, the command is sent again at once: on the connection to the node named in the
  line, for ASK after ASKING on that connection; MOVED also rebuilds the slots.\<close>

theorem redirection_reaches_named_node:
  assumes "combine_ok C" and "k \<in> {Moved, Ask}" and "slot < 2 ^ 16"
    and host: "na_host a \<noteq> []" "hd (na_host a) \<noteq> CHR ''[''" "last (na_host a) \<noteq> CHR '']''"
    and graphic: "\<forall>ch \<in> set (na_host a). graphic ch"
    and params: "retry_params_ok params" "pr_retry request < number_of_retries params"
    and request: "pr_cmd request = CmdRequest c (ISingleNode route)"
    and conn: "map_of (co_conns core) a = Some (Connected conn)"
    and asking: "core_req cf conn (unlimited (cmd ''ASKING'')) core = (Inr Okay, core')"
  shows "\<exists>v request' route'.
    p_reply C (redirect_line k slot (node_address_text a) @ rest) = POk v rest \<and>
    choose_response rng (Node from, Inr (Single v)) request params =
      Ret (Some (Immediately request'), if k = Moved then RebuildSlots else FlushNone, []) \<and>
    pr_sender request' = pr_sender request \<and>
    pr_cmd request' = CmdRequest c (ISingleNode route') \<and>
    get_connection cf route' core = Ret (Inr (a, conn), if k = Moved then core else core')"
proof -
  obtain se where e: "p_reply C (redirect_line k slot (node_address_text a) @ rest) = POk (VServerError se) rest"
      "redirect_node (ServerErr se) = Some (node_address_text a, slot)"
      "retry_method (ServerErr se) = (if k = Moved then MovedRedirect else AskRedirect)"
    using redirect_line_read [OF assms(1-3), of "node_address_text a" rest] node_address_text_graphic [OF graphic]
    by blast
  have action: "response_error (Single (VServerError se)) = Ret (Some (ServerErr se))"
    using e(3) by (simp add: response_error_def is_error_that_requires_action_def requires_action_retry unwrap_err_def)
  have "unat (u32_saturating_add (pr_retry request) 1) \<le> unat (number_of_retries params) + 1"
    using retry_counter_bound [of "pr_retry request"] params(2) by (simp add: word_less_nat_alt)
  then obtain d where d: "wait_time_for_retry rng params (u32_saturating_add (pr_retry request) 1) = Ret d"
    using wait_time_exists [OF params(1) retry_counter_positive] by blast
  let ?mk = "if k = Moved then MovedTo else AskTo"
  let ?route = "IRedirect (?mk a) route"
  let ?request = "request\<lparr>pr_retry := u32_saturating_add (pr_retry request) 1, pr_cmd := CmdRequest c (ISingleNode ?route)\<rparr>"
  have "choose_response rng (Node from, Inr (Single (VServerError se))) request params =
      Ret (Some (Immediately ?request), if k = Moved then RebuildSlots else FlushNone, [])"
    using params(2) redirect_of_text [OF e(2) host, of ?mk]
    by (auto simp: choose_response_def request action choose_retry_def d Let_def e(3) set_redirect_def)
  moreover have "get_connection cf ?route core = Ret (Inr (a, conn), if k = Moved then core else core')"
    using asking conn assms(2) by (auto simp: get_connection_def get_redirected_connection_def)
  ultimately show ?thesis using e(1) by (intro exI [of _ "VServerError se"] exI [of _ ?request] exI [of _ ?route]) simp
qed

lemma retry_params_default_ok: "retry_params_ok retry_params_default"
  by (simp add: retry_params_ok_def retry_params_default_def)

theorem redirection_reaches_named_node_witness:
  "\<exists>v request' route'.
    p_reply std_combine (redirect_line Ask 7 ''b:2'' @ []) = POk v [] \<and>
    choose_response (\<lambda>lo hi. lo) (Node (NodeAddress ''a'' 1), Inr (Single v))
      \<lparr>pr_retry = 0, pr_sender = External 0, pr_cmd = CmdRequest (cmd ''GET'') (ISingleNode IRandom)\<rparr> retry_params_default =
      Ret (Some (Immediately request'), FlushNone, []) \<and>
    pr_cmd request' = CmdRequest (cmd ''GET'') (ISingleNode route') \<and>
    get_connection (witness_config\<lparr>cf_req := \<lambda>_ _ w. (Inr Okay, w)\<rparr>) route' witness_core =
      Ret (Inr (NodeAddress ''b'' 2, 2), witness_core)"
proof -
  let ?cf = "witness_config\<lparr>cf_req := \<lambda>_ _ w. (Inr Okay, w)\<rparr>"
  let ?request = "\<lparr>pr_retry = 0, pr_sender = External 0, pr_cmd = CmdRequest (cmd ''GET'') (ISingleNode IRandom)\<rparr> :: nat PendingRequest"
  let ?b = "NodeAddress ''b'' 2"
  have "\<exists>v request' route'.
    p_reply std_combine (redirect_line Ask 7 (node_address_text ?b) @ []) = POk v [] \<and>
    choose_response (\<lambda>lo hi. lo) (Node (NodeAddress ''a'' 1), Inr (Single v)) ?request retry_params_default =
      Ret (Some (Immediately request'), if Ask = Moved then RebuildSlots else FlushNone, []) \<and>
    pr_sender request' = pr_sender ?request \<and>
    pr_cmd request' = CmdRequest (cmd ''GET'') (ISingleNode route') \<and>
    get_connection ?cf route' witness_core = Ret (Inr (?b, 2), if Ask = Moved then witness_core else witness_core)"
    by (rule redirection_reaches_named_node [OF std_combine_ok _ _ _ _ _ _ retry_params_default_ok])
      (simp_all add: witness_core_def core_req_def graphic_def in_range_def retry_params_default_def)
  moreover have "node_address_text ?b = ''b:2''" by code_simp
  ultimately show ?thesis by (elim exE conjE) (intro exI conjI, simp_all)
qed

section \<open>Answers have the shape their receiver expects\<close>

text \<open>What a receiver does with its answer, by the kind of its request.  The parts of a request on several
  nodes are commands, whose answers \<^verbatim>\<open>aggregate_results\<close> converts.\<close>

definition answer_accepted :: "'c CmdArg \<Rightarrow> Response redis_result \<Rightarrow> bool" where
  "answer_accepted c r = (case c of
     CmdRequest _ _ \<Rightarrow> command_answer (Some r) \<noteq> Panic \<and> convert_result (Some r) \<noteq> Panic
   | PipelineRequest _ _ _ _ \<Rightarrow> pipeline_answer (Some r) \<noteq> Panic
   | ReconnectRequest _ \<Rightarrow> True)"

lemma answer_accepted_error [simp]: "answer_accepted c (Inl e)"
  by (simp add: answer_accepted_def command_answer_def convert_result_def pipeline_answer_def split: CmdArg.splits)

lemma answer_accepted_single [simp]: "answer_accepted (CmdRequest c routing) (map_sum id Single r)"
  by (cases r) (simp_all add: answer_accepted_def command_answer_def convert_result_def keep_server_error_def split: Value.splits)

lemma answer_accepted_multiple [simp]: "answer_accepted (PipelineRequest p offset n route) (map_sum id Multiple r)"
  by (cases r) (simp_all add: answer_accepted_def pipeline_answer_def)

lemma try_cmd_request_single:
  assumes "try_cmd_request cf hmi answers order c routing state = Ret ((target, r), state')"
  shows "answer_accepted (CmdRequest c routing) r"
proof (cases routing)
  case (ISingleNode route)
  obtain tracker core where state: "state = (tracker, core)" by (cases state)
  obtain found core1 where "get_connection cf route core = Ret (found, core1)"
    using assms by (auto simp: try_cmd_request_def ISingleNode state monad_simps)
  then show ?thesis using assms
    by (cases found) (auto simp: try_cmd_request_def ISingleNode state monad_simps split: prod.splits)
qed (use assms in \<open>auto simp: try_cmd_request_def execute_on_multiple_nodes_def monad_simps split: prod.splits if_splits\<close>)

lemma try_pipeline_request_multiple:
  assumes "try_pipeline_request cf rp p offset n route state = Ret ((target, r), state')"
  shows "answer_accepted (PipelineRequest p offset n route) r"
proof -
  obtain tracker core where state: "state = (tracker, core)" by (cases state)
  obtain found core1 where "get_connection cf route core = Ret (found, core1)"
    using assms by (auto simp: try_pipeline_request_def state monad_simps)
  then show ?thesis using assms
    by (cases found) (auto simp: try_pipeline_request_def state monad_simps split: prod.splits)
qed

lemma try_request_accepted:
  assumes "try_request cf hmi answers order rp c state = Ret ((target, r), state')"
  shows "answer_accepted c r"
proof (cases c)
  case (CmdRequest command routing)
  then show ?thesis using assms try_cmd_request_single by (simp add: try_request_def)
next
  case (PipelineRequest p offset n route)
  then show ?thesis using assms try_pipeline_request_multiple by (simp add: try_request_def)
qed (simp add: answer_accepted_def)

lemma choose_retry_sends:
  assumes "choose_retry rng target err request params = Ret (retry, action, sent)" and "(ch, r) \<in> set sent"
  shows "r = Inl err"
  using assms
  by (cases target; cases "retry_method err"; cases "pr_sender request")
    (auto simp: choose_retry_def monad_simps Let_def expectation_send_def split: if_splits)

text \<open>C28.  No receiver of an answer meets an unreachable case: a command is answered with one value, also when
  it was sent to several nodes, and a pipeline with a list, so that neither \<^verbatim>\<open>route_command\<close>,
  \<^verbatim>\<open>route_pipeline\<close> nor the conversion of the parts of a request panics on what they receive.\<close>

theorem answers_fit_the_request:
  assumes "try_request cf hmi answers order rp (pr_cmd request) state = Ret (result, state')"
    and "choose_response rng result request params = Ret (retry, action, sent)"
    and "(ch, r) \<in> set sent"
  shows "answer_accepted (pr_cmd request) r"
proof -
  obtain target outcome where result: "result = (target, outcome)" by (cases result)
  have ok: "answer_accepted (pr_cmd request) outcome"
    using try_request_accepted [of _ _ _ _ _ "pr_cmd request"] assms(1) unfolding result by blast
  have retried: "answer_accepted (pr_cmd request) r"
    if "choose_retry rng target err request params = Ret (retry, action, sent)" for err
    using choose_retry_sends [OF that assms(3)] by simp
  show ?thesis
  proof (cases "\<exists>a. pr_cmd request = ReconnectRequest a")
    case False
    then show ?thesis
      using assms(2,3) ok retried
      by (auto simp: choose_response_def result monad_simps expectation_send_def
          split: CmdArg.splits sum.splits option.splits ResultExpectation.splits)
  qed (auto simp: answer_accepted_def)
qed

theorem answers_fit_the_request_witness:
  "try_request witness_config id (map (\<lambda>_. Some (Inr (Single (VInt 1))))) [0, 1, 2] (\<lambda>_ _ _ _ w. (Inr [], w))
     (CmdRequest (cmd ''DBSIZE'') (IMultiNode AllNodes (Some (Aggregate SumOp)))) (None, witness_core) =
     Ret ((FanOut, Inr (Single (VInt 3))), None, witness_core) \<and>
   answer_accepted (CmdRequest (cmd ''DBSIZE'') (IMultiNode AllNodes (Some (Aggregate SumOp))) :: nat CmdArg) (Inr (Single (VInt 3)))"
proof -
  let ?c = "CmdRequest (cmd ''DBSIZE'') (IMultiNode AllNodes (Some (Aggregate SumOp))) :: nat CmdArg"
  let ?request = "\<lparr>pr_retry = 0, pr_sender = External 5, pr_cmd = ?c\<rparr>"
  have t: "try_request witness_config id (map (\<lambda>_. Some (Inr (Single (VInt 1))))) [0, 1, 2] (\<lambda>_ _ _ _ w. (Inr [], w))
      (pr_cmd ?request) (None, witness_core) = Ret ((FanOut, Inr (Single (VInt 3))), None, witness_core)"
    by code_simp
  have "choose_response (\<lambda>low high. low) (FanOut, Inr (Single (VInt 3))) ?request retry_params_default =
      Ret (None, FlushNone, [(5, Inr (Single (VInt 3)))])"
    by (simp add: choose_response_def response_error_def is_error_that_requires_action_def expectation_send_def)
  from answers_fit_the_request [OF t this] t show ?thesis by simp
qed

end
