(* ===== verification/Client_Cache.thy ===== *)
theory Client_Cache
  imports Pipelines Cluster_Routing Sync_Connection
begin

text \<open>
  Client side caching (\<^verbatim>\<open>caching/\<close>): the sharded LRU cache of replies (\<^verbatim>\<open>sharded_lru.rs\<close>), the
  cache manager that decides which commands of a request are answered from it (\<^verbatim>\<open>cache_manager.rs\<close>)
  and the rewriting of requests and of their replies (\<^verbatim>\<open>cmd.rs\<close>).

  The \<^verbatim>\<open>lru\<close> crate and the hash function of the standard library are parameters: a record
  \<open>cache_prims\<close> with the operations the code uses, of which \<open>cache_prims_ok\<close> states what their
  documentation promises.  The cache is shared between connections, so it is passed along as a state;
  a \<open>CacheManager\<close> is the rest of the struct.  Instants are milliseconds, and the instant at which an
  operation reads the clock is an argument.
\<close>

section \<open>The sharded cache\<close>

record CacheCmdEntry =
  ce_cmd :: bytes
  ce_value :: Value

record CacheItem =
  expire_time :: nat
  it_epoch :: u64
  value_list :: "CacheCmdEntry list"

record 'm cache_prims =
  cp_hash :: "bytes \<Rightarrow> u64"
  cp_new :: "nat \<Rightarrow> 'm"
  cp_get_mut :: "bytes \<Rightarrow> 'm \<Rightarrow> CacheItem option \<times> 'm"
  cp_peek :: "bytes \<Rightarrow> 'm \<Rightarrow> CacheItem option"
  cp_write :: "bytes \<Rightarrow> CacheItem \<Rightarrow> 'm \<Rightarrow> 'm"
  cp_push :: "bytes \<Rightarrow> CacheItem \<Rightarrow> 'm \<Rightarrow> 'm"
  cp_pop :: "bytes \<Rightarrow> 'm \<Rightarrow> CacheItem option \<times> 'm"

text \<open>\<open>cp_write\<close> writes through the reference of \<^verbatim>\<open>peek_mut\<close>.\<close>

record Statistics =
  st_hit :: u64
  st_miss :: u64
  st_invalidate :: u64

record 'm ShardedLRU =
  shards :: "'m list"
  statistics :: Statistics
  last_epoch :: u64

definition MAX_SHARD_COUNT :: nat where
  "MAX_SHARD_COUNT = 32"

definition sharded_lru_new :: "'m cache_prims \<Rightarrow> nat \<Rightarrow> 'm ShardedLRU" where
  "sharded_lru_new E total_key_size =
     (let (shard_count, shard_size) =
            (if MAX_SHARD_COUNT \<le> total_key_size then (MAX_SHARD_COUNT, total_key_size div MAX_SHARD_COUNT)
             else (1, total_key_size))
      in \<lparr>shards = replicate shard_count (cp_new E shard_size),
          statistics = \<lparr>st_hit = 0, st_miss = 0, st_invalidate = 0\<rparr>, last_epoch = 0\<rparr>)"

definition increase_hit :: "nat \<Rightarrow> 'm ShardedLRU \<Rightarrow> 'm ShardedLRU" where
  "increase_hit n lru = lru\<lparr>statistics := (statistics lru)\<lparr>st_hit := st_hit (statistics lru) + of_nat n\<rparr>\<rparr>"

definition increase_miss :: "nat \<Rightarrow> 'm ShardedLRU \<Rightarrow> 'm ShardedLRU" where
  "increase_miss n lru = lru\<lparr>statistics := (statistics lru)\<lparr>st_miss := st_miss (statistics lru) + of_nat n\<rparr>\<rparr>"

definition increase_invalidate :: "nat \<Rightarrow> 'm ShardedLRU \<Rightarrow> 'm ShardedLRU" where
  "increase_invalidate n lru =
     lru\<lparr>statistics := (statistics lru)\<lparr>st_invalidate := st_invalidate (statistics lru) + of_nat n\<rparr>\<rparr>"

text \<open>The index of the shard of a key; the operations below are on this shard.\<close>

definition get_shard :: "'m cache_prims \<Rightarrow> bytes \<Rightarrow> 'm ShardedLRU \<Rightarrow> nat" where
  "get_shard E key lru = unat (cp_hash E key) mod length (shards lru)"

definition set_shard :: "nat \<Rightarrow> 'm \<Rightarrow> 'm ShardedLRU \<Rightarrow> 'm ShardedLRU" where
  "set_shard i shard lru = lru\<lparr>shards := (shards lru)[i := shard]\<rparr>"

definition sharded_get ::
    "'m cache_prims \<Rightarrow> nat \<Rightarrow> bytes \<Rightarrow> bytes \<Rightarrow> u64 \<Rightarrow> 'm ShardedLRU \<Rightarrow> Value option \<times> 'm ShardedLRU" where
  "sharded_get E now redis_key redis_cmd epoch lru =
     (let i = get_shard E redis_key lru;
          (found, shard) = cp_get_mut E redis_key (shards lru ! i);
          lru1 = set_shard i shard lru
      in case found of
           None \<Rightarrow> (None, increase_miss 1 lru1)
         | Some cache_item \<Rightarrow>
             (if it_epoch cache_item \<noteq> epoch \<or> expire_time cache_item < now then
                (None, set_shard i (snd (cp_pop E redis_key shard))
                         (increase_miss 1 (increase_invalidate (length (value_list cache_item)) lru1)))
              else (case List.find (\<lambda>entry. ce_cmd entry = redis_cmd) (value_list cache_item) of
                      Some entry \<Rightarrow> (Some (ce_value entry), increase_hit 1 lru1)
                    | None \<Rightarrow> (None, increase_miss 1 lru1))))"

text \<open>The loop of \<^verbatim>\<open>insert\<close> over the replies kept for a key, and the \<^verbatim>\<open>push\<close> after it.\<close>

fun store_entry :: "bytes \<Rightarrow> Value \<Rightarrow> CacheCmdEntry list \<Rightarrow> CacheCmdEntry list" where
  "store_entry cmd_key v [] = [\<lparr>ce_cmd = cmd_key, ce_value = v\<rparr>]"
| "store_entry cmd_key v (entry # entries) =
     (if ce_cmd entry = cmd_key then entry\<lparr>ce_value := v\<rparr> # entries else entry # store_entry cmd_key v entries)"

definition sharded_insert ::
    "'m cache_prims \<Rightarrow> bytes \<Rightarrow> bytes \<Rightarrow> Value \<Rightarrow> nat \<Rightarrow> u64 \<Rightarrow> 'm ShardedLRU \<Rightarrow> 'm ShardedLRU" where
  "sharded_insert E redis_key cmd_key v expires epoch lru =
     (let i = get_shard E redis_key lru; shard = shards lru ! i;
          fresh = cp_push E redis_key
            \<lparr>expire_time = expires, it_epoch = epoch, value_list = [\<lparr>ce_cmd = cmd_key, ce_value = v\<rparr>]\<rparr> shard
      in set_shard i
           (case cp_peek E redis_key shard of
              Some ch \<Rightarrow>
                (if it_epoch ch = epoch
                 then cp_write E redis_key (ch\<lparr>value_list := store_entry cmd_key v (value_list ch), expire_time := expires\<rparr>) shard
                 else fresh)
            | None \<Rightarrow> fresh) lru)"

definition sharded_invalidate :: "'m cache_prims \<Rightarrow> bytes \<Rightarrow> 'm ShardedLRU \<Rightarrow> 'm ShardedLRU" where
  "sharded_invalidate E cache_key lru =
     (let i = get_shard E cache_key lru; (popped, shard) = cp_pop E cache_key (shards lru ! i);
          lru1 = set_shard i shard lru
      in (case popped of
            Some cache_holder \<Rightarrow> increase_invalidate (length (value_list cache_holder)) lru1
          | None \<Rightarrow> lru1))"

definition increase_epoch :: "'m ShardedLRU \<Rightarrow> u64 \<times> 'm ShardedLRU" where
  "increase_epoch lru = (last_epoch lru, lru\<lparr>last_epoch := last_epoch lru + 1\<rparr>)"

section \<open>The cache manager\<close>

record CacheConfig =
  cc_mode :: CacheMode
  cc_size :: nat
  default_client_ttl :: nat

definition cache_config_new :: CacheConfig where
  "cache_config_new = \<lparr>cc_mode = CacheAll, cc_size = 10000, default_client_ttl = 60 * 30 * 1000\<rparr>"

record CacheManager =
  cm_config :: CacheConfig
  cm_epoch :: u64

definition cache_manager_new :: "'m cache_prims \<Rightarrow> CacheConfig \<Rightarrow> CacheManager \<times> 'm ShardedLRU" where
  "cache_manager_new E config =
     (let (epoch, lru) = increase_epoch (sharded_lru_new E (cc_size config))
      in (\<lparr>cm_config = config, cm_epoch = epoch\<rparr>, lru))"

definition clone_and_increase_epoch :: "CacheManager \<Rightarrow> 'm ShardedLRU \<Rightarrow> CacheManager \<times> 'm ShardedLRU" where
  "clone_and_increase_epoch cm lru =
     (let (epoch, lru1) = increase_epoch lru in (cm\<lparr>cm_epoch := epoch\<rparr>, lru1))"

definition cache_get ::
    "'m cache_prims \<Rightarrow> CacheManager \<Rightarrow> nat \<Rightarrow> bytes \<Rightarrow> bytes \<Rightarrow> 'm ShardedLRU \<Rightarrow> Value option \<times> 'm ShardedLRU" where
  "cache_get E cm now redis_key redis_cmd lru = sharded_get E now redis_key redis_cmd (cm_epoch cm) lru"

definition cache_insert ::
    "'m cache_prims \<Rightarrow> CacheManager \<Rightarrow> nat \<Rightarrow> bytes \<Rightarrow> bytes \<Rightarrow> Value \<Rightarrow> nat \<Rightarrow> Value \<Rightarrow> 'm ShardedLRU \<Rightarrow> 'm ShardedLRU" where
  "cache_insert E cm now redis_key cmd_key v client_side_expire_time server_side_ttl_value lru =
     (let expires = (case fr_ref (from_signed 64) server_side_ttl_value of
                       Inr pttl \<Rightarrow> if 0 < pttl then min (now + nat pttl) client_side_expire_time
                                   else client_side_expire_time
                     | Inl _ \<Rightarrow> client_side_expire_time)
      in sharded_insert E redis_key cmd_key v expires (cm_epoch cm) lru)"

definition handle_push_value :: "'m cache_prims \<Rightarrow> PushKind \<Rightarrow> Value list \<Rightarrow> 'm ShardedLRU \<Rightarrow> 'm ShardedLRU" where
  "handle_push_value E kind data lru =
     (if kind = Invalidate then
        (case data of
           VArray (redis_key # _) # _ \<Rightarrow>
             (case fr_ref (from_vec from_u8) redis_key of
                Inr k \<Rightarrow> sharded_invalidate E k lru
              | Inl _ \<Rightarrow> lru)
         | _ \<Rightarrow> lru)
      else lru)"

section \<open>Requests that can be cached\<close>

record SingleCachedCommand =
  sc_redis_key :: bytes
  sc_cmd_key :: bytes
  sc_cmd :: Cmd
  sc_expire :: nat

record MultipleCachedCommandPart =
  mp_redis_key :: bytes
  mp_cmd_key :: bytes

text \<open>\<open>CachedMultiple\<close> has the name of the command, the keys that are not in the cache with their positions,
  the replies known so far, the instant the new ones expire and the arguments after the keys.\<close>

datatype CacheableCommand =
    CachedSingle SingleCachedCommand
  | CachedMultiple bytes "(nat \<times> MultipleCachedCommandPart) list" "Value list" nat "bytes list"

datatype PrepCacheItem = Cached Value | NotCached CacheableCommand | NotCacheable

datatype CachingResult = CachedItem PrepCacheItem | IgnoredItem

record CacheablePipeline =
  cpl_commands :: "CachingResult list"
  cpl_transaction_mode :: bool

definition is_multi_key :: "bytes \<Rightarrow> (bytes \<times> bytes) option" where
  "is_multi_key command_name =
     (if command_name = ''MGET'' then Some (''MGET'', ''GET'')
      else if command_name = ''JSON.MGET'' then Some (''JSON.MGET'', ''JSON.GET'')
      else None)"

definition calculate_expiration_time :: "CacheManager \<Rightarrow> nat \<Rightarrow> Cmd \<Rightarrow> nat" where
  "calculate_expiration_time cm now c =
     now + (case Option.bind (ccache c) client_side_ttl of
              Some ttl \<Rightarrow> ttl
            | None \<Rightarrow> default_client_ttl (cm_config cm))"

definition prepare_key_buffer :: "bytes \<Rightarrow> bytes \<Rightarrow> bytes option \<Rightarrow> bytes" where
  "prepare_key_buffer single_command_name redis_key json_path_key =
     single_command_name @ redis_key @ (case json_path_key of Some path \<Rightarrow> path | None \<Rightarrow> [])"

definition extract_simple_arguments :: "Cmd \<Rightarrow> bytes list run" where
  "extract_simple_arguments c =
     map_run (\<lambda>args. List.map_filter (\<lambda>arg. case arg of Simple a \<Rightarrow> Some a | Cursor \<Rightarrow> None) (tl args)) (args_iter c)"

text \<open>The loop of \<^verbatim>\<open>process_multi_key_arguments\<close>; \<open>clock i\<close> is the instant the \<open>i\<close>-th key is looked up.\<close>

fun lookup_keys ::
    "'m cache_prims \<Rightarrow> CacheManager \<Rightarrow> (nat \<Rightarrow> nat) \<Rightarrow> bytes \<Rightarrow> bytes option \<Rightarrow> nat \<Rightarrow> bytes list \<Rightarrow> 'm ShardedLRU \<Rightarrow>
     (nat \<times> MultipleCachedCommandPart) list \<times> Value list \<times> 'm ShardedLRU" where
  "lookup_keys E cm clock single_command_name json_path_key i [] lru = ([], [], lru)"
| "lookup_keys E cm clock single_command_name json_path_key i (redis_key # keys) lru =
     (let buffer = prepare_key_buffer single_command_name redis_key json_path_key;
          (found, lru1) = cache_get E cm (clock i) redis_key buffer lru;
          (missing, response, lru2) = lookup_keys E cm clock single_command_name json_path_key (i + 1) keys lru1
      in (case found of
            Some v \<Rightarrow> (missing, v # response, lru2)
          | None \<Rightarrow> ((i, \<lparr>mp_redis_key = redis_key, mp_cmd_key = buffer\<rparr>) # missing, VNil # response, lru2)))"

definition process_multi_key_arguments ::
    "'m cache_prims \<Rightarrow> CacheManager \<Rightarrow> (nat \<Rightarrow> nat) \<Rightarrow> Cmd \<Rightarrow> bool \<Rightarrow> bytes \<Rightarrow> 'm ShardedLRU \<Rightarrow>
     ((nat \<times> MultipleCachedCommandPart) list \<times> Value list \<times> bytes list \<times> 'm ShardedLRU) run" where
  "process_multi_key_arguments E cm clock c is_json_command single_command_name lru =
     map_run (\<lambda>arguments.
       let (keys, tail_args) =
             (if is_json_command \<and> arguments \<noteq> [] then (butlast arguments, [last arguments]) else (arguments, []));
           json_path_key = (case tail_args of [] \<Rightarrow> None | k # _ \<Rightarrow> Some k);
           (missing, response, lru1) = lookup_keys E cm clock single_command_name json_path_key 0 keys lru
       in (missing, response, tail_args, lru1)) (extract_simple_arguments c)"

definition handle_multi_key_command ::
    "'m cache_prims \<Rightarrow> CacheManager \<Rightarrow> (nat \<Rightarrow> nat) \<Rightarrow> Cmd \<Rightarrow> bytes \<Rightarrow> bytes \<Rightarrow> nat \<Rightarrow> 'm ShardedLRU \<Rightarrow>
     (PrepCacheItem \<times> 'm ShardedLRU) run" where
  "handle_multi_key_command E cm clock c command_name_str single_command_name client_side_expire lru =
     map_run (\<lambda>(missing, response, tail_args, lru1).
       (if missing = [] then Cached (VArray response)
        else NotCached (CachedMultiple command_name_str missing response client_side_expire tail_args), lru1))
       (process_multi_key_arguments E cm clock c (prefix ''JSON'' command_name_str) single_command_name lru)"

definition handle_single_key_command ::
    "'m cache_prims \<Rightarrow> CacheManager \<Rightarrow> nat \<Rightarrow> Cmd \<Rightarrow> nat \<Rightarrow> 'm ShardedLRU \<Rightarrow> (PrepCacheItem \<times> 'm ShardedLRU) run" where
  "handle_single_key_command E cm now c client_side_expire lru =
     map_run (\<lambda>key. case key of
         None \<Rightarrow> (NotCacheable, lru)
       | Some redis_key \<Rightarrow>
           (let (found, lru1) = cache_get E cm now redis_key (cdata c) lru
            in (case found of
                  Some v \<Rightarrow> (Cached v, lru1)
                | None \<Rightarrow> (NotCached (CachedSingle \<lparr>sc_redis_key = redis_key, sc_cmd_key = cdata c, sc_cmd = c,
                                                  sc_expire = client_side_expire\<rparr>), lru1))))
       (arg_idx c 1)"

text \<open>\<open>clock 0\<close> is the instant at the start of the operation, the later ones are those of the lookups.\<close>

definition get_cached_cmd_inner ::
    "'m cache_prims \<Rightarrow> CacheManager \<Rightarrow> (nat \<Rightarrow> nat) \<Rightarrow> Cmd \<Rightarrow> 'm ShardedLRU \<Rightarrow> (PrepCacheItem \<times> 'm ShardedLRU) run" where
  "get_cached_cmd_inner E cm clock c lru =
     run_bind (cmd_len c) (\<lambda>len.
     if len < 2 then Ret (NotCacheable, lru)
     else run_bind (arg_idx c 0) (\<lambda>name. case name of
            None \<Rightarrow> Ret (NotCacheable, lru)
          | Some command_name \<Rightarrow>
              (let client_side_expire = calculate_expiration_time cm (clock 0) c
               in (case is_multi_key command_name of
                     Some (command_name_str, single_command_name) \<Rightarrow>
                       handle_multi_key_command E cm (clock \<circ> Suc) c command_name_str single_command_name client_side_expire lru
                   | None \<Rightarrow>
                       (if is_cachable_cmd command_name
                        then handle_single_key_command E cm (clock 1) c client_side_expire lru
                        else Ret (NotCacheable, lru))))))"

definition get_cached_cmd ::
    "'m cache_prims \<Rightarrow> CacheManager \<Rightarrow> (nat \<Rightarrow> nat) \<Rightarrow> Cmd \<Rightarrow> 'm ShardedLRU \<Rightarrow> (PrepCacheItem \<times> 'm ShardedLRU) run" where
  "get_cached_cmd E cm clock c lru = (case cc_mode (cm_config cm) of
     CacheAll \<Rightarrow> get_cached_cmd_inner E cm clock c lru
   | OptIn \<Rightarrow>
       (if (case ccache c of Some config \<Rightarrow> enable_cache config | None \<Rightarrow> False)
        then get_cached_cmd_inner E cm clock c lru
        else Ret (NotCacheable, lru)))"

section \<open>Packing and resolving\<close>

definition caching_yes :: Cmd where
  "caching_yes = cmd_write_arg (cmd_write_arg (cmd_write_arg cmd_new ''CLIENT'') ''CACHING'') ''YES''"

definition pttl :: "bytes \<Rightarrow> Cmd" where
  "pttl key = cmd_write_arg (cmd ''PTTL'') key"

definition pack_cacheable :: "CacheManager \<Rightarrow> CacheableCommand \<Rightarrow> Pipeline \<Rightarrow> Pipeline" where
  "pack_cacheable cm cc p =
     (let p1 = (if cc_mode (cm_config cm) = OptIn then add_command p caching_yes else p)
      in (case cc of
            CachedSingle scc \<Rightarrow> add_command (add_command p1 (pttl (sc_redis_key scc))) (sc_cmd scc)
          | CachedMultiple command_name missing _ _ tail_args \<Rightarrow>
              (let keys = map (mp_redis_key \<circ> snd) missing;
                   c = foldl cmd_write_arg (foldl cmd_write_arg (cmd_write_arg cmd_new command_name) keys) tail_args
               in foldl (\<lambda>q key. add_command q (pttl key)) (add_command p1 c) keys)))"

definition get_next_reply :: "Value list \<Rightarrow> (Value \<times> Value list) redis_result" where
  "get_next_reply replies = (case replies of
     reply # rest \<Rightarrow> Inr (reply, rest)
   | [] \<Rightarrow> Inl (error_of UnexpectedReturnType ''Expected Value from server''))"

definition is_server_error :: "Value \<Rightarrow> bool" where
  "is_server_error v = (case v of VServerError _ \<Rightarrow> True | _ \<Rightarrow> False)"

text \<open>The loop over \<^verbatim>\<open>zip(zip(mget_values, replies), missing)\<close>: a value, then a reply, then a command are
  taken, and the first that is missing ends the loop.  \<open>now i\<close> is the instant of the \<open>i\<close>-th insertion.\<close>

fun resolve_parts ::
    "'m cache_prims \<Rightarrow> CacheManager \<Rightarrow> (nat \<Rightarrow> nat) \<Rightarrow> nat \<Rightarrow> Value list \<Rightarrow> Value list \<Rightarrow> (nat \<times> MultipleCachedCommandPart) list \<Rightarrow>
     Value list \<Rightarrow> 'm ShardedLRU \<Rightarrow> (Value list \<times> Value list \<times> 'm ShardedLRU) run" where
  "resolve_parts E cm now expires (key_value # values) (pttl_value # replies) ((key_index, part) # missing) cached_response lru =
     (let lru1 = (if is_server_error key_value then lru
                  else cache_insert E cm (now (length values)) (mp_redis_key part) (mp_cmd_key part) key_value expires pttl_value lru)
      in if key_index < length cached_response
         then resolve_parts E cm now expires values replies missing (cached_response[key_index := key_value]) lru1
         else Panic)"
| "resolve_parts E cm now expires (key_value # values) (pttl_value # replies) [] cached_response lru =
     Ret (cached_response, replies, lru)"
| "resolve_parts E cm now expires values replies missing cached_response lru = Ret (cached_response, replies, lru)"

definition resolve_replies ::
    "'m cache_prims \<Rightarrow> CacheManager \<Rightarrow> (nat \<Rightarrow> nat) \<Rightarrow> CacheableCommand \<Rightarrow> Value list \<Rightarrow> 'm ShardedLRU \<Rightarrow>
     (Value redis_result \<times> Value list \<times> 'm ShardedLRU) run" where
  "resolve_replies E cm now cc replies lru = (case cc of
     CachedSingle cached_command \<Rightarrow>
       (case replies of
          pttl_value # reply # rest \<Rightarrow>
            Ret (Inr reply, rest,
                 if is_server_error reply then lru
                 else cache_insert E cm (now 0) (sc_redis_key cached_command) (sc_cmd_key cached_command) reply
                        (sc_expire cached_command) pttl_value lru)
        | _ \<Rightarrow> Ret (Inl (error_of UnexpectedReturnType ''Expected two Value from server''), [], lru))
   | CachedMultiple _ missing cached_response client_side_expire _ \<Rightarrow>
       (case replies of
          VArray mget_values # rest \<Rightarrow>
            map_run (\<lambda>(response, rest', lru1). (Inr (VArray response), rest', lru1))
              (resolve_parts E cm now client_side_expire mget_values rest missing cached_response lru)
        | _ \<Rightarrow> Ret (Inl (error_of UnexpectedReturnType ''Expected Value::Array from server''), tl replies, lru)))"

text \<open>In opt-in mode the reply of CLIENT CACHING YES comes first.\<close>

definition resolve_cacheable ::
    "'m cache_prims \<Rightarrow> CacheManager \<Rightarrow> (nat \<Rightarrow> nat) \<Rightarrow> CacheableCommand \<Rightarrow> Value list \<Rightarrow> 'm ShardedLRU \<Rightarrow>
     (Value redis_result \<times> Value list \<times> 'm ShardedLRU) run" where
  "resolve_cacheable E cm now cc replies lru =
     (if cc_mode (cm_config cm) = OptIn then
        (case get_next_reply replies of
           Inl e \<Rightarrow> Ret (Inl e, [], lru)
         | Inr (_, rest) \<Rightarrow> resolve_replies E cm now cc rest lru)
      else resolve_replies E cm now cc replies lru)"

section \<open>Pipelines\<close>

text \<open>The loop of \<^verbatim>\<open>get_cached_pipeline\<close>; \<open>clocks idx\<close> gives the instants of the command at \<open>idx\<close>.\<close>

fun cache_commands ::
    "'m cache_prims \<Rightarrow> CacheManager \<Rightarrow> (nat \<Rightarrow> nat \<Rightarrow> nat) \<Rightarrow> nat set \<Rightarrow> nat \<Rightarrow> Cmd list \<Rightarrow> Pipeline \<Rightarrow> 'm ShardedLRU \<Rightarrow>
     (CachingResult list \<times> Pipeline \<times> 'm ShardedLRU) run" where
  "cache_commands E cm clocks ignored idx [] packed lru = Ret ([], packed, lru)"
| "cache_commands E cm clocks ignored idx (c # cs) packed lru =
     (if idx \<in> ignored
      then map_run (\<lambda>(items, packed', lru'). (IgnoredItem # items, packed', lru'))
             (cache_commands E cm clocks ignored (idx + 1) cs (add_command packed c) lru)
      else run_bind (get_cached_cmd E cm (clocks idx) c lru) (\<lambda>(cacheable_command, lru1).
             let packed1 = (case cacheable_command of
                              Cached _ \<Rightarrow> packed
                            | NotCached cc \<Rightarrow> pack_cacheable cm cc packed
                            | NotCacheable \<Rightarrow> add_command packed c)
             in map_run (\<lambda>(items, packed', lru'). (CachedItem cacheable_command # items, packed', lru'))
                  (cache_commands E cm clocks ignored (idx + 1) cs packed1 lru1)))"

definition get_cached_pipeline ::
    "'m cache_prims \<Rightarrow> CacheManager \<Rightarrow> (nat \<Rightarrow> nat \<Rightarrow> nat) \<Rightarrow> Pipeline \<Rightarrow> 'm ShardedLRU \<Rightarrow>
     (CacheablePipeline \<times> Pipeline \<times> (nat \<times> nat) \<times> 'm ShardedLRU) run" where
  "get_cached_pipeline E cm clocks requested lru =
     map_run (\<lambda>(items, packed, lru1).
       let tx = transaction_mode requested;
           n = length (commands packed)
       in (\<lparr>cpl_commands = items, cpl_transaction_mode = tx\<rparr>, if tx then atomic packed else packed,
           if tx then (n + 1, 1) else (0, n), lru1))
       (cache_commands E cm clocks (ignored_commands requested) 0 (commands requested) pipeline_new lru)"

text \<open>One pass of the loop of \<^verbatim>\<open>CacheablePipeline::resolve\<close>.\<close>

definition resolve_item ::
    "'m cache_prims \<Rightarrow> CacheManager \<Rightarrow> (nat \<Rightarrow> nat) \<Rightarrow> CachingResult \<Rightarrow> Value list \<Rightarrow> 'm ShardedLRU \<Rightarrow>
     (Value redis_result \<times> Value list \<times> 'm ShardedLRU) run" where
  "resolve_item E cm now item replies lru = (case item of
     CachedItem (Cached reply) \<Rightarrow> Ret (Inr reply, replies, lru)
   | CachedItem (NotCached cacheable_command) \<Rightarrow> resolve_cacheable E cm now cacheable_command replies lru
   | _ \<Rightarrow> Ret (case get_next_reply replies of
                 Inl e \<Rightarrow> (Inl e, [], lru)
               | Inr (reply, rest) \<Rightarrow> (Inr reply, rest, lru)))"

fun resolve_items ::
    "'m cache_prims \<Rightarrow> CacheManager \<Rightarrow> (nat \<Rightarrow> nat) \<Rightarrow> CachingResult list \<Rightarrow> Value list \<Rightarrow> 'm ShardedLRU \<Rightarrow>
     (Value list redis_result \<times> 'm ShardedLRU) run" where
  "resolve_items E cm now [] replies lru = Ret (Inr [], lru)"
| "resolve_items E cm now (item # items) replies lru =
     run_bind (resolve_item E cm now item replies lru) (\<lambda>(r, rest, lru1). case r of
          Inl e \<Rightarrow> Ret (Inl e, lru1)
        | Inr reply \<Rightarrow>
            map_run (\<lambda>(rs, lru2). (map_sum id (\<lambda>xs. reply # xs) rs, lru2)) (resolve_items E cm now items rest lru1))"

definition from_one_tuple :: "'a from_redis \<Rightarrow> 'a from_redis" where
  "from_one_tuple d = from_tuple 1 (\<lambda>vs. fr_ref d (hd vs)) (\<lambda>vs. fr_own d (hd vs))"

definition resolve_pipeline ::
    "'m cache_prims \<Rightarrow> CacheManager \<Rightarrow> (nat \<Rightarrow> nat) \<Rightarrow> CacheablePipeline \<Rightarrow> Value \<Rightarrow> 'm ShardedLRU \<Rightarrow>
     (Value list redis_result \<times> 'm ShardedLRU) run" where
  "resolve_pipeline E cm now cp result lru =
     (case (if cpl_transaction_mode cp then from_redis_value (from_one_tuple (from_vec from_value)) result
            else from_redis_value (from_vec from_value) result) of
        Inl e \<Rightarrow> Ret (Inl e, lru)
      | Inr replies \<Rightarrow>
          map_run (\<lambda>(rs, lru1).
            (map_sum id (\<lambda>response. if cpl_transaction_mode cp then [VArray response] else response) rs, lru1))
            (resolve_items E cm now (cpl_commands cp) replies lru))"

end
