(* ===== verification/Multiplexed_Connection.thy ===== *)
theory Multiplexed_Connection
  imports Client_Cache
begin

text \<open>
  The connection that is shared by concurrent requests (\<^verbatim>\<open>aio/multiplexed_connection.rs\<close>).  Requests are sent
  in the order they arrive and wait in a queue; replies are handed to the request at the head of the
  queue, which collects as many as it expects.  The sink is modelled with what it has done so far: the
  bytes handed to the socket, the answers sent to the channels of the requests, the push messages
  handed to the push sender.  A channel is a number; the socket and the codec around it
  are the environment, whose results are arguments of the operations.
\<close>

section \<open>The sink\<close>

datatype ErrorOrErrors = Errors "(nat \<times> ServerError) list" | FirstError RedisError

record PipelineResponseExpectation =
  skipped_response_count :: nat
  expected_response_count :: nat
  pe_is_transaction :: bool
  seen_responses :: nat

datatype ResponseAggregate =
    SingleCommand
  | PipelineResponse "Value list" ErrorOrErrors PipelineResponseExpectation

definition response_aggregate_new :: "PipelineResponseExpectation option \<Rightarrow> ResponseAggregate" where
  "response_aggregate_new expectation = (case expectation of
     Some e \<Rightarrow> PipelineResponse [] (Errors []) e
   | None \<Rightarrow> SingleCommand)"

record InFlight =
  if_output :: "nat option"
  if_aggregate :: ResponseAggregate

record PipelineMessage =
  pm_input :: bytes
  pm_output :: "nat option"
  pm_expectation :: "PipelineResponseExpectation option"

record 'm PipelineSink =
  ps_in_flight :: "InFlight list"
  ps_error :: "RedisError option"
  ps_push_sender :: bool
  ps_cache :: "'m ShardedLRU option"
  ps_pushed :: "PushInfo list"
  ps_outputs :: "(nat \<times> Value redis_result) list"
  ps_written :: "bytes list"

definition pipeline_sink_new :: "bool \<Rightarrow> 'm ShardedLRU option \<Rightarrow> 'm PipelineSink" where
  "pipeline_sink_new push_sender cache =
     \<lparr>ps_in_flight = [], ps_error = None, ps_push_sender = push_sender, ps_cache = cache,
      ps_pushed = [], ps_outputs = [], ps_written = []\<rparr>"

definition sink_send_push :: "PushInfo \<Rightarrow> 'm PipelineSink \<Rightarrow> 'm PipelineSink" where
  "sink_send_push info s = (if ps_push_sender s then s\<lparr>ps_pushed := ps_pushed s @ [info]\<rparr> else s)"

definition sink_send_disconnect :: "'m PipelineSink \<Rightarrow> 'm PipelineSink" where
  "sink_send_disconnect s = (sink_send_push push_info_disconnect s)\<lparr>ps_push_sender := False\<rparr>"

definition send_output :: "nat option \<Rightarrow> Value redis_result \<Rightarrow> 'm PipelineSink \<Rightarrow> 'm PipelineSink" where
  "send_output out result s = (case out of Some ch \<Rightarrow> s\<lparr>ps_outputs := ps_outputs s @ [(ch, result)]\<rparr> | None \<Rightarrow> s)"

text \<open>A response for a pipeline: the aggregate goes on collecting (\<open>Inl\<close>), or the answer is complete (\<open>Inr\<close>).
  \<open>seen_responses - 2\<close> underflows at the first response.\<close>

definition collect_response ::
    "Value redis_result \<Rightarrow> Value list \<Rightarrow> ErrorOrErrors \<Rightarrow> PipelineResponseExpectation \<Rightarrow>
     (ResponseAggregate + Value redis_result) run" where
  "collect_response result buffer error_or_errors e =
     (let e1 = e\<lparr>seen_responses := seen_responses e + 1\<rparr>
      in if 0 < skipped_response_count e then
           map_run (\<lambda>errs. Inl (PipelineResponse buffer errs (e1\<lparr>skipped_response_count := skipped_response_count e - 1\<rparr>)))
             (case (pe_is_transaction e, error_or_errors, result) of
                (True, Errors errs, Inr (VServerError err)) \<Rightarrow>
                  (if seen_responses e1 < 2 then Panic else Ret (Errors (errs @ [(seen_responses e1 - 2, err)])))
              | (True, Errors errs, Inl err) \<Rightarrow> Ret (FirstError err)
              | _ \<Rightarrow> Ret error_or_errors)
         else
           (let buffer1 = (case result of Inr item \<Rightarrow> buffer @ [item] | Inl _ \<Rightarrow> buffer);
                errs = (case (result, error_or_errors) of (Inl err, Errors _) \<Rightarrow> FirstError err | _ \<Rightarrow> error_or_errors)
            in Ret (if length buffer1 < expected_response_count e then Inl (PipelineResponse buffer1 errs e1)
                    else Inr (case errs of
                                Errors [] \<Rightarrow> Inr (VArray buffer1)
                              | Errors errors \<Rightarrow> Inl (TransactionAborted errors)
                              | FirstError redis_error \<Rightarrow> Inl redis_error))))"

text \<open>The part of \<^verbatim>\<open>send_result\<close> that hands the response to the first request in flight.\<close>

definition deliver :: "Value redis_result \<Rightarrow> 'm PipelineSink \<Rightarrow> 'm PipelineSink run" where
  "deliver result s = (case ps_in_flight s of
     [] \<Rightarrow> Ret s
   | entry # rest \<Rightarrow>
       (case if_aggregate entry of
          SingleCommand \<Rightarrow> Ret (send_output (if_output entry) result (s\<lparr>ps_in_flight := rest\<rparr>))
        | PipelineResponse buffer error_or_errors e \<Rightarrow>
            map_run (\<lambda>r. case r of
                Inl aggregate \<Rightarrow> s\<lparr>ps_in_flight := entry\<lparr>if_aggregate := aggregate\<rparr> # rest\<rparr>
              | Inr response \<Rightarrow> send_output (if_output entry) response (s\<lparr>ps_in_flight := rest\<rparr>))
              (collect_response result buffer error_or_errors e)))"

definition send_result :: "'m cache_prims \<Rightarrow> Value redis_result \<Rightarrow> 'm PipelineSink \<Rightarrow> 'm PipelineSink run" where
  "send_result E result s = (case result of
     Inr (VPush kind data) \<Rightarrow>
       (if has_reply kind then deliver result (sink_send_push (kind, data) s)
        else Ret (sink_send_push (kind, data)
                    (s\<lparr>ps_cache := map_option (handle_push_value E kind data) (ps_cache s)\<rparr>)))
   | _ \<Rightarrow> deliver result s)"

definition send_disconnect_if_needed :: "RedisError \<Rightarrow> 'm PipelineSink \<Rightarrow> 'm PipelineSink" where
  "send_disconnect_if_needed err s = (if is_unrecoverable_error err then sink_send_disconnect s else s)"

datatype 'a poll = Pending | Ready 'a

text \<open>\<open>items\<close> is what the stream yields before it is pending; \<open>None\<close> is its end.  The result says whether
  reading failed.\<close>

fun sink_poll_read ::
    "'m cache_prims \<Rightarrow> Value redis_result option list \<Rightarrow> 'm PipelineSink \<Rightarrow> (bool \<times> 'm PipelineSink) run" where
  "sink_poll_read E [] s = Ret (False, s)"
| "sink_poll_read E (next_item # items) s =
     (let item = (case next_item of Some result \<Rightarrow> result | None \<Rightarrow> Inl closed_connection_error);
          is_unrecoverable = (case item of Inl err \<Rightarrow> is_unrecoverable_error err | Inr _ \<Rightarrow> False)
      in run_bind (send_result E item s) (\<lambda>s1.
           if is_unrecoverable then Ret (True, sink_send_disconnect s1) else sink_poll_read E items s1))"

definition sink_poll_ready ::
    "'m cache_prims \<Rightarrow> Value redis_result option list \<Rightarrow> unit redis_result poll \<Rightarrow> 'm PipelineSink \<Rightarrow>
     ((unit + unit) poll \<times> 'm PipelineSink) run" where
  "sink_poll_ready E items stream_ready s =
     run_bind (sink_poll_read E items s) (\<lambda>(failed, s1).
       Ret (if failed then (Ready (Inl ()), s1)
            else (case stream_ready of
                    Pending \<Rightarrow> (Pending, s1)
                  | Ready (Inr _) \<Rightarrow> (Ready (Inr ()), s1)
                  | Ready (Inl err) \<Rightarrow> (Ready (Inr ()), (send_disconnect_if_needed err s1)\<lparr>ps_error := Some err\<rparr>))))"

text \<open>\<open>closed\<close> are the channels whose receiver is gone, \<open>stream_sent\<close> is the result of handing the bytes to the stream.\<close>

definition sink_start_send ::
    "nat set \<Rightarrow> unit redis_result \<Rightarrow> PipelineMessage \<Rightarrow> 'm PipelineSink \<Rightarrow> (unit + unit) \<times> 'm PipelineSink" where
  "sink_start_send closed stream_sent msg s =
     (if (case pm_output msg of Some ch \<Rightarrow> ch \<in> closed | None \<Rightarrow> False) then (Inr (), s)
      else (case ps_error s of
              Some err \<Rightarrow> (Inl (), send_output (pm_output msg) (Inl err) (s\<lparr>ps_error := None\<rparr>))
            | None \<Rightarrow>
                (case stream_sent of
                   Inr _ \<Rightarrow>
                     (Inr (), s\<lparr>ps_written := ps_written s @ [pm_input msg],
                               ps_in_flight := ps_in_flight s @
                                 [\<lparr>if_output = pm_output msg, if_aggregate = response_aggregate_new (pm_expectation msg)\<rparr>]\<rparr>)
                 | Inl err \<Rightarrow> (Inl (), send_output (pm_output msg) (Inl err) s))))"

definition sink_poll_flush ::
    "'m cache_prims \<Rightarrow> Value redis_result option list \<Rightarrow> unit redis_result poll \<Rightarrow> 'm PipelineSink \<Rightarrow>
     ((unit + unit) poll \<times> 'm PipelineSink) run" where
  "sink_poll_flush E items stream_flushed s =
     run_bind (sink_poll_read E items s) (\<lambda>(failed, s1).
       if failed then Ret (Ready (Inl ()), s1)
       else (case stream_flushed of
               Pending \<Rightarrow> Ret (Pending, s1)
             | Ready (Inr _) \<Rightarrow> Ret (Ready (Inr ()), s1)
             | Ready (Inl err) \<Rightarrow>
                 map_run (Pair (Ready (Inl ()))) (send_result E (Inl err) (send_disconnect_if_needed err s1))))"

definition sink_poll_close ::
    "'m cache_prims \<Rightarrow> Value redis_result option list \<Rightarrow> unit redis_result poll \<Rightarrow> unit redis_result poll \<Rightarrow> 'm PipelineSink \<Rightarrow>
     ((unit + unit) poll \<times> 'm PipelineSink) run" where
  "sink_poll_close E items stream_flushed stream_closed s =
     run_bind (if ps_in_flight s = [] then Ret (Ready (Inr ()), s) else sink_poll_flush E items stream_flushed s)
       (\<lambda>(flushed, s1). case flushed of
          Ready (Inr _) \<Rightarrow>
            (case stream_closed of
               Pending \<Rightarrow> Ret (Pending, s1)
             | Ready (Inr _) \<Rightarrow> Ret (Ready (Inr ()), s1)
             | Ready (Inl err) \<Rightarrow> map_run (Pair (Ready (Inl ()))) (send_result E (Inl err) s1))
        | _ \<Rightarrow> Ret (flushed, s1))"

section \<open>Requests\<close>

definition DEFAULT_BUFFER_SIZE :: nat where
  "DEFAULT_BUFFER_SIZE = 50"

definition resolve_buffer_size :: "nat option \<Rightarrow> nat" where
  "resolve_buffer_size size' = (case size' of Some n \<Rightarrow> n | None \<Rightarrow> DEFAULT_BUFFER_SIZE)"

text \<open>What a request becomes: not sent, the channel of messages was closed, the message was sent and its channel
  was dropped (\<open>None\<close>) or carried an answer, or the time for the answer was over.\<close>

datatype recv = ChannelClosed | Received "Value redis_result option" | Elapsed

definition send_recv :: "(PipelineMessage \<Rightarrow> recv) \<Rightarrow> nat \<Rightarrow> bytes \<Rightarrow> PipelineResponseExpectation option \<Rightarrow> bool \<Rightarrow> Value redis_result" where
  "send_recv driver ch input expectation skip_response =
     (if input = [] then Inl make_empty_command
      else (case driver \<lparr>pm_input = input, pm_output = (if skip_response then None else Some ch), pm_expectation = expectation\<rparr> of
              ChannelClosed \<Rightarrow> Inl closed_connection_error
            | Elapsed \<Rightarrow> Inl (io_error TimedOut)
            | Received answer \<Rightarrow>
                (if skip_response then Inr VNil
                 else (case answer of Some r \<Rightarrow> r | None \<Rightarrow> Inl closed_connection_error))))"

definition permit_vec_capacity :: "nat \<Rightarrow> nat \<Rightarrow> nat" where
  "permit_vec_capacity n limit = max (min n limit) 1"

definition build_concurrency_limiter :: "nat option \<Rightarrow> nat option redis_result" where
  "build_concurrency_limiter limit = (case limit of
     Some n \<Rightarrow> if n = 0 then Inl (error_of InvalidClientConfig ''concurrency limit must be greater than 0'') else Inr (Some n)
   | None \<Rightarrow> Inr None)"

text \<open>The permits a pipeline holds when \<open>available\<close> more can be had at once after the one it waited for.\<close>

definition permits_taken :: "nat \<Rightarrow> nat \<Rightarrow> nat \<Rightarrow> nat" where
  "permits_taken n limit available = 1 + min (permit_vec_capacity n limit - 1) available"

text \<open>\<open>cm\<close> is the manager of the cache, when there is one, with the cache.\<close>

definition send_packed_command ::
    "(int \<Rightarrow> bytes) \<Rightarrow> 'm cache_prims \<Rightarrow> (CacheManager \<times> 'm ShardedLRU) option \<Rightarrow> (nat \<Rightarrow> nat) \<Rightarrow> (nat \<Rightarrow> nat) \<Rightarrow>
     (PipelineMessage \<Rightarrow> recv) \<Rightarrow> nat \<Rightarrow> Cmd \<Rightarrow> (Value redis_result \<times> 'm ShardedLRU option) run" where
  "send_packed_command itoa E cache clock now driver ch c =
     (let plain = (\<lambda>lru. map_run (\<lambda>packed. (send_recv driver ch packed None (is_no_response c), lru)) (get_packed_command itoa c))
      in case cache of
           None \<Rightarrow> plain None
         | Some (cm, lru) \<Rightarrow>
             run_bind (get_cached_cmd E cm clock c lru) (\<lambda>(item, lru1). case item of
                 Cached v \<Rightarrow> Ret (Inr v, Some lru1)
               | NotCacheable \<Rightarrow> plain (Some lru1)
               | NotCached cc \<Rightarrow>
                   (let p = pack_cacheable cm cc pipeline_new
                    in run_bind (get_packed_pipeline itoa p) (\<lambda>packed.
                       case res_bind (send_recv driver ch packed
                              (Some \<lparr>skipped_response_count = 0, expected_response_count = length (commands p),
                                     pe_is_transaction = False, seen_responses = 0\<rparr>) (is_no_response c))
                              (from_redis_value (from_vec from_value)) of
                         Inl e \<Rightarrow> Ret (Inl e, Some lru1)
                       | Inr replies \<Rightarrow>
                           map_run (\<lambda>(r, _, lru2). (r, Some lru2)) (resolve_cacheable E cm now cc replies lru1)))))"

definition send_packed_commands ::
    "(int \<Rightarrow> bytes) \<Rightarrow> 'm cache_prims \<Rightarrow> (CacheManager \<times> 'm ShardedLRU) option \<Rightarrow> (nat \<Rightarrow> nat \<Rightarrow> nat) \<Rightarrow> (nat \<Rightarrow> nat) \<Rightarrow>
     (PipelineMessage \<Rightarrow> recv) \<Rightarrow> nat \<Rightarrow> Pipeline \<Rightarrow> nat \<Rightarrow> nat \<Rightarrow> (Value list redis_result \<times> 'm ShardedLRU option) run" where
  "send_packed_commands itoa E cache clocks now driver ch p offset n = (case cache of
     None \<Rightarrow>
       map_run (\<lambda>packed.
         (res_bind (send_recv driver ch packed
             (Some \<lparr>skipped_response_count = offset, expected_response_count = n,
                    pe_is_transaction = is_transaction p, seen_responses = 0\<rparr>) False)
            (\<lambda>v. Inr (case v of VArray values \<Rightarrow> values | _ \<Rightarrow> [v])), None))
         (get_packed_pipeline itoa p)
   | Some (cm, lru) \<Rightarrow>
       run_bind (get_cached_pipeline E cm clocks p lru) (\<lambda>(cacheable_pipeline, packed, (skipped, expected), lru1).
         if pipeline_is_empty packed
         then map_run (\<lambda>(r, lru2). (r, Some lru2)) (resolve_pipeline E cm now cacheable_pipeline (VArray []) lru1)
         else run_bind (get_packed_pipeline itoa packed) (\<lambda>bs.
           case send_recv driver ch bs
                  (Some \<lparr>skipped_response_count = skipped, expected_response_count = expected,
                         pe_is_transaction = cpl_transaction_mode cacheable_pipeline, seen_responses = 0\<rparr>) False of
             Inl e \<Rightarrow> Ret (Inl e, Some lru1)
           | Inr result \<Rightarrow> map_run (\<lambda>(r, lru2). (r, Some lru2)) (resolve_pipeline E cm now cacheable_pipeline result lru1))))"

end
