(* ===== verification/Cache_Transparency.thy ===== *)
theory Cache_Transparency
  imports Client_Cache "HOL-Library.AList"
begin

text \<open>
  Correctness of client side caching: what the sharded cache keeps after its operations, that it stays
  coherent with the server, and that a request answered with the help of the cache is answered like one
  that is sent to the server as it is.
\<close>

section \<open>What is kept\<close>

text \<open>What the documentation of the \<^verbatim>\<open>lru\<close> crate promises: looking up a key changes only the order of use,
  a value written or pushed is found under its key, pushing may drop the least recently used other key,
  and popping removes the key.\<close>

definition cache_prims_ok :: "'m cache_prims \<Rightarrow> bool" where
  "cache_prims_ok E \<longleftrightarrow>
     (\<forall>n k. cp_peek E k (cp_new E n) = None) \<and>
     (\<forall>k m. fst (cp_get_mut E k m) = cp_peek E k m \<and> (\<forall>k'. cp_peek E k' (snd (cp_get_mut E k m)) = cp_peek E k' m)) \<and>
     (\<forall>k it m. cp_peek E k m \<noteq> None \<longrightarrow> (\<forall>k'. cp_peek E k' (cp_write E k it m) = (if k' = k then Some it else cp_peek E k' m))) \<and>
     (\<forall>k it m. cp_peek E k (cp_push E k it m) = Some it \<and>
        (\<forall>k'. k' \<noteq> k \<longrightarrow> cp_peek E k' (cp_push E k it m) \<in> {None, cp_peek E k' m})) \<and>
     (\<forall>k m. fst (cp_pop E k m) = cp_peek E k m \<and> (\<forall>k'. cp_peek E k' (snd (cp_pop E k m)) = (if k' = k then None else cp_peek E k' m)))"

lemma cache_prims_okD:
  assumes "cache_prims_ok E"
  shows "cp_peek E k (cp_new E n) = None"
    and "fst (cp_get_mut E k m) = cp_peek E k m" and "cp_peek E k' (snd (cp_get_mut E k m)) = cp_peek E k' m"
    and "cp_peek E k m \<noteq> None \<Longrightarrow> cp_peek E k' (cp_write E k it m) = (if k' = k then Some it else cp_peek E k' m)"
    and "cp_peek E k (cp_push E k it m) = Some it"
    and "k' \<noteq> k \<Longrightarrow> cp_peek E k' (cp_push E k it m) \<in> {None, cp_peek E k' m}"
    and "fst (cp_pop E k m) = cp_peek E k m"
    and "cp_peek E k' (snd (cp_pop E k m)) = (if k' = k then None else cp_peek E k' m)"
  using assms unfolding cache_prims_ok_def by (simp_all; blast?)+

definition cached_item :: "'m cache_prims \<Rightarrow> 'm ShardedLRU \<Rightarrow> bytes \<Rightarrow> CacheItem option" where
  "cached_item E lru k = cp_peek E k (shards lru ! get_shard E k lru)"

text \<open>The reply kept for a key and a command, whether it is still valid or not.\<close>

definition cached_reply :: "'m cache_prims \<Rightarrow> u64 \<Rightarrow> 'm ShardedLRU \<Rightarrow> bytes \<Rightarrow> bytes \<Rightarrow> Value option" where
  "cached_reply E epoch lru k c = (case cached_item E lru k of
     Some it \<Rightarrow> if it_epoch it = epoch then map_option ce_value (List.find (\<lambda>entry. ce_cmd entry = c) (value_list it)) else None
   | None \<Rightarrow> None)"

lemma increase_simps [simp]:
  "shards (increase_hit n lru) = shards lru" "shards (increase_miss n lru) = shards lru"
  "shards (increase_invalidate n lru) = shards lru"
  by (simp_all add: increase_hit_def increase_miss_def increase_invalidate_def)

lemma last_epoch_simps [simp]:
  "last_epoch (increase_hit n lru) = last_epoch lru" "last_epoch (increase_miss n lru) = last_epoch lru"
  "last_epoch (increase_invalidate n lru) = last_epoch lru" "last_epoch (set_shard i s lru) = last_epoch lru"
  by (simp_all add: increase_hit_def increase_miss_def increase_invalidate_def set_shard_def)

lemma cached_item_increase [simp]:
  "cached_item E (increase_hit n lru) k = cached_item E lru k"
  "cached_item E (increase_miss n lru) k = cached_item E lru k"
  "cached_item E (increase_invalidate n lru) k = cached_item E lru k"
  by (simp_all add: cached_item_def get_shard_def)

lemma set_shard_simps [simp]:
  "length (shards (set_shard i s lru)) = length (shards lru)"
  "get_shard E k (set_shard i s lru) = get_shard E k lru"
  "shards (set_shard i s lru) = [] \<longleftrightarrow> shards lru = []"
  by (simp_all add: set_shard_def get_shard_def)

lemma get_shard_bound: "shards lru \<noteq> [] \<Longrightarrow> get_shard E k lru < length (shards lru)"
  by (simp add: get_shard_def)

lemma cached_item_set_shard:
  assumes "shards lru \<noteq> []"
  shows "cached_item E (set_shard (get_shard E k lru) s lru) k' =
           (if get_shard E k' lru = get_shard E k lru then cp_peek E k' s else cached_item E lru k')"
  using get_shard_bound [OF assms, of E k] get_shard_bound [OF assms, of E k']
  by (simp add: cached_item_def set_shard_def get_shard_def nth_list_update)

lemma cached_item_cong: "shards lru = shards lru' \<Longrightarrow> cached_item E lru k = cached_item E lru' k"
  by (simp add: cached_item_def get_shard_def)

section \<open>The operations of the cache\<close>

lemma sharded_get_shards [simp]: "shards (snd (sharded_get E now k c e lru)) = [] \<longleftrightarrow> shards lru = []"
  by (simp add: sharded_get_def Let_def split: prod.splits option.splits)

lemma operations_keep_epoch [simp]:
  "last_epoch (snd (sharded_get E now k c e lru)) = last_epoch lru"
  "last_epoch (sharded_insert E k c v expires e lru) = last_epoch lru"
  "last_epoch (sharded_invalidate E k lru) = last_epoch lru"
  by (simp_all add: sharded_get_def sharded_insert_def sharded_invalidate_def Let_def split: prod.splits option.splits)

text \<open>A lookup gives the reply that is kept, of this epoch and not expired; it drops the key exactly when
  what is kept for it is invalid.\<close>

lemma sharded_get_spec:
  assumes "cache_prims_ok E" and "shards lru \<noteq> []"
  shows "fst (sharded_get E now k c e lru) =
           (case cached_item E lru k of
              Some it \<Rightarrow> if now \<le> expire_time it then cached_reply E e lru k c else None
            | None \<Rightarrow> None)"
    and "cached_item E (snd (sharded_get E now k c e lru)) k' =
           (if k' = k \<and> (case cached_item E lru k of Some it \<Rightarrow> it_epoch it \<noteq> e \<or> expire_time it < now | None \<Rightarrow> False)
            then None else cached_item E lru k')"
proof -
  obtain found s where g: "cp_get_mut E k (shards lru ! get_shard E k lru) = (found, s)" by fastforce
  note p = cache_prims_okD [OF assms(1)]
  have f: "found = cached_item E lru k"
    using p(2) [of k "shards lru ! get_shard E k lru"] by (simp add: g cached_item_def)
  have s: "cp_peek E x s = cp_peek E x (shards lru ! get_shard E k lru)" for x
    using p(3) [of x k "shards lru ! get_shard E k lru"] by (simp add: g)
  show "fst (sharded_get E now k c e lru) =
           (case cached_item E lru k of
              Some it \<Rightarrow> if now \<le> expire_time it then cached_reply E e lru k c else None
            | None \<Rightarrow> None)"
    by (auto simp: sharded_get_def Let_def g f cached_reply_def split: option.splits)
  have same: "cached_item E (set_shard (get_shard E k lru) s lru) x = cached_item E lru x" for x
    using cached_item_set_shard [OF assms(2), of E k s x] s by (simp add: cached_item_def)
  have pop: "cached_item E (set_shard (get_shard E k lru) (snd (cp_pop E k s))
      (increase_miss m (increase_invalidate n (set_shard (get_shard E k lru) s lru)))) x =
      (if x = k then None else cached_item E lru x)" for x n m
  proof -
    have "cached_item E (set_shard (get_shard E k lru) (snd (cp_pop E k s))
        (increase_miss m (increase_invalidate n (set_shard (get_shard E k lru) s lru)))) x =
        cached_item E (set_shard (get_shard E k lru) (snd (cp_pop E k s)) lru) x"
      by (rule cached_item_cong) (simp add: set_shard_def)
    then show ?thesis using cached_item_set_shard [OF assms(2), of E k _ x] p(8) [of x k s] s
      by (auto simp: cached_item_def)
  qed
  show "cached_item E (snd (sharded_get E now k c e lru)) k' =
           (if k' = k \<and> (case cached_item E lru k of Some it \<Rightarrow> it_epoch it \<noteq> e \<or> expire_time it < now | None \<Rightarrow> False)
            then None else cached_item E lru k')"
    by (auto simp: sharded_get_def Let_def g f same pop split: option.splits)
qed

lemma find_store_entry:
  "List.find (\<lambda>entry. ce_cmd entry = c') (store_entry c v es) =
     (if c' = c then map_option (\<lambda>entry. entry\<lparr>ce_value := v\<rparr>)
          (Some (case List.find (\<lambda>entry. ce_cmd entry = c) es of Some entry \<Rightarrow> entry | None \<Rightarrow> \<lparr>ce_cmd = c, ce_value = v\<rparr>))
      else List.find (\<lambda>entry. ce_cmd entry = c') es)"
  by (induction es) auto

text \<open>After an insertion the new reply is found and expires at the given instant; replies of other keys may
  have been dropped, and no other reply appears.\<close>

lemma sharded_insert_spec:
  assumes "cache_prims_ok E" and "shards lru \<noteq> []"
    and lru'_def: "lru' = sharded_insert E k c v expires e lru"
  shows "shards lru' \<noteq> []"
    and "\<exists>it. cached_item E lru' k = Some it \<and> expire_time it = expires \<and> it_epoch it = e"
    and "cached_reply E e lru' k c = Some v"
    and "cached_reply E e' lru' k' c' = Some w \<Longrightarrow>
           (k' = k \<and> c' = c \<and> e' = e \<and> w = v) \<or> cached_reply E e' lru k' c' = Some w"
    and "cached_item E lru' k' = Some it' \<Longrightarrow> it_epoch it' = e \<or> cached_item E lru k' = Some it'"
proof -
  let ?i = "get_shard E k lru"
  let ?s = "shards lru ! ?i"
  let ?fresh = "\<lparr>expire_time = expires, it_epoch = e, value_list = [\<lparr>ce_cmd = c, ce_value = v\<rparr>]\<rparr>"
  note p = cache_prims_okD [OF assms(1)]
  obtain s' it where lru': "lru' = set_shard ?i s' lru" and it: "cp_peek E k s' = Some it"
    and item: "it = ?fresh \<or> (\<exists>ch. cached_item E lru k = Some ch \<and> it_epoch ch = e \<and>
        it = ch\<lparr>value_list := store_entry c v (value_list ch), expire_time := expires\<rparr>)"
    and other: "\<And>x. x \<noteq> k \<Longrightarrow> cp_peek E x s' \<in> {None, cp_peek E x ?s}"
  proof (cases "\<exists>ch. cp_peek E k ?s = Some ch \<and> it_epoch ch = e")
    case True
    then obtain ch where ch: "cp_peek E k ?s = Some ch" "it_epoch ch = e" by blast
    let ?it = "ch\<lparr>value_list := store_entry c v (value_list ch), expire_time := expires\<rparr>"
    have l: "lru' = set_shard ?i (cp_write E k ?it ?s) lru" using ch by (simp add: lru'_def sharded_insert_def Let_def)
    show ?thesis using ch p(4) [of k ?s _ ?it] by (intro that [OF l, of ?it]) (auto simp: cached_item_def)
  next
    case False
    then have l: "lru' = set_shard ?i (cp_push E k ?fresh ?s) lru"
      by (auto simp: lru'_def sharded_insert_def Let_def split: option.splits)
    show ?thesis using p(5) p(6) by (intro that [OF l, of ?fresh]) auto
  qed
  have k: "cached_item E lru' k = Some it" using cached_item_set_shard [OF assms(2), of E k s' k] lru' it by simp
  show "shards lru' \<noteq> []" using assms(2) by (simp add: lru')
  show "\<exists>it. cached_item E lru' k = Some it \<and> expire_time it = expires \<and> it_epoch it = e"
    using k item by auto
  show "cached_reply E e lru' k c = Some v"
    using k item by (auto simp: cached_reply_def find_store_entry)
  show "(k' = k \<and> c' = c \<and> e' = e \<and> w = v) \<or> cached_reply E e' lru k' c' = Some w"
    if "cached_reply E e' lru' k' c' = Some w"
  proof (cases "k' = k")
    case True
    then show ?thesis using that k item by (auto simp: cached_reply_def find_store_entry split: if_splits)
  next
    case False
    then have "cached_item E lru' k' \<in> {None, cached_item E lru k'}"
      using cached_item_set_shard [OF assms(2), of E k s' k'] other [OF False] by (auto simp: lru' cached_item_def)
    then show ?thesis using that by (auto simp: cached_reply_def split: option.splits)
  qed
  show "it_epoch it' = e \<or> cached_item E lru k' = Some it'" if "cached_item E lru' k' = Some it'"
  proof (cases "k' = k")
    case False
    then show ?thesis
      using cached_item_set_shard [OF assms(2), of E k s' k'] other [OF False] that
      by (auto simp: lru' cached_item_def split: if_splits)
  qed (use that k item in auto)
qed

lemma sharded_invalidate_spec:
  assumes "cache_prims_ok E" and "shards lru \<noteq> []"
  shows "shards (sharded_invalidate E k lru) \<noteq> []"
    and "cached_item E (sharded_invalidate E k lru) k' = (if k' = k then None else cached_item E lru k')"
proof -
  obtain found s where g: "cp_pop E k (shards lru ! get_shard E k lru) = (found, s)" by fastforce
  have s: "cp_peek E x s = (if x = k then None else cp_peek E x (shards lru ! get_shard E k lru))" for x
    using cache_prims_okD(8) [OF assms(1), of x k "shards lru ! get_shard E k lru"] by (simp add: g)
  show "shards (sharded_invalidate E k lru) \<noteq> []"
    using assms(2) by (simp add: sharded_invalidate_def Let_def g split: option.splits)
  have "cached_item E (set_shard (get_shard E k lru) s lru) k' = (if k' = k then None else cached_item E lru k')"
    using cached_item_set_shard [OF assms(2), of E k s k'] s by (auto simp: cached_item_def)
  then show "cached_item E (sharded_invalidate E k lru) k' = (if k' = k then None else cached_item E lru k')"
    by (auto simp: sharded_invalidate_def Let_def g split: option.splits)
qed

lemma sharded_new_empty:
  assumes "cache_prims_ok E" and "0 < n"
  shows "shards (sharded_lru_new E n) \<noteq> []" and "cached_item E (sharded_lru_new E n) k = None"
  using cache_prims_okD(1) [OF assms(1)]
  by (simp_all add: sharded_lru_new_def MAX_SHARD_COUNT_def cached_item_def get_shard_def)

section \<open>Coherence with the server\<close>

text \<open>The server is a function \<open>srv\<close> from the arguments of a command to its reply, as long as no key is written.
  \<open>U\<close> is the set of commands on one key that are in use.  The cache is coherent when it keeps only
  replies the server would give, and none of an epoch still to come.\<close>

definition coherent ::
    "'m cache_prims \<Rightarrow> CacheManager \<Rightarrow> (bytes list \<Rightarrow> Value) \<Rightarrow> bytes list set \<Rightarrow> 'm ShardedLRU \<Rightarrow> bool" where
  "coherent E cm srv U lru \<longleftrightarrow> shards lru \<noteq> [] \<and> cm_epoch cm < last_epoch lru \<and>
     (\<forall>k it. cached_item E lru k = Some it \<longrightarrow> it_epoch it < last_epoch lru) \<and>
     (\<forall>xs \<in> U. \<forall>w. cached_reply E (cm_epoch cm) lru (xs ! 1) (concat xs) = Some w \<longrightarrow> w = srv xs)"

text \<open>The key of a reply in the cache is the concatenation of the arguments of its command; what is in use has
  to be told apart by it.\<close>

definition unambiguous :: "bytes list set \<Rightarrow> bool" where
  "unambiguous U \<longleftrightarrow> (\<forall>xs \<in> U. \<forall>ys \<in> U. xs ! 1 = ys ! 1 \<longrightarrow> concat xs = concat ys \<longrightarrow> xs = ys)"

definition part_args :: "bytes \<Rightarrow> bytes option \<Rightarrow> bytes \<Rightarrow> bytes list" where
  "part_args single_command_name json_path_key k =
     single_command_name # k # (case json_path_key of Some path \<Rightarrow> [path] | None \<Rightarrow> [])"

text \<open>A command on several keys answers with the replies of the single commands.\<close>

definition serves :: "(bytes list \<Rightarrow> Value) \<Rightarrow> bytes list set \<Rightarrow> bool" where
  "serves srv U \<longleftrightarrow>
     (\<forall>ks. ks \<noteq> [] \<longrightarrow> (\<forall>k \<in> set ks. part_args ''GET'' None k \<in> U) \<longrightarrow>
        srv (''MGET'' # ks) = VArray (map (\<lambda>k. srv (part_args ''GET'' None k)) ks)) \<and>
     (\<forall>ks path. ks \<noteq> [] \<longrightarrow> (\<forall>k \<in> set ks. part_args ''JSON.GET'' (Some path) k \<in> U) \<longrightarrow>
        srv (''JSON.MGET'' # ks @ [path]) = VArray (map (\<lambda>k. srv (part_args ''JSON.GET'' (Some path) k)) ks))"

fun covered :: "bytes list set \<Rightarrow> bytes list \<Rightarrow> bool" where
  "covered U [] \<longleftrightarrow> True"
| "covered U (name # args) \<longleftrightarrow>
     (if name = ''MGET'' then args \<noteq> [] \<and> (\<forall>k \<in> set args. part_args ''GET'' None k \<in> U)
      else if name = ''JSON.MGET'' then 2 \<le> length args \<and> (\<forall>k \<in> set (butlast args). part_args ''JSON.GET'' (Some (last args)) k \<in> U)
      else is_cachable_cmd name \<longrightarrow> args \<noteq> [] \<longrightarrow> name # args \<in> U)"

lemma part_args_key [simp]: "part_args s p k ! Suc 0 = k" "concat (part_args s p k) = prepare_key_buffer s k p"
  by (auto simp: part_args_def prepare_key_buffer_def split: option.splits)

lemma coherent_get:
  assumes "cache_prims_ok E" and "coherent E cm srv U lru" and "cache_get E cm now k c lru = (found, lru1)"
  shows "coherent E cm srv U lru1" and "xs \<in> U \<Longrightarrow> xs ! 1 = k \<Longrightarrow> concat xs = c \<Longrightarrow> found = Some w \<Longrightarrow> w = srv xs"
proof -
  have ne: "shards lru \<noteq> []" using assms(2) by (simp add: coherent_def)
  note g = sharded_get_spec [OF assms(1) ne, of now k c "cm_epoch cm"]
  have l: "lru1 = snd (sharded_get E now k c (cm_epoch cm) lru)" "found = fst (sharded_get E now k c (cm_epoch cm) lru)"
    using assms(3) by (simp_all add: cache_get_def)
  have items: "cached_item E lru k' = Some it" if "cached_item E lru1 k' = Some it" for k' it
    using that unfolding l g(2) by (simp split: if_splits)
  have "it_epoch it < last_epoch lru1" if "cached_item E lru1 k' = Some it" for k' it
    using items [OF that] assms(2) by (simp add: coherent_def l(1))
  moreover have "w = srv xs" if "xs \<in> U" "cached_reply E (cm_epoch cm) lru1 (xs ! 1) (concat xs) = Some w" for xs w
  proof -
    from that(2) obtain it where "cached_item E lru1 (xs ! 1) = Some it" by (auto simp: cached_reply_def split: option.splits)
    then have "cached_reply E (cm_epoch cm) lru (xs ! 1) (concat xs) = Some w"
      using that(2) items by (simp add: cached_reply_def)
    then show ?thesis using that(1) assms(2) by (simp add: coherent_def)
  qed
  ultimately show "coherent E cm srv U lru1" using assms(2) by (simp add: coherent_def l(1))
  show "w = srv xs" if "xs \<in> U" "xs ! 1 = k" "concat xs = c" "found = Some w"
    using that assms(2) unfolding l(2) g(1) by (auto simp: coherent_def split: option.splits if_splits)
qed

lemma coherent_insert:
  assumes "cache_prims_ok E" and "unambiguous U" and "coherent E cm srv U lru" and "xs \<in> U"
  shows "coherent E cm srv U (cache_insert E cm now (xs ! 1) (concat xs) (srv xs) client ttl lru)"
proof -
  have ne: "shards lru \<noteq> []" using assms(3) by (simp add: coherent_def)
  obtain expires where lru': "cache_insert E cm now (xs ! 1) (concat xs) (srv xs) client ttl lru =
      sharded_insert E (xs ! 1) (concat xs) (srv xs) expires (cm_epoch cm) lru"
    by (simp add: cache_insert_def Let_def)
  note i = sharded_insert_spec [OF assms(1) ne lru']
  have "w = srv ys" if "ys \<in> U" and
    "cached_reply E (cm_epoch cm) (cache_insert E cm now (xs ! 1) (concat xs) (srv xs) client ttl lru) (ys ! 1) (concat ys) = Some w" for ys w
    using i(4) [OF that(2)] that(1) assms by (auto simp: coherent_def unambiguous_def)
  moreover have "it_epoch it < last_epoch lru" if "cached_item E (sharded_insert E (xs ! 1) (concat xs) (srv xs) expires (cm_epoch cm) lru) k = Some it" for k it
    using i(5) [unfolded lru', OF that] assms(3) by (auto simp: coherent_def)
  ultimately show ?thesis using i(1) assms(3) unfolding coherent_def lru' by auto
qed

lemma coherent_invalidate:
  assumes "cache_prims_ok E" and "coherent E cm srv U lru" and "\<forall>xs \<in> U. xs ! 1 \<noteq> k \<longrightarrow> srv' xs = srv xs"
  shows "coherent E cm srv' U (sharded_invalidate E k lru)"
proof -
  have ne: "shards lru \<noteq> []" using assms(2) by (simp add: coherent_def)
  note i = sharded_invalidate_spec [OF assms(1) ne]
  have "w = srv' xs" if "xs \<in> U" "cached_reply E (cm_epoch cm) (sharded_invalidate E k lru) (xs ! 1) (concat xs) = Some w" for xs w
  proof -
    have "xs ! 1 \<noteq> k" using that(2) by (auto simp: cached_reply_def i(2))
    moreover from this have "cached_reply E (cm_epoch cm) lru (xs ! 1) (concat xs) = Some w"
      using that(2) by (simp add: cached_reply_def i(2))
    ultimately show ?thesis using that(1) assms(2,3) by (auto simp: coherent_def)
  qed
  then show ?thesis using i(1) assms(2) unfolding coherent_def by (auto simp: i(2))
qed

section \<open>Commands on several keys\<close>

text \<open>Whatever is missing after the lookups is filled in with the replies of the server.\<close>

lemma lookup_then_resolve:
  assumes E: "cache_prims_ok E" and U: "unambiguous U"
  shows "coherent E cm srv U lru \<Longrightarrow> \<forall>k \<in> set ks. part_args s path k \<in> U \<Longrightarrow>
    lookup_keys E cm clock s path i ks lru = (missing, response, lru1) \<Longrightarrow>
    coherent E cm srv U lru1 \<and> (\<forall>m \<in> set missing. mp_redis_key (snd m) \<in> set ks) \<and>
    (\<forall>pre lru2 ttls. length pre = i \<longrightarrow> coherent E cm srv U lru2 \<longrightarrow> length ttls = length missing \<longrightarrow>
      (\<exists>lru3. resolve_parts E cm now expires (map (\<lambda>m. srv (part_args s path (mp_redis_key (snd m)))) missing) (ttls @ rest)
          missing (pre @ response) lru2 = Ret (pre @ map (\<lambda>k. srv (part_args s path k)) ks, rest, lru3) \<and> coherent E cm srv U lru3))"
proof (induction ks arbitrary: i lru missing response)
  case Nil
  have "resolve_parts E cm now expires [] rest [] pre lru2 = Ret (pre, rest, lru2)" for pre lru2
    by (cases rest) simp_all
  then show ?case using Nil by auto
next
  case (Cons k ks)
  let ?v = "\<lambda>k. srv (part_args s path k)"
  obtain found lruk where g: "cache_get E cm (clock i) k (prepare_key_buffer s k path) lru = (found, lruk)" by fastforce
  obtain missing' response' where r: "lookup_keys E cm clock s path (Suc i) ks lruk = (missing', response', lru1)"
    using Cons.prems(3) by (auto simp: g Let_def split: prod.splits option.splits)
  note cg = coherent_get [OF E Cons.prems(1) g]
  have U': "part_args s path k \<in> U" "\<forall>k \<in> set ks. part_args s path k \<in> U" using Cons.prems(2) by simp_all
  note IH = Cons.IH [OF cg(1) U'(2) r]
  show ?case
  proof (cases found)
    case (Some w)
    then have w: "w = ?v k" using cg(2) [OF U'(1)] by simp
    have m: "missing = missing'" "response = w # response'"
      using Cons.prems(3) by (simp_all add: g r Some Let_def)
    have "\<exists>lru3. resolve_parts E cm now expires (map (\<lambda>m. ?v (mp_redis_key (snd m))) missing) (ttls @ rest)
        missing (pre @ response) lru2 = Ret (pre @ map ?v (k # ks), rest, lru3) \<and> coherent E cm srv U lru3"
      if "length pre = i" "coherent E cm srv U lru2" "length ttls = length missing" for pre lru2 ttls
      using IH [THEN conjunct2, THEN conjunct2, rule_format, of "pre @ [w]" lru2 ttls] that by (simp add: m w)
    then show ?thesis using IH m(1) by auto
  next
    case None
    have m: "missing = (i, \<lparr>mp_redis_key = k, mp_cmd_key = prepare_key_buffer s k path\<rparr>) # missing'" "response = VNil # response'"
      using Cons.prems(3) by (simp_all add: g r None Let_def)
    have "\<exists>lru3. resolve_parts E cm now expires (map (\<lambda>m. ?v (mp_redis_key (snd m))) missing) (ttls @ rest)
        missing (pre @ response) lru2 = Ret (pre @ map ?v (k # ks), rest, lru3) \<and> coherent E cm srv U lru3"
      if "length pre = i" "coherent E cm srv U lru2" "length ttls = length missing" for pre lru2 ttls
    proof -
      note len = that(3)
      obtain t ttls' where t: "ttls = t # ttls'" "length ttls' = length missing'"
        using len by (cases ttls) (simp_all add: m)
      define lruk' where "lruk' = (if is_server_error (?v k) then lru2
        else cache_insert E cm (now (length missing')) k (prepare_key_buffer s k path) (?v k) expires t lru2)"
      have "coherent E cm srv U lruk'"
        using coherent_insert [OF E U that(2) U'(1), of "now (length missing')" expires t] that(2)
        by (simp add: lruk'_def)
      from IH [THEN conjunct2, THEN conjunct2, rule_format, of "pre @ [?v k]" lruk' ttls'] this that(1) t
      show ?thesis by (cases "is_server_error (?v k)") (simp_all add: m list_update_append lruk'_def)
    qed
    then show ?thesis using IH m(1) by auto
  qed
qed

section \<open>Commands\<close>

lemma args_iter_from_data:
  "offsets_ok p xs (length d) \<Longrightarrow> args_iter_from d p xs = Ret as \<Longrightarrow>
   concat (map (\<lambda>a. case a of Simple b \<Rightarrow> b | Cursor \<Rightarrow> []) as) = drop p d"
proof (induction d p xs arbitrary: as rule: args_iter_from.induct)
  case (2 data prev i rest)
  then obtain bs where "slice_range data prev i = Ret (take (i - prev) (drop prev data))"
      "args_iter_from data i rest = Ret bs" "as = Simple (take (i - prev) (drop prev data)) # bs" "prev \<le> i"
    by (auto simp: monad_simps slice_range_def split: if_splits)
  moreover have "take (i - prev) (drop prev data) @ drop i data = drop prev data"
    using append_take_drop_id [of "i - prev" "drop prev data"] calculation(4) by simp
  ultimately show ?case using 2 by simp
qed (auto simp: monad_simps)

lemma plain_cmd_data: "plain_cmd c \<Longrightarrow> cdata c = concat (simple_args c)"
  using args_iter_from_data [of 0 "cargs c" "cdata c"] wf_cmd_args_iter [of c]
  by (simp add: plain_cmd_def wf_cmd_def simple_args_def args_iter_def)

lemma plain_arg_idx: "plain_cmd c \<Longrightarrow> arg_idx c k = Ret (get_idx (simple_args c) k)"
  using cmd_request.arg_idx_law [of c k] by (simp add: cmd_routable_def)

lemma map_filter_Simple: "List.map_filter (\<lambda>arg. case arg of Simple a \<Rightarrow> Some a | Cursor \<Rightarrow> None) (map Simple xs) = xs"
  by (induction xs) (simp_all add: List.map_filter_simps)

lemma plain_args_iter: "plain_cmd c \<Longrightarrow> args_iter c = Ret (map Simple (simple_args c))"
  using wf_cmd_args_iter [of c] cmd_args_of_plain [of c] plain_cmd_def [of c] by metis

lemma plain_extract_simple_arguments: "plain_cmd c \<Longrightarrow> extract_simple_arguments c = Ret (tl (simple_args c))"
  using map_filter_Simple [of "tl (simple_args c)"]
  by (simp add: extract_simple_arguments_def plain_args_iter map_tl)

lemma plain_cmd_len: "plain_cmd c \<Longrightarrow> \<exists>n \<ge> 2. cmd_len c = Ret n"
  by (simp add: plain_cmd_def cmd_len_wf resp_command_def)

lemma write_args:
  "wf_cmd c \<Longrightarrow> wf_cmd (foldl cmd_write_arg c xs) \<and> cmd_args_of (foldl cmd_write_arg c xs) = cmd_args_of c @ map Simple xs"
  by (induction xs arbitrary: c) (simp_all add: wf_cmd_write_arg cmd_args_of_write_arg)

lemma simple_args_write:
  "simple_args (foldl cmd_write_arg (foldl cmd_write_arg (cmd_write_arg cmd_new name) ks) ts) = name # ks @ ts"
proof -
  have "cmd_args_of (foldl cmd_write_arg (foldl cmd_write_arg (cmd_write_arg cmd_new name) ks) ts) = map Simple (name # ks @ ts)"
    using write_args [of cmd_new "name # ks"] write_args [of "foldl cmd_write_arg cmd_new (name # ks)" ts] by simp
  then show ?thesis by (simp add: simple_args_def comp_def)
qed

lemma add_commands: "foldl (\<lambda>q c. q\<lparr>commands := commands q @ [c]\<rparr>) p ds = p\<lparr>commands := commands p @ ds\<rparr>"
  by (induction ds arbitrary: p) simp_all

lemma foldl_map_fun: "foldl (\<lambda>q x. g q (f x)) a xs = foldl g a (map f xs)"
  by (induction xs arbitrary: a) simp_all

text \<open>The commands a cacheable command is packed into.\<close>

definition replied_commands :: "CacheableCommand \<Rightarrow> Cmd list" where
  "replied_commands cc = (case cc of
     CachedSingle scc \<Rightarrow> [pttl (sc_redis_key scc), sc_cmd scc]
   | CachedMultiple name missing _ _ tail_args \<Rightarrow>
       foldl cmd_write_arg (foldl cmd_write_arg (cmd_write_arg cmd_new name) (map (mp_redis_key \<circ> snd) missing)) tail_args #
       map (pttl \<circ> mp_redis_key \<circ> snd) missing)"

definition packed_commands :: "CacheManager \<Rightarrow> CacheableCommand \<Rightarrow> Cmd list" where
  "packed_commands cm cc = (if cc_mode (cm_config cm) = OptIn then [caching_yes] else []) @ replied_commands cc"

lemma pack_cacheable_commands: "pack_cacheable cm cc p = p\<lparr>commands := commands p @ packed_commands cm cc\<rparr>"
  by (cases cc) (simp_all add: add_commands add_command_def pack_cacheable_def packed_commands_def replied_commands_def Let_def foldl_map_fun [of "\<lambda>q c. q\<lparr>commands := commands q @ [c]\<rparr>" pttl] comp_def)

text \<open>What is known of an item: it is the reply of the server, or packing it makes the server send what
  resolves to that reply.\<close>

definition item_ok ::
    "'m cache_prims \<Rightarrow> CacheManager \<Rightarrow> (bytes list \<Rightarrow> Value) \<Rightarrow> bytes list set \<Rightarrow> Cmd \<Rightarrow> PrepCacheItem \<Rightarrow> bool" where
  "item_ok E cm srv U c item = (case item of
     Cached v \<Rightarrow> v = srv (simple_args c)
   | NotCacheable \<Rightarrow> True
   | NotCached cc \<Rightarrow>
       (\<forall>now rest lru. coherent E cm srv U lru \<longrightarrow>
          (\<exists>lru'. resolve_cacheable E cm now cc (map (srv \<circ> simple_args) (packed_commands cm cc) @ rest) lru =
             Ret (Inr (srv (simple_args c)), rest, lru') \<and> coherent E cm srv U lru')))"

lemma item_ok_NotCached:
  assumes "\<And>now rest lru. coherent E cm srv U lru \<Longrightarrow>
      \<exists>lru'. resolve_replies E cm now cc (map (srv \<circ> simple_args) (replied_commands cc) @ rest) lru =
             Ret (Inr (srv (simple_args c)), rest, lru') \<and> coherent E cm srv U lru'"
  shows "item_ok E cm srv U c (NotCached cc)"
  using assms by (simp add: item_ok_def packed_commands_def resolve_cacheable_def get_next_reply_def)

lemma process_multi_key:
  assumes "plain_cmd c" and "tl (simple_args c) = ks @ tail_args" and "json \<longleftrightarrow> tail_args \<noteq> []" and "length tail_args \<le> 1"
    and "lookup_keys E cm clock s (case tail_args of [] \<Rightarrow> None | k # _ \<Rightarrow> Some k) 0 ks lru = (missing, response, lru1)"
  shows "process_multi_key_arguments E cm clock c json s lru = Ret (missing, response, tail_args, lru1)"
  using assms
  by (cases tail_args) (auto simp: process_multi_key_arguments_def plain_extract_simple_arguments Let_def)

lemma handle_multi_ok:
  assumes E: "cache_prims_ok E" and U: "unambiguous U" and lru: "coherent E cm srv U lru"
    and c: "plain_cmd c" "simple_args c = name # ks @ tail_args" "prefix ''JSON'' name \<longleftrightarrow> tail_args \<noteq> []" "length tail_args \<le> 1"
    and path: "path = (case tail_args of [] \<Rightarrow> None | k # _ \<Rightarrow> Some k)"
    and ks: "ks \<noteq> []" "\<forall>k \<in> set ks. part_args s path k \<in> U"
    and srv: "\<And>ks'. ks' \<noteq> [] \<Longrightarrow> set ks' \<subseteq> set ks \<Longrightarrow> srv (name # ks' @ tail_args) = VArray (map (\<lambda>k. srv (part_args s path k)) ks')"
  shows "\<exists>item lru1. handle_multi_key_command E cm clock c name s expires lru = Ret (item, lru1) \<and>
           coherent E cm srv U lru1 \<and> item_ok E cm srv U c item"
proof -
  let ?v = "\<lambda>k. srv (part_args s path k)"
  obtain missing response lru1 where l: "lookup_keys E cm clock s path 0 ks lru = (missing, response, lru1)"
    using prod_cases3 by blast
  note r = lookup_then_resolve [OF E U lru ks(2) l, where expires = expires]
  have all: "srv (simple_args c) = VArray (map ?v ks)" using srv [OF ks(1)] c(2) by simp
  let ?cc = "CachedMultiple name missing response expires tail_args"
  let ?item = "if missing = [] then Cached (VArray response) else NotCached ?cc"
  have "handle_multi_key_command E cm clock c name s expires lru = Ret (?item, lru1)"
    using process_multi_key [OF c(1) _ c(3,4) l [unfolded path]] c(2) by (simp add: handle_multi_key_command_def)
  moreover have "coherent E cm srv U lru1" using r by blast
  moreover have "item_ok E cm srv U c ?item"
  proof (cases "missing = []")
    case True
    have "\<exists>lru3. resolve_parts E cm (\<lambda>_. 0) expires [] [] [] response lru1 = Ret (map ?v ks, [], lru3)"
      using r [of "\<lambda>_. 0" "[]", THEN conjunct2, THEN conjunct2, rule_format, of "[]" lru1 "[]"] True \<open>coherent E cm srv U lru1\<close>
      by auto
    then show ?thesis using True all by (simp add: item_ok_def)
  next
    case False
    let ?ks = "map (mp_redis_key \<circ> snd) missing"
    have sub: "set ?ks \<subseteq> set ks" using r by auto
    have first: "srv (name # ?ks @ tail_args) = VArray (map ?v ?ks)"
      by (rule srv) (use False sub in simp_all)
    have "item_ok E cm srv U c (NotCached ?cc)"
    proof (rule item_ok_NotCached)
      fix now rest lru2 assume c2: "coherent E cm srv U lru2"
      let ?ttls = "map (srv \<circ> simple_args \<circ> pttl \<circ> mp_redis_key \<circ> snd) missing"
      have reps: "map (srv \<circ> simple_args) (replied_commands ?cc) = VArray (map ?v ?ks) # ?ttls"
        using first by (simp add: replied_commands_def simple_args_write)
      from r [of now rest, THEN conjunct2, THEN conjunct2, rule_format, of "[]" lru2 ?ttls] c2
      show "\<exists>lru'. resolve_replies E cm now ?cc (map (srv \<circ> simple_args) (replied_commands ?cc) @ rest) lru2 =
          Ret (Inr (srv (simple_args c)), rest, lru') \<and> coherent E cm srv U lru'"
        unfolding reps all by (auto simp: resolve_replies_def comp_def)
    qed
    then show ?thesis using False by simp
  qed
  ultimately show ?thesis by blast
qed

lemma handle_single_ok:
  assumes E: "cache_prims_ok E" and U: "unambiguous U" and lru: "coherent E cm srv U lru"
    and c: "plain_cmd c" "1 < length (simple_args c) \<Longrightarrow> simple_args c \<in> U"
  shows "\<exists>item lru1. handle_single_key_command E cm now c expires lru = Ret (item, lru1) \<and>
           coherent E cm srv U lru1 \<and> item_ok E cm srv U c item"
proof (cases "1 < length (simple_args c)")
  case False
  then show ?thesis using c(1) lru
    by (simp add: handle_single_key_command_def plain_arg_idx get_idx_def item_ok_def)
next
  case True
  let ?key = "simple_args c ! 1"
  obtain found lru1 where g: "cache_get E cm now ?key (cdata c) lru = (found, lru1)" by fastforce
  note cg = coherent_get [OF E lru g]
  have data: "cdata c = concat (simple_args c)" by (rule plain_cmd_data [OF c(1)])
  show ?thesis
  proof (cases found)
    case (Some w)
    then have "handle_single_key_command E cm now c expires lru = Ret (Cached w, lru1)"
      using True g by (simp add: handle_single_key_command_def plain_arg_idx [OF c(1)] get_idx_def)
    moreover have "w = srv (simple_args c)" using cg(2) [OF c(2) [OF True] refl] data Some by simp
    ultimately show ?thesis using cg(1) by (simp add: item_ok_def)
  next
    case None
    let ?cc = "CachedSingle \<lparr>sc_redis_key = ?key, sc_cmd_key = cdata c, sc_cmd = c, sc_expire = expires\<rparr>"
    have "handle_single_key_command E cm now c expires lru = Ret (NotCached ?cc, lru1)"
      using True g None by (simp add: handle_single_key_command_def plain_arg_idx [OF c(1)] get_idx_def)
    moreover have "item_ok E cm srv U c (NotCached ?cc)"
      by (rule item_ok_NotCached)
        (use coherent_insert [OF E U _ c(2) [OF True]] data in \<open>simp add: resolve_replies_def replied_commands_def\<close>)
    ultimately show ?thesis using cg(1) by blast
  qed
qed

lemma prefix_JSON [simp]: "\<not> prefix ''JSON'' ''MGET''" "prefix ''JSON'' ''JSON.MGET''"
  by simp_all

lemma is_multi_key_None: "is_multi_key name = None \<longleftrightarrow> name \<noteq> ''MGET'' \<and> name \<noteq> ''JSON.MGET''"
  by (simp add: is_multi_key_def)

lemma serves_mget:
  "serves srv U \<Longrightarrow> ks \<noteq> [] \<Longrightarrow> \<forall>k \<in> set ks. part_args ''GET'' None k \<in> U \<Longrightarrow>
   srv (''MGET'' # ks) = VArray (map (\<lambda>k. srv (part_args ''GET'' None k)) ks)"
  unfolding serves_def by blast

lemma serves_json:
  "serves srv U \<Longrightarrow> ks \<noteq> [] \<Longrightarrow> \<forall>k \<in> set ks. part_args ''JSON.GET'' (Some path) k \<in> U \<Longrightarrow>
   srv (''JSON.MGET'' # ks @ [path]) = VArray (map (\<lambda>k. srv (part_args ''JSON.GET'' (Some path) k)) ks)"
  unfolding serves_def by blast

lemma get_cached_cmd_ok:
  assumes E: "cache_prims_ok E" and U: "unambiguous U" and srv: "serves srv U" and lru: "coherent E cm srv U lru"
    and c: "plain_cmd c" "covered U (simple_args c)"
  shows "\<exists>item lru1. get_cached_cmd E cm clock c lru = Ret (item, lru1) \<and>
           coherent E cm srv U lru1 \<and> item_ok E cm srv U c item"
proof -
  have "\<exists>item lru1. get_cached_cmd_inner E cm clock c lru = Ret (item, lru1) \<and>
      coherent E cm srv U lru1 \<and> item_ok E cm srv U c item"
  proof (cases "simple_args c")
    case Nil
    then show ?thesis using plain_cmd_len [OF c(1)] lru
      by (auto simp: get_cached_cmd_inner_def plain_arg_idx [OF c(1)] get_idx_def item_ok_def)
  next
    case (Cons name args)
    let ?expires = "calculate_expiration_time cm (clock 0) c"
    have inner: "get_cached_cmd_inner E cm clock c lru = (case is_multi_key name of
        Some (n, s) \<Rightarrow> handle_multi_key_command E cm (clock \<circ> Suc) c n s ?expires lru
      | None \<Rightarrow> if is_cachable_cmd name then handle_single_key_command E cm (clock 1) c ?expires lru else Ret (NotCacheable, lru))"
      using plain_cmd_len [OF c(1)] by (auto simp: get_cached_cmd_inner_def plain_arg_idx [OF c(1)] get_idx_def Cons Let_def)
    consider (mget) "name = ''MGET''" | (json) "name = ''JSON.MGET''" | (single) "is_multi_key name = None"
      using is_multi_key_None [of name] by argo
    then show ?thesis
    proof cases
      case mget
      have args: "simple_args c = ''MGET'' # args @ []" "args \<noteq> []" "\<forall>k \<in> set args. part_args ''GET'' None k \<in> U"
        using c(2) Cons mget by simp_all
      have law: "srv (''MGET'' # ks' @ []) = VArray (map (\<lambda>k. srv (part_args ''GET'' None k)) ks')"
        if "ks' \<noteq> []" "set ks' \<subseteq> set args" for ks'
        using serves_mget [OF srv that(1)] args(3) that(2) by (simp add: subset_iff)
      have "is_multi_key name = Some (''MGET'', ''GET'')" using mget by (simp add: is_multi_key_def)
      then show ?thesis unfolding inner
        using handle_multi_ok [OF E U lru c(1) args(1) _ _ _ args(2,3) law] by simp
    next
      case json
      have len: "2 \<le> length args" and U': "\<forall>k \<in> set (butlast args). part_args ''JSON.GET'' (Some (last args)) k \<in> U"
        using c(2) Cons json by simp_all
      have "args \<noteq> []" using len by auto
      then have ks: "butlast args @ [last args] = args" by (rule append_butlast_last_id)
      have "length (butlast args) \<noteq> 0" using len by simp
      then have ks': "butlast args \<noteq> []" by (rule contrapos_nn) simp
      have args: "simple_args c = ''JSON.MGET'' # butlast args @ [last args]" unfolding Cons json ks ..
      have law: "srv (''JSON.MGET'' # ks' @ [last args]) = VArray (map (\<lambda>k. srv (part_args ''JSON.GET'' (Some (last args)) k)) ks')"
        if "ks' \<noteq> []" "set ks' \<subseteq> set (butlast args)" for ks'
        using serves_json [OF srv that(1)] U' that(2) by (simp add: subset_iff)
      have "is_multi_key name = Some (''JSON.MGET'', ''JSON.GET'')" using json by (simp add: is_multi_key_def)
      then show ?thesis unfolding inner
        using handle_multi_ok [OF E U lru c(1) args _ _ _ ks' U' law] by simp
    next
      case single
      then have "name \<noteq> ''MGET''" "name \<noteq> ''JSON.MGET''"
        unfolding is_multi_key_None by (rule conjunct1, rule conjunct2)
      then have "is_cachable_cmd name \<Longrightarrow> 1 < length (simple_args c) \<Longrightarrow> simple_args c \<in> U" using c(2) Cons by auto
      then show ?thesis unfolding inner using handle_single_ok [OF E U lru c(1)] single lru by (simp add: item_ok_def)
    qed
  qed
  then show ?thesis using lru by (simp add: get_cached_cmd_def item_ok_def split: CacheMode.split option.split)
qed

section \<open>Pipelines\<close>

definition item_commands :: "CacheManager \<Rightarrow> Cmd \<Rightarrow> CachingResult \<Rightarrow> Cmd list" where
  "item_commands cm c item = (case item of
     CachedItem (Cached _) \<Rightarrow> []
   | CachedItem (NotCached cc) \<Rightarrow> packed_commands cm cc
   | _ \<Rightarrow> [c])"

lemma resolve_item_ok:
  assumes "coherent E cm srv U lru" and "item = IgnoredItem \<or> (\<exists>x. item = CachedItem x \<and> item_ok E cm srv U c x)"
  shows "\<exists>lru'. resolve_item E cm now item (map (srv \<circ> simple_args) (item_commands cm c item) @ rest) lru =
           Ret (Inr (srv (simple_args c)), rest, lru') \<and> coherent E cm srv U lru'"
proof (cases item)
  case (CachedItem x)
  then show ?thesis using assms
    by (cases x) (simp_all add: resolve_item_def item_commands_def item_ok_def get_next_reply_def)
qed (use assms in \<open>simp add: resolve_item_def item_commands_def get_next_reply_def\<close>)

text \<open>What the loop over the commands of a pipeline gives: the packed commands, and items that resolve on their
  replies to the replies of the commands.\<close>

definition resolvable ::
    "'m cache_prims \<Rightarrow> CacheManager \<Rightarrow> (bytes list \<Rightarrow> Value) \<Rightarrow> bytes list set \<Rightarrow> CachingResult list \<Rightarrow> Cmd list \<Rightarrow> Cmd list \<Rightarrow> bool" where
  "resolvable E cm srv U items ds cs \<longleftrightarrow>
     (\<forall>now lru. coherent E cm srv U lru \<longrightarrow>
        (\<exists>lru'. resolve_items E cm now items (map (srv \<circ> simple_args) ds) lru = Ret (Inr (map (srv \<circ> simple_args) cs), lru') \<and>
           coherent E cm srv U lru'))"

lemma resolvable_Cons:
  assumes "item = IgnoredItem \<or> (\<exists>x. item = CachedItem x \<and> item_ok E cm srv U c x)" and "resolvable E cm srv U items ds cs"
  shows "resolvable E cm srv U (item # items) (item_commands cm c item @ ds) (c # cs)"
  unfolding resolvable_def
proof (intro allI impI)
  fix now lru assume "coherent E cm srv U lru"
  then obtain lru1 where 1: "resolve_item E cm now item (map (srv \<circ> simple_args) (item_commands cm c item) @ map (srv \<circ> simple_args) ds) lru =
      Ret (Inr (srv (simple_args c)), map (srv \<circ> simple_args) ds, lru1)" "coherent E cm srv U lru1"
    using resolve_item_ok [OF _ assms(1)] by blast
  then obtain lru2 where "resolve_items E cm now items (map (srv \<circ> simple_args) ds) lru1 =
      Ret (Inr (map (srv \<circ> simple_args) cs), lru2)" "coherent E cm srv U lru2"
    using assms(2) unfolding resolvable_def by blast
  with 1 show "\<exists>lru'. resolve_items E cm now (item # items) (map (srv \<circ> simple_args) (item_commands cm c item @ ds)) lru =
      Ret (Inr (map (srv \<circ> simple_args) (c # cs)), lru') \<and> coherent E cm srv U lru'"
    by simp
qed

lemma cache_commands_ok:
  assumes E: "cache_prims_ok E" and U: "unambiguous U" and srv: "serves srv U"
  shows "coherent E cm srv U lru \<Longrightarrow>
    \<forall>i < length cs. idx + i \<notin> ign \<longrightarrow> plain_cmd (cs ! i) \<and> covered U (simple_args (cs ! i)) \<Longrightarrow>
    \<exists>items ds lru1. cache_commands E cm clocks ign idx cs packed lru = Ret (items, packed\<lparr>commands := commands packed @ ds\<rparr>, lru1) \<and>
      coherent E cm srv U lru1 \<and> resolvable E cm srv U items ds cs"
proof (induction cs arbitrary: idx packed lru)
  case Nil
  have "resolvable E cm srv U [] [] []" by (auto simp: resolvable_def)
  then show ?case using Nil
    by (intro exI [of _ "[]"] exI [of _ lru]) (cases packed, simp)
next
  case (Cons c cs)
  have rest: "\<forall>i < length cs. Suc idx + i \<notin> ign \<longrightarrow> plain_cmd (cs ! i) \<and> covered U (simple_args (cs ! i))"
  proof (intro allI impI)
    fix i assume "i < length cs" "Suc idx + i \<notin> ign"
    then show "plain_cmd (cs ! i) \<and> covered U (simple_args (cs ! i))"
      using Cons.prems(2) [rule_format, of "Suc i"] by simp
  qed
  show ?case
  proof (cases "idx \<in> ign")
    case True
    obtain items ds lru1 where r: "cache_commands E cm clocks ign (Suc idx) cs (add_command packed c) lru =
        Ret (items, (add_command packed c)\<lparr>commands := commands (add_command packed c) @ ds\<rparr>, lru1)"
      "coherent E cm srv U lru1" "resolvable E cm srv U items ds cs"
      using Cons.IH [OF Cons.prems(1) rest] by blast
    show ?thesis
      using r(1,2) True resolvable_Cons [OF disjI1 [OF refl] r(3), of c]
      by (intro exI [of _ "IgnoredItem # items"] exI [of _ "c # ds"]) (simp add: add_command_def item_commands_def)
  next
    case False
    then have "plain_cmd c" "covered U (simple_args c)" using Cons.prems(2) [rule_format, of 0] by simp_all
    then obtain item lruc where g: "get_cached_cmd E cm (clocks idx) c lru = Ret (item, lruc)" "coherent E cm srv U lruc"
        "item_ok E cm srv U c item"
      using get_cached_cmd_ok [OF E U srv Cons.prems(1)] by blast
    let ?ds = "item_commands cm c (CachedItem item)"
    obtain items ds lru1 where r: "cache_commands E cm clocks ign (Suc idx) cs (packed\<lparr>commands := commands packed @ ?ds\<rparr>) lruc =
        Ret (items, packed\<lparr>commands := (commands packed @ ?ds) @ ds\<rparr>, lru1)"
      "coherent E cm srv U lru1" "resolvable E cm srv U items ds cs"
      using Cons.IH [OF g(2) rest, of "packed\<lparr>commands := commands packed @ ?ds\<rparr>"] by auto
    have "(case item of Cached _ \<Rightarrow> packed | NotCached cc \<Rightarrow> pack_cacheable cm cc packed | NotCacheable \<Rightarrow> add_command packed c) =
        packed\<lparr>commands := commands packed @ ?ds\<rparr>"
      by (cases item) (simp_all add: item_commands_def pack_cacheable_commands add_command_def)
    then show ?thesis
      using r(1,2) False g(1) resolvable_Cons [OF disjI2 r(3), of "CachedItem item" c] g(3)
      by (intro exI [of _ "CachedItem item # items"] exI [of _ "?ds @ ds"]) (simp add: Let_def)
  qed
qed

section \<open>Requests are answered as without a cache\<close>

lemma values_from_array [simp]:
  "from_redis_value (from_vec from_value) (VArray vs) = Inr vs"
  "from_redis_value (from_one_tuple (from_vec from_value)) (VArray [VArray vs]) = Inr vs"
proof -
  have "map_res Inr vs = Inr vs" by (induction vs) simp_all
  then have v: "fr_owns from_value vs = Inr vs" "fr_own (from_vec from_value) (VArray vs) = Inr vs"
    by (simp_all add: from_value_def from_vec_def from_redis_impl_def vec_own_def)
  then show "from_redis_value (from_vec from_value) (VArray vs) = Inr vs"
    by (simp add: from_redis_value_def)
  show "from_redis_value (from_one_tuple (from_vec from_value)) (VArray [VArray vs]) = Inr vs"
    using v(2) by (simp add: from_redis_value_def from_one_tuple_def from_tuple_def from_redis_impl_def tuple_one_def get_inner_value_def Let_def)
qed

text \<open>The commands of a pipeline that are not ignored have to be in use.\<close>

definition request_covered :: "bytes list set \<Rightarrow> Pipeline \<Rightarrow> bool" where
  "request_covered U p \<longleftrightarrow>
     (\<forall>i < length (commands p). i \<notin> ignored_commands p \<longrightarrow>
        plain_cmd (commands p ! i) \<and> covered U (simple_args (commands p ! i)))"

text \<open>What the server sends for a pipeline, in a transaction inside the reply of EXEC.\<close>

definition server_result :: "(bytes list \<Rightarrow> Value) \<Rightarrow> Pipeline \<Rightarrow> Value list" where
  "server_result srv p =
     (let replies = map (srv \<circ> simple_args) (commands p) in if transaction_mode p then [VArray replies] else replies)"

lemma cached_pipeline_coherent:
  assumes E: "cache_prims_ok E" and U: "unambiguous U" and srv: "serves srv U" and lru: "coherent E cm srv U lru"
    and p: "request_covered U p"
  shows "\<exists>cp packed counts lru1. get_cached_pipeline E cm clocks p lru = Ret (cp, packed, counts, lru1) \<and>
           counts = (if transaction_mode p then length (commands packed) + 1 else 0, length (server_result srv packed)) \<and>
           (\<forall>now. \<exists>lru2. resolve_pipeline E cm now cp (VArray (server_result srv packed)) lru1 =
              Ret (Inr (server_result srv p), lru2) \<and> coherent E cm srv U lru2)"
proof -
  obtain items ds lru1 where r: "cache_commands E cm clocks (ignored_commands p) 0 (commands p) pipeline_new lru =
      Ret (items, pipeline_new\<lparr>commands := commands pipeline_new @ ds\<rparr>, lru1)"
    "coherent E cm srv U lru1" "resolvable E cm srv U items ds (commands p)"
    using cache_commands_ok [OF E U srv lru, of "commands p" 0 "ignored_commands p" clocks pipeline_new] p
    by (auto simp: request_covered_def)
  let ?packed = "pipeline_new\<lparr>commands := ds, transaction_mode := transaction_mode p\<rparr>"
  let ?cp = "\<lparr>cpl_commands = items, cpl_transaction_mode = transaction_mode p\<rparr>"
  have new: "commands pipeline_new = []" "transaction_mode pipeline_new = False"
    by (simp_all add: pipeline_new_def pipeline_with_capacity_def)
  then have "get_cached_pipeline E cm clocks p lru = Ret (?cp, ?packed,
      if transaction_mode p then (length ds + 1, 1) else (0, length ds), lru1)"
    using r(1) by (cases "pipeline_new") (simp add: get_cached_pipeline_def atomic_def Let_def)
  moreover have "\<exists>lru2. resolve_pipeline E cm now ?cp (VArray (server_result srv ?packed)) lru1 =
      Ret (Inr (server_result srv p), lru2) \<and> coherent E cm srv U lru2" for now
  proof -
    obtain lru2 where "resolve_items E cm now items (map (srv \<circ> simple_args) ds) lru1 = Ret (Inr (map (srv \<circ> simple_args) (commands p)), lru2)"
      "coherent E cm srv U lru2" using r(2,3) unfolding resolvable_def by blast
    then show ?thesis by (simp add: resolve_pipeline_def server_result_def Let_def)
  qed
  ultimately show ?thesis by (intro exI [of _ ?cp] exI [of _ ?packed] exI [of _ lru1] exI conjI) (auto simp: server_result_def Let_def)
qed

text \<open>The life of a cache: it is created with a manager; requests are answered with its help; a key is
  written, by anybody, and the message that says so is handled; and the connection is replaced,
  after which anything may have changed.\<close>

inductive cache_reached ::
    "'m cache_prims \<Rightarrow> bytes list set \<Rightarrow> CacheManager \<Rightarrow> (bytes list \<Rightarrow> Value) \<Rightarrow> 'm ShardedLRU \<Rightarrow> bool"
  for E U where
  created: "cache_manager_new E config = (cm, lru) \<Longrightarrow> 0 < cc_size config \<Longrightarrow> cache_reached E U cm srv lru"
| requested: "cache_reached E U cm srv lru \<Longrightarrow> serves srv U \<Longrightarrow> request_covered U p \<Longrightarrow>
    get_cached_pipeline E cm clocks p lru = Ret (cp, packed, counts, lru1) \<Longrightarrow>
    resolve_pipeline E cm now cp (VArray (server_result srv packed)) lru1 = Ret (answer, lru2) \<Longrightarrow>
    cache_reached E U cm srv lru2"
| written: "cache_reached E U cm srv lru \<Longrightarrow> (\<And>xs. xs \<in> U \<Longrightarrow> xs ! 1 \<noteq> k \<Longrightarrow> srv' xs = srv xs) \<Longrightarrow>
    cache_reached E U cm srv' (handle_push_value E Invalidate [VArray [BulkString k]] lru)"
| reconnected: "cache_reached E U cm srv lru \<Longrightarrow> last_epoch lru \<noteq> - 1 \<Longrightarrow>
    clone_and_increase_epoch cm lru = (cm', lru') \<Longrightarrow> cache_reached E U cm' srv' lru'"

lemma handle_invalidate: "handle_push_value E Invalidate [VArray (BulkString k # ks)] lru = sharded_invalidate E k lru"
  by (simp add: handle_push_value_def from_vec_def from_redis_impl_def vec_ref_def from_u8_def)

lemma u64_less_succ:
  fixes x :: u64
  assumes "x \<noteq> - 1"
  shows "x < x + 1"
proof -
  have "unat x \<noteq> unat (- 1 :: u64)" using assms by (metis word_unat_eq_iff)
  moreover have "unat (- 1 :: u64) = 2 ^ 64 - 1" by (simp add: unsigned_minus_1_eq_mask mask_eq_exp_minus_1)
  ultimately have "unat x + unat (1 :: u64) < 2 ^ LENGTH(64)"
    using unsigned_less [where 'a = nat and w = x] by simp
  then have "unat (x + 1) = unat x + unat (1 :: u64)" by (rule unat_add_lem [THEN iffD1])
  then show ?thesis by (simp add: word_less_nat_alt)
qed

lemma cache_reached_coherent:
  assumes E: "cache_prims_ok E" and U: "unambiguous U" and "cache_reached E U cm srv lru"
  shows "coherent E cm srv U lru"
  using assms(3)
proof induction
  case (created config cm lru srv)
  then have "shards lru = shards (sharded_lru_new E (cc_size config))" "last_epoch lru = 1" "cm_epoch cm = 0"
    by (auto simp: cache_manager_new_def increase_epoch_def sharded_lru_new_def Let_def)
  then show ?case using sharded_new_empty [OF E created(2)] cached_item_cong [of lru "sharded_lru_new E (cc_size config)"]
    by (simp add: coherent_def cached_reply_def)
next
  case (requested cm srv lru p clocks cp packed counts lru1 now answer lru2)
  have "\<exists>lru3. resolve_pipeline E cm now cp (VArray (server_result srv packed)) lru1 = Ret (Inr (server_result srv p), lru3) \<and>
      coherent E cm srv U lru3"
    using cached_pipeline_coherent [OF E U requested(2) requested.IH requested(3), of clocks] by (auto simp: requested(4))
  then show ?case using requested(5) by auto
next
  case (written cm srv lru k srv')
  then show ?case using coherent_invalidate [OF E written.IH] by (simp add: handle_invalidate)
next
  case (reconnected cm srv lru cm' lru' srv')
  then have l: "cm_epoch cm' = last_epoch lru" "last_epoch lru' = last_epoch lru + 1" "shards lru' = shards lru"
    by (auto simp: clone_and_increase_epoch_def increase_epoch_def Let_def)
  have items: "cached_item E lru' k = cached_item E lru k" for k by (rule cached_item_cong) (rule l(3))
  have up: "last_epoch lru < last_epoch lru + 1" using reconnected(2) by (rule u64_less_succ)
  have old: "it_epoch it < last_epoch lru" if "cached_item E lru k = Some it" for k it
    using that reconnected.IH by (simp add: coherent_def)
  have "cached_reply E (last_epoch lru) lru' k c = None" for k c
    using old [of k] by (cases "cached_item E lru k") (auto simp: cached_reply_def items)
  then show ?case using reconnected.IH up old order.strict_trans [OF old up]
    by (simp add: coherent_def l items)
qed


text \<open>A cache as a list, the most recently used key first, to evaluate the operations on.\<close>

definition list_lru :: "(nat \<times> (bytes \<times> CacheItem) list) cache_prims" where
  "list_lru =
     \<lparr>cp_hash = (\<lambda>k. of_nat (length k)),
      cp_new = (\<lambda>n. (n, [])),
      cp_get_mut = (\<lambda>k (n, xs). (map_of xs k, n, case map_of xs k of None \<Rightarrow> xs | Some it \<Rightarrow> (k, it) # AList.delete k xs)),
      cp_peek = (\<lambda>k (n, xs). map_of xs k),
      cp_write = (\<lambda>k it (n, xs). (n, AList.update k it xs)),
      cp_push = (\<lambda>k it (n, xs). (n, (k, it) # take (n - 1) (AList.delete k xs))),
      cp_pop = (\<lambda>k (n, xs). (map_of xs k, n, AList.delete k xs))\<rparr>"

lemma map_of_take: "map_of (take n xs) k \<in> {None, map_of xs k}"
proof (induction n arbitrary: xs)
  case (Suc n)
  then show ?case by (cases xs) auto
qed simp

lemma list_lru_ok: "cache_prims_ok list_lru"
proof -
  have "map_of (take n (AList.delete k xs)) k' \<in> {None, map_of xs k'}" if "k' \<noteq> k" for n k k' and xs :: "(bytes \<times> CacheItem) list"
    using map_of_take [of n "AList.delete k xs" k'] that by (simp add: delete_conv')
  then show ?thesis
    by (auto simp: cache_prims_ok_def list_lru_def update_conv' delete_conv' split: option.splits)
qed

definition witness_server :: "bytes list \<Rightarrow> Value" where
  "witness_server xs = (if hd xs = ''MGET'' then VArray (map BulkString (tl xs)) else BulkString (last xs))"

definition witness_manager :: CacheManager where
  "witness_manager = \<lparr>cm_config = cache_config_new\<lparr>cc_size := 4\<rparr>, cm_epoch = 0\<rparr>"

abbreviation witness_cache :: "(nat \<times> (bytes \<times> CacheItem) list) ShardedLRU" where
  "witness_cache \<equiv> snd (cache_manager_new list_lru (cache_config_new\<lparr>cc_size := 4\<rparr>))"

definition witness_request :: "bytes list list \<Rightarrow> Pipeline" where
  "witness_request cs = pipeline_new\<lparr>commands := map cmd_of_args cs\<rparr>"

abbreviation witness_uses :: "bytes list set" where
  "witness_uses \<equiv> {[''GET'', ''a''], [''GET'', ''b'']}"

lemma witness_args:
  assumes "n \<noteq> []"
  shows "plain_cmd (cmd_of_args [n, k])" and "simple_args (cmd_of_args [n, k]) = [n, k]"
    and "plain_cmd (cmd_of_args [n, k, k'])" and "simple_args (cmd_of_args [n, k, k']) = [n, k, k']"
  using plain_cmd_of_args [of "[n, k]"] plain_cmd_of_args [of "[n, k, k']"] assms by simp_all

lemma witness_commands: "commands (witness_request cs) = map cmd_of_args cs" "\<not> transaction_mode (witness_request cs)"
  by (simp_all add: witness_request_def pipeline_new_def pipeline_with_capacity_def)

lemma witness_uses_ok:
  "unambiguous witness_uses" "serves witness_server witness_uses"
  "request_covered witness_uses (witness_request [[''GET'', ''a'']])"
  "request_covered witness_uses (witness_request [[''MGET'', ''a'', ''b''], [''GET'', ''a'']])"
  using witness_args
  by (auto simp: unambiguous_def serves_def witness_server_def part_args_def neq_Nil_conv request_covered_def
      witness_commands less_Suc_eq)

lemma witness_cache_reached: "cache_reached list_lru U witness_manager srv witness_cache"
proof -
  have "cache_manager_new list_lru (cache_config_new\<lparr>cc_size := 4\<rparr>) = (witness_manager, witness_cache)"
    by (simp add: cache_manager_new_def witness_manager_def increase_epoch_def sharded_lru_new_def Let_def split: prod.splits)
  then show ?thesis by (rule created) (simp add: cache_config_new_def)
qed

lemma witness_result:
  "server_result witness_server (witness_request [[''MGET'', ''a'', ''b''], [''GET'', ''a'']]) =
     [VArray [BulkString ''a'', BulkString ''b''], BulkString ''a'']"
  using witness_args by (simp add: server_result_def witness_commands witness_server_def)


section \<open>Where cached answers differ\<close>

text \<open>A command on one key, as it goes through the cache.\<close>

definition cached_by_key :: "CacheManager \<Rightarrow> Cmd \<Rightarrow> bytes \<Rightarrow> bool" where
  "cached_by_key cm c key \<longleftrightarrow> cc_mode (cm_config cm) = CacheAll \<and> plain_cmd c \<and>
     (\<exists>name args. simple_args c = name # key # args \<and> is_cachable_cmd name \<and> is_multi_key name = None)"

lemma get_cached_cmd_by_key:
  assumes "cached_by_key cm c key"
  shows "get_cached_cmd E cm clock c lru =
    (let (found, lru1) = cache_get E cm (clock 1) key (concat (simple_args c)) lru
     in Ret (case found of
               Some v \<Rightarrow> Cached v
             | None \<Rightarrow> NotCached (CachedSingle \<lparr>sc_redis_key = key, sc_cmd_key = concat (simple_args c), sc_cmd = c,
                 sc_expire = calculate_expiration_time cm (clock 0) c\<rparr>), lru1))"
proof -
  obtain name args where c: "cc_mode (cm_config cm) = CacheAll" "plain_cmd c" "simple_args c = name # key # args"
    "is_cachable_cmd name" "is_multi_key name = None"
    using assms by (auto simp: cached_by_key_def)
  obtain n where "2 \<le> n" "cmd_len c = Ret n" using plain_cmd_len [OF c(2)] by blast
  then have "get_cached_cmd E cm clock c lru =
      handle_single_key_command E cm (clock 1) c (calculate_expiration_time cm (clock 0) c) lru"
    using c by (simp add: get_cached_cmd_def get_cached_cmd_inner_def plain_arg_idx get_idx_def Let_def)
  then show ?thesis using c(2,3) plain_cmd_data [OF c(2)]
    by (simp add: handle_single_key_command_def plain_arg_idx get_idx_def Let_def split: prod.splits option.splits)
qed

lemma reply_found_again:
  assumes E: "cache_prims_ok E" and lru: "shards lru \<noteq> []"
    and c: "cached_by_key cm c key" "cached_by_key cm c' key" "concat (simple_args c) = concat (simple_args c')"
    and miss: "get_cached_cmd E cm clock c lru = Ret (NotCached cc, lru1)"
    and reply: "resolve_cacheable E cm now cc [VInt (- 1), reply] lru1 = Ret (Inr reply, [], lru2)" "\<not> is_server_error reply"
    and time: "clock' 1 \<le> calculate_expiration_time cm (clock 0) c"
  shows "\<exists>lru3. get_cached_cmd E cm clock' c' lru2 = Ret (Cached reply, lru3)"
proof -
  let ?k = "concat (simple_args c)"
  obtain found lruk where g: "cache_get E cm (clock 1) key ?k lru = (found, lruk)" by fastforce
  then have cc: "cc = CachedSingle \<lparr>sc_redis_key = key, sc_cmd_key = ?k, sc_cmd = c, sc_expire = calculate_expiration_time cm (clock 0) c\<rparr>"
      "lru1 = lruk"
    using miss by (auto simp: get_cached_cmd_by_key [OF c(1)] split: option.splits)
  have ne: "shards lru1 \<noteq> []" using g lru sharded_get_shards [of E "clock 1" key ?k "cm_epoch cm" lru] by (simp add: cc(2) cache_get_def)
  have "int_cast True 64 (- 1) = - 1" by code_simp
  then have "lru2 = sharded_insert E key ?k reply (calculate_expiration_time cm (clock 0) c) (cm_epoch cm) lru1"
    using reply c(1) by (simp add: resolve_cacheable_def cached_by_key_def resolve_replies_def cc(1) cache_insert_def
        from_signed_def from_num_def from_redis_impl_def num_ref_def get_inner_value_def Let_def)
  note i = sharded_insert_spec [OF E ne this]
  have "fst (cache_get E cm (clock' 1) key ?k lru2) = Some reply"
    using i(2,3) time by (auto simp: cache_get_def sharded_get_spec(1) [OF E i(1)])
  then obtain lru3 where "cache_get E cm (clock' 1) key ?k lru2 = (Some reply, lru3)"
    by (cases "cache_get E cm (clock' 1) key ?k lru2") simp
  then show ?thesis by (simp add: get_cached_cmd_by_key [OF c(2)] c(3))
qed

text \<open>C36.  Two different commands on a key whose arguments have the same concatenation share an entry of the
  cache: after the reply of one is cached, the other is answered with it and not sent.\<close>

theorem ambiguous_commands_share_replies:
  assumes E: "cache_prims_ok E" and lru: "shards lru \<noteq> []"
    and c: "cached_by_key cm c key" "cached_by_key cm c' key" "concat (simple_args c) = concat (simple_args c')"
    and miss: "get_cached_cmd E cm clock c lru = Ret (NotCached cc, lru1)"
    and reply: "resolve_cacheable E cm now cc [VInt (- 1), reply] lru1 = Ret (Inr reply, [], lru2)" "\<not> is_server_error reply"
    and time: "clock' 1 \<le> calculate_expiration_time cm (clock 0) c"
  shows "\<exists>lru3. get_cached_cmd E cm clock' c' lru2 = Ret (Cached reply, lru3)"
  using reply_found_again [OF E lru c miss reply, of clock'] time by blast

lemma witness_by_key:
  assumes "name \<noteq> []" and "is_cachable_cmd name" and "is_multi_key name = None"
  shows "cached_by_key witness_manager (cmd_of_args (name # key # args)) key \<and> simple_args (cmd_of_args (name # key # args)) = name # key # args"
  using plain_cmd_of_args [of "name # key # args"] assms
  by (simp add: cached_by_key_def witness_manager_def cache_config_new_def)

lemma witness_expiry: "3 \<le> calculate_expiration_time witness_manager 1 (cmd_of_args cs)"
proof -
  have "ccache (cmd_of_args cs) = None"
    by (induction cs rule: rev_induct) (simp_all add: cmd_of_args_def cmd_new_def cmd_write_arg_def Let_def)
  then show ?thesis by (simp add: calculate_expiration_time_def witness_manager_def cache_config_new_def)
qed

lemma witness_cache_empty: "shards witness_cache \<noteq> []" "cached_item list_lru witness_cache k = None"
  using sharded_new_empty [OF list_lru_ok, of 4] cached_item_cong [of witness_cache "sharded_lru_new list_lru 4"]
  by (simp_all add: cache_manager_new_def cache_config_new_def increase_epoch_def Let_def)

lemma witness_first_use:
  assumes "cached_by_key witness_manager c key"
  shows "\<exists>cc lru1 lru2. get_cached_cmd list_lru witness_manager (\<lambda>_. 1) c witness_cache = Ret (NotCached cc, lru1) \<and>
           resolve_cacheable list_lru witness_manager (\<lambda>_. 2) cc [VInt (- 1), BulkString x] lru1 = Ret (Inr (BulkString x), [], lru2) \<and>
           shards lru2 \<noteq> []"
proof -
  have "fst (cache_get list_lru witness_manager 1 key (concat (simple_args c)) witness_cache) = None"
    by (simp add: cache_get_def sharded_get_spec(1) [OF list_lru_ok witness_cache_empty(1)] witness_cache_empty(2))
  then obtain lru1 where g: "cache_get list_lru witness_manager 1 key (concat (simple_args c)) witness_cache = (None, lru1)"
    by (cases "cache_get list_lru witness_manager 1 key (concat (simple_args c)) witness_cache") simp
  then have "shards lru1 \<noteq> []"
    using sharded_get_shards [of list_lru 1 key "concat (simple_args c)" "cm_epoch witness_manager" witness_cache] witness_cache_empty(1)
    by (simp add: cache_get_def)
  then have "shards (sharded_insert list_lru key d v e w lru1) \<noteq> []" for d v e w
    by (rule sharded_insert_spec(1) [OF list_lru_ok _ refl])
  then have "shards (cache_insert list_lru witness_manager 2 key d v e w lru1) \<noteq> []" for d v e w
    by (simp add: cache_insert_def Let_def)
  moreover have "cc_mode (cm_config witness_manager) = CacheAll"
    by (simp add: witness_manager_def cache_config_new_def)
  ultimately show ?thesis using g
    by (simp add: get_cached_cmd_by_key [OF assms] resolve_cacheable_def resolve_replies_def is_server_error_def)
qed

theorem ambiguous_commands_share_replies_witness:
  "\<exists>cc lru1 lru2 lru3.
     get_cached_cmd list_lru witness_manager (\<lambda>_. 1) (cmd_of_args [''GETRANGE'', ''k'', ''1'', ''23'']) witness_cache = Ret (NotCached cc, lru1) \<and>
     resolve_cacheable list_lru witness_manager (\<lambda>_. 2) cc [VInt (- 1), BulkString ''x''] lru1 = Ret (Inr (BulkString ''x''), [], lru2) \<and>
     get_cached_cmd list_lru witness_manager (\<lambda>_. 3) (cmd_of_args [''GETRANGE'', ''k'', ''12'', ''3'']) lru2 = Ret (Cached (BulkString ''x''), lru3)"
proof -
  let ?c = "cmd_of_args [''GETRANGE'', ''k'', ''1'', ''23'']"
  have name: "''GETRANGE'' \<noteq> []" "is_cachable_cmd ''GETRANGE''" "is_multi_key ''GETRANGE'' = None"
    by (simp_all add: is_cachable_cmd_def command_properties_def cacheable_commands_def is_multi_key_def)
  note k = witness_by_key [OF name, of "''k''" "[''1'', ''23'']"] witness_by_key [OF name, of "''k''" "[''12'', ''3'']"]
  obtain cc lru1 lru2 where r: "get_cached_cmd list_lru witness_manager (\<lambda>_. 1) ?c witness_cache = Ret (NotCached cc, lru1)"
    "resolve_cacheable list_lru witness_manager (\<lambda>_. 2) cc [VInt (- 1), BulkString ''x''] lru1 = Ret (Inr (BulkString ''x''), [], lru2)"
    using witness_first_use [OF conjunct1 [OF k(1)]] by blast
  show ?thesis
    using ambiguous_commands_share_replies [OF list_lru_ok witness_cache_empty(1) conjunct1 [OF k(1)] conjunct1 [OF k(2)] _ r, of "\<lambda>_. 3"] k r
      witness_expiry [of "[''GETRANGE'', ''k'', ''1'', ''23'']"]
    by (auto simp: is_server_error_def)
qed

text \<open>C37.  A reply is cached under the first argument of its command only.  For a command that reads other
  keys as well, such as a union of sets, or whose first argument is the number of its keys, the message
  that another of its keys was written leaves the reply in the cache, and so does the
  message that the whole database was flushed.\<close>

theorem reply_outlives_writes_of_other_keys:
  assumes E: "cache_prims_ok E" and lru: "shards lru \<noteq> []" and c: "cached_by_key cm c key"
    and hit: "get_cached_cmd E cm clock c lru = Ret (Cached v, lru1)" and k: "k \<in> set (simple_args c)" "k \<noteq> key"
  shows "(\<exists>lru2. get_cached_cmd E cm clock c (handle_push_value E Invalidate [VArray [BulkString k]] lru1) = Ret (Cached v, lru2)) \<and>
         (\<exists>lru2. get_cached_cmd E cm clock c (handle_push_value E Invalidate [VNil] lru1) = Ret (Cached v, lru2))"
proof -
  let ?c = "concat (simple_args c)"
  let ?g = "sharded_get E (clock 1) key ?c (cm_epoch cm) lru"
  have g: "fst ?g = Some v" "lru1 = snd ?g"
    using hit by (auto simp: get_cached_cmd_by_key [OF c] cache_get_def Let_def split: prod.splits option.splits)
  have ne: "shards lru1 \<noteq> []" using lru by (simp add: g(2))
  obtain it where it: "cached_item E lru key = Some it" "clock 1 \<le> expire_time it" "cached_reply E (cm_epoch cm) lru key ?c = Some v"
    using g(1) by (auto simp: sharded_get_spec(1) [OF E lru] split: option.splits if_splits)
  then have "it_epoch it = cm_epoch cm" by (auto simp: cached_reply_def split: if_splits)
  then have kept: "cached_item E lru1 key = Some it" using it by (simp add: g(2) sharded_get_spec(2) [OF E lru])
  have found: "\<exists>lru2. get_cached_cmd E cm clock c lru' = Ret (Cached v, lru2)"
    if "shards lru' \<noteq> []" "cached_item E lru' key = Some it" for lru'
  proof -
    have "fst (sharded_get E (clock 1) key ?c (cm_epoch cm) lru') = Some v"
      using it that(2) by (simp add: sharded_get_spec(1) [OF E that(1)] cached_reply_def)
    then obtain lru2 where "cache_get E cm (clock 1) key ?c lru' = (Some v, lru2)"
      by (cases "cache_get E cm (clock 1) key ?c lru'") (simp add: cache_get_def)
    then show ?thesis by (simp add: get_cached_cmd_by_key [OF c])
  qed
  note inv = sharded_invalidate_spec [OF E ne, of k]
  have "handle_push_value E Invalidate [VNil] lru1 = lru1" by (simp add: handle_push_value_def)
  then show ?thesis
    using found [OF inv(1)] found [OF ne kept] inv(2) [of key] k(2) kept by (simp add: handle_invalidate)
qed

theorem reply_outlives_writes_of_other_keys_witness:
  "\<exists>lru lru2. get_cached_cmd list_lru witness_manager (\<lambda>_. 3) (cmd_of_args [''ZUNION'', ''2'', ''a'', ''b''])
     (handle_push_value list_lru Invalidate [VArray [BulkString ''a'']] lru) = Ret (Cached (BulkString ''x''), lru2)"
proof -
  let ?c = "cmd_of_args [''ZUNION'', ''2'', ''a'', ''b'']"
  have name: "''ZUNION'' \<noteq> []" "is_cachable_cmd ''ZUNION''" "is_multi_key ''ZUNION'' = None"
    by (simp_all add: is_cachable_cmd_def command_properties_def cacheable_commands_def is_multi_key_def)
  note k = witness_by_key [OF name, of "''2''" "[''a'', ''b'']"]
  obtain cc lru1 lru2 where r: "get_cached_cmd list_lru witness_manager (\<lambda>_. 1) ?c witness_cache = Ret (NotCached cc, lru1)"
    "resolve_cacheable list_lru witness_manager (\<lambda>_. 2) cc [VInt (- 1), BulkString ''x''] lru1 = Ret (Inr (BulkString ''x''), [], lru2)"
    "shards lru2 \<noteq> []"
    using witness_first_use [OF conjunct1 [OF k]] by blast
  obtain lru3 where "get_cached_cmd list_lru witness_manager (\<lambda>_. 3) ?c lru2 = Ret (Cached (BulkString ''x''), lru3)"
    using reply_found_again [OF list_lru_ok witness_cache_empty(1) conjunct1 [OF k] conjunct1 [OF k] refl r(1,2), of "\<lambda>_. 3"]
      witness_expiry [of "[''ZUNION'', ''2'', ''a'', ''b'']"]
    by (auto simp: is_server_error_def)
  from reply_outlives_writes_of_other_keys [OF list_lru_ok r(3) conjunct1 [OF k] this, of "''a''"] k
  show ?thesis by auto
qed



end
