(* ===== verification/Multiplexed_Replies.thy ===== *)
theory Multiplexed_Replies
  imports Multiplexed_Connection Cache_Transparency Sync_Replies
begin

text \<open>
  What the shared connection promises: the replies are dealt out to the requests in the order in which these
  were sent, whatever the order in which sending and receiving alternate.
\<close>

section \<open>What each request is due\<close>

definition needed :: "PipelineMessage \<Rightarrow> nat" where
  "needed m = (case pm_expectation m of None \<Rightarrow> 1 | Some e \<Rightarrow> skipped_response_count e + expected_response_count e)"

definition message_ok :: "PipelineMessage \<Rightarrow> bool" where
  "message_ok m = (case pm_expectation m of None \<Rightarrow> True | Some e \<Rightarrow> 0 < expected_response_count e \<and> seen_responses e = 0)"

text \<open>The errors among the replies that are skipped, by the position of their command: the first reply is that of
  MULTI.\<close>

definition queue_errors :: "PipelineResponseExpectation \<Rightarrow> Value list \<Rightarrow> (nat \<times> ServerError) list" where
  "queue_errors e ws = (if pe_is_transaction e then map (\<lambda>(i, err). (i - 1, err)) (indexed_errors ws) else [])"

definition answer_to :: "PipelineMessage \<Rightarrow> Value list \<Rightarrow> Value redis_result" where
  "answer_to m ws = (case pm_expectation m of
     None \<Rightarrow> Inr (hd ws)
   | Some e \<Rightarrow>
       (let errors = queue_errors e (take (skipped_response_count e) ws)
        in if errors = [] then Inr (VArray (drop (skipped_response_count e) ws)) else Inl (TransactionAborted errors)))"

text \<open>The answers when the replies are dealt out to the requests in order, and the requests still waiting.\<close>

fun answers :: "PipelineMessage list \<Rightarrow> Value list \<Rightarrow> (nat \<times> Value redis_result) list" where
  "answers [] vs = []"
| "answers (m # ms) vs =
     (if needed m \<le> length vs
      then (case pm_output m of Some ch \<Rightarrow> [(ch, answer_to m (take (needed m) vs))] | None \<Rightarrow> []) @ answers ms (drop (needed m) vs)
      else [])"

definition collecting :: "PipelineMessage \<Rightarrow> Value list \<Rightarrow> InFlight" where
  "collecting m ws = \<lparr>if_output = pm_output m, if_aggregate = (case pm_expectation m of
     None \<Rightarrow> SingleCommand
   | Some e \<Rightarrow>
       PipelineResponse (drop (skipped_response_count e) ws) (Errors (queue_errors e (take (skipped_response_count e) ws)))
         (e\<lparr>skipped_response_count := skipped_response_count e - length ws, seen_responses := length ws\<rparr>))\<rparr>"

fun waiting :: "PipelineMessage list \<Rightarrow> Value list \<Rightarrow> InFlight list" where
  "waiting [] vs = []"
| "waiting (m # ms) vs =
     (if needed m \<le> length vs then waiting ms (drop (needed m) vs)
      else collecting m vs # map (\<lambda>m'. collecting m' []) ms)"

text \<open>The server accepts MULTI.\<close>

fun multi_accepted :: "PipelineMessage list \<Rightarrow> Value list \<Rightarrow> bool" where
  "multi_accepted [] vs \<longleftrightarrow> True"
| "multi_accepted (m # ms) vs \<longleftrightarrow>
     (case pm_expectation m of
        Some e \<Rightarrow> pe_is_transaction e \<longrightarrow> 0 < skipped_response_count e \<longrightarrow> vs \<noteq> [] \<longrightarrow> \<not> is_server_error (hd vs)
      | None \<Rightarrow> True) \<and> multi_accepted ms (drop (needed m) vs)"

lemma needed_pos: "message_ok m \<Longrightarrow> 0 < needed m"
  by (auto simp: message_ok_def needed_def split: option.splits)

lemma collecting_fresh:
  "message_ok m \<Longrightarrow> collecting m [] = \<lparr>if_output = pm_output m, if_aggregate = response_aggregate_new (pm_expectation m)\<rparr>"
  by (auto simp: collecting_def response_aggregate_new_def message_ok_def queue_errors_def indexed_errors_def List.map_filter_simps
      split: option.splits)

lemma answers_snoc:
  assumes "length vs \<le> sum_list (map needed ms)" and "message_ok m"
  shows "answers (ms @ [m]) vs = answers ms vs" and "waiting (ms @ [m]) vs = waiting ms vs @ [collecting m []]"
  using assms needed_pos [OF assms(2)]
  by (induction ms arbitrary: vs) auto

lemma indexed_errors_snoc:
  "indexed_errors (ws @ [v]) = indexed_errors ws @ (case v of VServerError e \<Rightarrow> [(length ws, e)] | _ \<Rightarrow> [])"
  by (simp add: indexed_errors_def enumerate_append_eq List.map_filter_simps split: Value.splits)

text \<open>One more reply for a request that is still collecting.\<close>

lemma collect_one:
  assumes "message_ok m" and "pm_expectation m = Some e" and "length ws < needed m"
    and "pe_is_transaction e \<Longrightarrow> 0 < skipped_response_count e \<Longrightarrow> ws = [] \<Longrightarrow> \<not> is_server_error v"
  shows "\<exists>buffer errs e'. if_aggregate (collecting m ws) = PipelineResponse buffer errs e' \<and>
           collect_response (Inr v) buffer errs e' =
             Ret (if length ws + 1 < needed m then Inl (if_aggregate (collecting m (ws @ [v])))
                  else Inr (answer_to m (ws @ [v])))"
proof (cases "length ws < skipped_response_count e")
  case True
  then have "length ws + 1 < needed m" using assms(1,2) by (simp add: needed_def message_ok_def)
  moreover have "take (skipped_response_count e) ws = ws" "drop (skipped_response_count e) ws = []"
    "take (skipped_response_count e) (ws @ [v]) = ws @ [v]" "drop (skipped_response_count e) (ws @ [v]) = []"
    using True by simp_all
  moreover have "is_server_error v \<Longrightarrow> pe_is_transaction e \<Longrightarrow> ws \<noteq> []" using assms(4) True by fastforce
  ultimately show ?thesis using True assms(2)
    by (cases "pe_is_transaction e"; cases v)
      (simp_all add: collecting_def collect_response_def queue_errors_def indexed_errors_snoc is_server_error_def Let_def)
next
  case False
  then have n: "length ws + 1 < needed m \<longleftrightarrow> length ws - skipped_response_count e + 1 < expected_response_count e"
    using assms(2,3) by (auto simp: needed_def)
  have "take (skipped_response_count e) (ws @ [v]) = take (skipped_response_count e) ws"
    "drop (skipped_response_count e) (ws @ [v]) = drop (skipped_response_count e) ws @ [v]"
    using False by simp_all
  then show ?thesis using False assms(2) n
    by (simp add: collecting_def collect_response_def answer_to_def Let_def split: list.splits)
qed

section \<open>Replies arrive at their requests\<close>

lemma waiting_nil: "\<forall>m \<in> set ms. message_ok m \<Longrightarrow> waiting ms [] = map (\<lambda>m. collecting m []) ms"
  by (cases ms) (auto dest: needed_pos)

lemma answers_nil: "\<forall>m \<in> set ms. message_ok m \<Longrightarrow> answers ms [] = []"
  by (cases ms) (auto dest: needed_pos)

lemma deliver_to_first:
  assumes "\<forall>m' \<in> set (m # ms). message_ok m'" and "length vs < needed m" and "multi_accepted (m # ms) (vs @ [v])"
    and "ps_in_flight s = waiting (m # ms) vs"
  shows "\<exists>outs. answers (m # ms) (vs @ [v]) = outs \<and> answers (m # ms) vs = [] \<and>
           deliver (Inr v) s = Ret (s\<lparr>ps_in_flight := waiting (m # ms) (vs @ [v]), ps_outputs := ps_outputs s @ outs\<rparr>)"
proof (cases "pm_expectation m")
  case None
  then have "vs = []" "needed m = 1" using assms(2) by (simp_all add: needed_def)
  then show ?thesis using assms None waiting_nil [of ms] answers_nil [of ms]
    by (auto simp: deliver_def collecting_def answer_to_def send_output_def split: option.splits)
next
  case (Some e)
  have q: "ps_in_flight s = collecting m vs # map (\<lambda>m'. collecting m' []) ms" using assms(2,4) by simp
  have ok: "message_ok m" using assms(1) by simp
  have "pe_is_transaction e \<Longrightarrow> 0 < skipped_response_count e \<Longrightarrow> vs = [] \<Longrightarrow> \<not> is_server_error v"
    using assms(3) Some by simp
  from collect_one [OF ok Some assms(2) this] obtain buffer errs e' where
    c: "if_aggregate (collecting m vs) = PipelineResponse buffer errs e'"
      "collect_response (Inr v) buffer errs e' = Ret (if length vs + 1 < needed m then Inl (if_aggregate (collecting m (vs @ [v])))
                  else Inr (answer_to m (vs @ [v])))" by blast
  have out: "if_output (collecting m vs) = pm_output m" "(collecting m vs)\<lparr>if_aggregate := if_aggregate (collecting m (vs @ [v]))\<rparr> = collecting m (vs @ [v])"
    by (simp_all add: collecting_def)
  show ?thesis
  proof (cases "length vs + 1 < needed m")
    case True
    then show ?thesis using assms(2) c out q by (simp add: deliver_def)
  next
    case False
    then have "needed m = length (vs @ [v])" using assms(2) by simp
    then show ?thesis using c out q False assms(1) waiting_nil [of ms] answers_nil [of ms]
      by (auto simp: deliver_def send_output_def split: option.splits)
  qed
qed

lemma deliver_step:
  assumes "\<forall>m \<in> set ms. message_ok m" and "length vs < sum_list (map needed ms)" and "multi_accepted ms (vs @ [v])"
    and "ps_in_flight s = waiting ms vs"
  shows "\<exists>outs. answers ms (vs @ [v]) = answers ms vs @ outs \<and>
           deliver (Inr v) s = Ret (s\<lparr>ps_in_flight := waiting ms (vs @ [v]), ps_outputs := ps_outputs s @ outs\<rparr>)"
  using assms
proof (induction ms arbitrary: vs)
  case (Cons m ms)
  show ?case
  proof (cases "needed m \<le> length vs")
    case True
    then have t: "take (needed m) (vs @ [v]) = take (needed m) vs" "drop (needed m) (vs @ [v]) = drop (needed m) vs @ [v]"
      by simp_all
    have "length (drop (needed m) vs) < sum_list (map needed ms)" "multi_accepted ms (drop (needed m) vs @ [v])"
      "ps_in_flight s = waiting ms (drop (needed m) vs)" "\<forall>m \<in> set ms. message_ok m"
      using Cons.prems True t(2) by auto
    then obtain outs where "answers ms (drop (needed m) vs @ [v]) = answers ms (drop (needed m) vs) @ outs"
      "deliver (Inr v) s = Ret (s\<lparr>ps_in_flight := waiting ms (drop (needed m) vs @ [v]), ps_outputs := ps_outputs s @ outs\<rparr>)"
      using Cons.IH by blast
    then show ?thesis using True t by (intro exI [of _ outs]) (cases "pm_output m"; simp)
  next
    case False
    then show ?thesis using deliver_to_first [OF Cons.prems(1) _ Cons.prems(3,4)] by auto
  qed
qed simp

section \<open>Sending and receiving in any order\<close>

datatype sink_event = Sent PipelineMessage | Arrived Value

fun run_events :: "'m cache_prims \<Rightarrow> sink_event list \<Rightarrow> 'm PipelineSink \<Rightarrow> 'm PipelineSink run" where
  "run_events E [] s = Ret s"
| "run_events E (Sent m # es) s = run_events E es (snd (sink_start_send {} (Inr ()) m s))"
| "run_events E (Arrived v # es) s = run_bind (sink_poll_read E [Some (Inr v)] s) (\<lambda>(_, s1). run_events E es s1)"

definition is_reply :: "Value \<Rightarrow> bool" where
  "is_reply v = (case v of VPush kind _ \<Rightarrow> has_reply kind | _ \<Rightarrow> True)"

definition sent_messages :: "sink_event list \<Rightarrow> PipelineMessage list" where
  "sent_messages es = List.map_filter (\<lambda>e. case e of Sent m \<Rightarrow> Some m | Arrived _ \<Rightarrow> None) es"

definition arrived_replies :: "sink_event list \<Rightarrow> Value list" where
  "arrived_replies es = List.map_filter (\<lambda>e. case e of Arrived v \<Rightarrow> if is_reply v then Some v else None | Sent _ \<Rightarrow> None) es"

definition arrived_pushes :: "sink_event list \<Rightarrow> PushInfo list" where
  "arrived_pushes es = List.map_filter (\<lambda>e. case e of Arrived (VPush kind data) \<Rightarrow> Some (kind, data) | _ \<Rightarrow> None) es"

text \<open>The server replies only to what was sent; \<open>due\<close> is the number of replies still to come.\<close>

fun causal :: "nat \<Rightarrow> sink_event list \<Rightarrow> bool" where
  "causal due [] \<longleftrightarrow> True"
| "causal due (Sent m # es) \<longleftrightarrow> causal (due + needed m) es"
| "causal due (Arrived v # es) \<longleftrightarrow> (if is_reply v then 0 < due \<and> causal (due - 1) es else causal due es)"

lemma events_simps [simp]:
  "sent_messages [] = []" "sent_messages (Sent m # es) = m # sent_messages es" "sent_messages (Arrived v # es) = sent_messages es"
  "arrived_replies [] = []" "arrived_replies (Sent m # es) = arrived_replies es"
  "arrived_replies (Arrived v # es) = (if is_reply v then [v] else []) @ arrived_replies es"
  "arrived_pushes [] = []" "arrived_pushes (Sent m # es) = arrived_pushes es"
  "arrived_pushes (Arrived v # es) = (case v of VPush kind data \<Rightarrow> [(kind, data)] | _ \<Rightarrow> []) @ arrived_pushes es"
  by (simp_all add: sent_messages_def arrived_replies_def arrived_pushes_def List.map_filter_simps split: Value.splits)

lemma multi_accepted_prefix: "multi_accepted (ms @ ms') (vs @ ws) \<Longrightarrow> multi_accepted ms vs"
  by (induction ms arbitrary: vs ws) (auto simp: hd_append split: option.splits)

text \<open>The state of the sink after the messages \<open>ms\<close> were sent and the replies \<open>vs\<close> and pushes \<open>ps\<close> arrived.\<close>

definition sink_after :: "bool \<Rightarrow> PipelineMessage list \<Rightarrow> Value list \<Rightarrow> PushInfo list \<Rightarrow> 'm PipelineSink \<Rightarrow> bool" where
  "sink_after push_sender ms vs ps s \<longleftrightarrow>
     ps_in_flight s = waiting ms vs \<and> ps_outputs s = answers ms vs \<and> ps_written s = map pm_input ms \<and>
     ps_error s = None \<and> ps_push_sender s = push_sender \<and> ps_pushed s = (if push_sender then ps else [])"

lemma sink_after_arrived:
  assumes "sink_after b ms vs ps s" and "\<forall>m \<in> set ms. message_ok m"
    and "is_reply v \<Longrightarrow> length vs < sum_list (map needed ms) \<and> multi_accepted ms (vs @ [v])"
  shows "\<exists>s'. send_result E (Inr v) s = Ret s' \<and>
           sink_after b ms (vs @ (if is_reply v then [v] else [])) (ps @ (case v of VPush kind data \<Rightarrow> [(kind, data)] | _ \<Rightarrow> [])) s'"
proof (cases "\<exists>kind data. v = VPush kind data")
  case True
  then obtain kind data where v: "v = VPush kind data" by blast
  let ?s = "sink_send_push (kind, data) s"
  have s: "ps_in_flight ?s = waiting ms vs" "ps_outputs ?s = answers ms vs" "ps_written ?s = map pm_input ms"
    "ps_error ?s = None" "ps_push_sender ?s = b" "ps_pushed ?s = (if b then ps @ [(kind, data)] else [])"
    using assms(1) by (auto simp: sink_after_def sink_send_push_def)
  show ?thesis
  proof (cases "has_reply kind")
    case True
    then show ?thesis using deliver_step [OF assms(2) _ _ s(1), of v] assms(3) s
      by (auto simp: v send_result_def is_reply_def sink_after_def)
  next
    case False
    then show ?thesis using assms(1) by (auto simp: v send_result_def is_reply_def sink_after_def sink_send_push_def)
  qed
next
  case False
  then have "is_reply v" "send_result E (Inr v) s = deliver (Inr v) s"
    by (auto simp: is_reply_def send_result_def split: Value.splits)
  then show ?thesis using deliver_step [OF assms(2), of vs v s] assms(1,3) False
    by (auto simp: sink_after_def split: Value.splits)
qed

lemma run_events_after:
  assumes "sink_after b ms vs ps s" and "\<forall>m \<in> set (ms @ sent_messages es). message_ok m"
    and "length vs \<le> sum_list (map needed ms)" and "causal (sum_list (map needed ms) - length vs) es"
    and "multi_accepted (ms @ sent_messages es) (vs @ arrived_replies es)"
  shows "\<exists>s'. run_events E es s = Ret s' \<and> sink_after b (ms @ sent_messages es) (vs @ arrived_replies es) (ps @ arrived_pushes es) s'"
  using assms
proof (induction es arbitrary: ms vs ps s)
  case Nil
  then show ?case by simp
next
  case (Cons ev es)
  show ?case
  proof (cases ev)
    case (Sent m)
    let ?s = "snd (sink_start_send {} (Inr ()) m s)"
    have ok: "message_ok m" using Cons.prems(2) Sent by simp
    have "sink_after b (ms @ [m]) vs ps ?s"
      using Cons.prems(1) answers_snoc [OF Cons.prems(3) ok]
      by (auto simp: sink_after_def sink_start_send_def collecting_fresh [OF ok] split: option.splits)
    from Cons.IH [OF this] Cons.prems(2-5) show ?thesis by (simp add: Sent)
  next
    case (Arrived v)
    have ms: "\<forall>m \<in> set ms. message_ok m" using Cons.prems(2) by simp
    have due: "is_reply v \<Longrightarrow> length vs < sum_list (map needed ms) \<and> multi_accepted ms (vs @ [v])"
      using Cons.prems(4,5) multi_accepted_prefix [of ms "sent_messages es" "vs @ [v]" "arrived_replies es"]
      by (simp add: Arrived)
    obtain s' where s': "send_result E (Inr v) s = Ret s'"
      "sink_after b ms (vs @ (if is_reply v then [v] else [])) (ps @ (case v of VPush kind data \<Rightarrow> [(kind, data)] | _ \<Rightarrow> [])) s'"
      using sink_after_arrived [OF Cons.prems(1) ms due] by blast
    from Cons.IH [OF s'(2)] Cons.prems(2-5) due s'(1) show ?thesis
      by (cases "is_reply v") (simp_all add: Arrived)
  qed
qed

text \<open>C1.  Requests on a shared connection are answered with their own replies.  However sending and receiving
  alternate, as long as the server replies only to what was sent and accepts MULTI: the bytes are
  written in the order of the requests; each request is answered once all its replies have arrived, with the
  replies that follow those of the requests before it; push messages that are no replies do not count, and all are
  handed to the push sender in order.\<close>

theorem multiplexed_requests_get_their_replies:
  assumes "\<forall>m \<in> set (sent_messages es). message_ok m" and "causal 0 es" and "multi_accepted (sent_messages es) (arrived_replies es)"
  shows "\<exists>s. run_events E es (pipeline_sink_new push_sender cache) = Ret s \<and>
           ps_outputs s = answers (sent_messages es) (arrived_replies es) \<and>
           ps_written s = map pm_input (sent_messages es) \<and>
           ps_pushed s = (if push_sender then arrived_pushes es else [])"
proof -
  have "sink_after push_sender [] [] [] (pipeline_sink_new push_sender cache)"
    by (simp add: sink_after_def pipeline_sink_new_def)
  from run_events_after [OF this, of es E] assms show ?thesis by (auto simp: sink_after_def)
qed

definition witness_events :: "sink_event list" where
  "witness_events =
     [Sent \<lparr>pm_input = ''a'', pm_output = Some 1, pm_expectation = None\<rparr>,
      Sent \<lparr>pm_input = ''b'', pm_output = Some 2, pm_expectation =
        Some \<lparr>skipped_response_count = 2, expected_response_count = 1, pe_is_transaction = True, seen_responses = 0\<rparr>\<rparr>,
      Arrived (VInt 7), Arrived (VPush Invalidate []), Arrived Okay,
      Sent \<lparr>pm_input = ''c'', pm_output = Some 3, pm_expectation = None\<rparr>,
      Arrived (SimpleString ''QUEUED''), Arrived (VArray [VInt 8])]"

theorem multiplexed_requests_get_their_replies_witness:
  "\<exists>s. run_events list_lru witness_events (pipeline_sink_new True None) = Ret s \<and>
       ps_outputs s = [(1, Inr (VInt 7)), (2, Inr (VArray [VArray [VInt 8]]))] \<and>
       ps_written s = [''a'', ''b'', ''c''] \<and> ps_pushed s = [(Invalidate, [])]"
proof -
  note ev = witness_events_def message_ok_def needed_def is_reply_def is_server_error_def has_reply_def
  have 1: "\<forall>m \<in> set (sent_messages witness_events). message_ok m" by (simp add: ev)
  have 2: "causal 0 witness_events" by (simp add: ev)
  have 3: "multi_accepted (sent_messages witness_events) (arrived_replies witness_events)" by (simp add: ev)
  have "answers (sent_messages witness_events) (arrived_replies witness_events) =
      [(1, Inr (VInt 7)), (2, Inr (VArray [VArray [VInt 8]]))]"
    by (simp add: ev answer_to_def queue_errors_def indexed_errors_def List.map_filter_simps numeral_2_eq_2)
  moreover have "map pm_input (sent_messages witness_events) = [''a'', ''b'', ''c'']" by (simp add: ev)
  moreover have "arrived_pushes witness_events = [(Invalidate, [])]" by (simp add: ev)
  ultimately show ?thesis
    using multiplexed_requests_get_their_replies [OF 1 2 3, of list_lru True None] by simp
qed

section \<open>The connection is lost\<close>

definition told_of_loss :: "RedisError \<Rightarrow> InFlight list \<Rightarrow> (nat \<times> Value redis_result) list" where
  "told_of_loss err queue = (case queue of
     entry # _ \<Rightarrow> (case (if_output entry, if_aggregate entry) of (Some ch, SingleCommand) \<Rightarrow> [(ch, Inl err)] | _ \<Rightarrow> [])
   | [] \<Rightarrow> [])"

definition short :: "InFlight \<Rightarrow> bool" where
  "short entry = (case if_aggregate entry of
     PipelineResponse buffer _ e \<Rightarrow> length buffer < expected_response_count e
   | SingleCommand \<Rightarrow> True)"

lemma waiting_short: "\<forall>m \<in> set ms. message_ok m \<Longrightarrow> \<forall>entry \<in> set (waiting ms vs). short entry"
  by (induction ms arbitrary: vs) (auto simp: short_def collecting_def message_ok_def needed_def split: option.splits)

lemma deliver_lost:
  assumes "\<forall>entry \<in> set (ps_in_flight s). short entry"
  shows "\<exists>s'. deliver (Inl err) s = Ret s' \<and> ps_pushed s' = ps_pushed s \<and> ps_push_sender s' = ps_push_sender s \<and>
      ps_outputs s' = ps_outputs s @ told_of_loss err (ps_in_flight s)"
proof (cases "ps_in_flight s")
  case (Cons entry rest)
  obtain out agg where entry: "entry = \<lparr>if_output = out, if_aggregate = agg\<rparr>" by (cases entry)
  show ?thesis
  proof (cases agg)
    case SingleCommand
    then show ?thesis by (cases out) (simp_all add: deliver_def Cons entry send_output_def told_of_loss_def)
  next
    case (PipelineResponse buffer errs e)
    then have "\<exists>agg'. collect_response (Inl err) buffer errs e = Ret (Inl agg')"
      using assms Cons entry
      by (cases "pe_is_transaction e"; cases errs) (auto simp: collect_response_def short_def Let_def)
    then show ?thesis by (auto simp: deliver_def Cons entry PipelineResponse told_of_loss_def split: option.splits)
  qed
qed (simp add: deliver_def told_of_loss_def)

text \<open>C15.  When the stream ends, no request is answered with part of its replies.  The request at the
  head of the queue is told of the lost connection if it waits for a single reply; every other waiting request gets
  no message at all, and the push sender gets the disconnection as its last message.\<close>

theorem lost_connection_gives_no_partial_answer:
  assumes "\<forall>m \<in> set (sent_messages es). message_ok m" and "causal 0 es" and "multi_accepted (sent_messages es) (arrived_replies es)"
  shows "\<exists>s. run_bind (run_events E es (pipeline_sink_new push_sender cache)) (sink_poll_read E (None # items)) = Ret (True, s) \<and>
           ps_outputs s = answers (sent_messages es) (arrived_replies es) @
             told_of_loss closed_connection_error (waiting (sent_messages es) (arrived_replies es)) \<and>
           ps_pushed s = (if push_sender then arrived_pushes es @ [push_info_disconnect] else []) \<and> \<not> ps_push_sender s"
proof -
  have "sink_after push_sender [] [] [] (pipeline_sink_new push_sender cache)"
    by (simp add: sink_after_def pipeline_sink_new_def)
  from run_events_after [OF this, of es E] assms obtain s where
    s: "run_events E es (pipeline_sink_new push_sender cache) = Ret s"
      "sink_after push_sender (sent_messages es) (arrived_replies es) (arrived_pushes es) s" by auto
  let ?w = "waiting (sent_messages es) (arrived_replies es)"
  obtain s' where s': "deliver (Inl closed_connection_error) s = Ret s'"
      "ps_outputs s' = ps_outputs s @ told_of_loss closed_connection_error ?w" "ps_pushed s' = ps_pushed s" "ps_push_sender s' = ps_push_sender s"
    using deliver_lost [of s closed_connection_error] waiting_short [OF assms(1), of "arrived_replies es"] s(2)
    by (auto simp: sink_after_def)
  then show ?thesis using s
    by (auto simp: sink_after_def send_result_def closed_connection_error_facts sink_send_disconnect_def sink_send_push_def)
qed

section \<open>MULTI is refused\<close>

lemma events_append [simp]:
  "sent_messages (es @ es') = sent_messages es @ sent_messages es'"
  "arrived_replies (es @ es') = arrived_replies es @ arrived_replies es'"
  "arrived_pushes (es @ es') = arrived_pushes es @ arrived_pushes es'"
  by (simp_all add: sent_messages_def arrived_replies_def arrived_pushes_def map_filter_append)

lemma run_events_append: "run_events E (es @ es') s = run_bind (run_events E es s) (run_events E es')"
proof (induction E es s rule: run_events.induct)
  case (3 E v es s)
  then show ?case by (cases "sink_poll_read E [Some (Inr v)] s") auto
qed simp_all

lemma causal_snoc: "causal due (es @ [Sent m]) \<longleftrightarrow> causal due es"
  by (induction es arbitrary: due rule: causal.induct) auto

lemma waiting_all: "length vs = sum_list (map needed ms) \<Longrightarrow> waiting ms vs = []"
  by (induction ms arbitrary: vs) auto

lemma multi_accepted_all:
  "length vs = sum_list (map needed ms) \<Longrightarrow> multi_accepted (ms @ [m]) vs \<longleftrightarrow> multi_accepted ms vs"
  by (induction ms arbitrary: vs) (auto split: option.splits)

text \<open>C39.  If the server refuses MULTI, for instance because the client is not authenticated, the index
  of the refused command underflows at the first reply: reading panics (in a build with overflow checks), and with it the task
  that serves all requests of the connection.\<close>

theorem refused_multi_ends_the_driver:
  assumes "\<forall>m \<in> set (sent_messages es). message_ok m" and "causal 0 es" and "multi_accepted (sent_messages es) (arrived_replies es)"
    and "sum_list (map needed (sent_messages es)) = length (arrived_replies es)"
    and "message_ok m" and "pm_expectation m = Some e" and "pe_is_transaction e" and "0 < skipped_response_count e"
  shows "run_events E (es @ Sent m # Arrived (VServerError err) # es') (pipeline_sink_new push_sender cache) = Panic"
proof -
  let ?ms = "sent_messages es" and ?vs = "arrived_replies es"
  have "sink_after push_sender [] [] [] (pipeline_sink_new push_sender cache)"
    by (simp add: sink_after_def pipeline_sink_new_def)
  moreover have "multi_accepted (?ms @ [m]) ?vs" using assms(1,3-5) by (simp add: multi_accepted_all)
  ultimately obtain s where
    s: "run_events E (es @ [Sent m]) (pipeline_sink_new push_sender cache) = Ret s"
      "sink_after push_sender (?ms @ [m]) ?vs (arrived_pushes es) s"
    using run_events_after [of push_sender "[]" "[]" "[]" _ "es @ [Sent m]" E] assms(1,2,5) by (auto simp: causal_snoc)
  have "ps_in_flight s = [collecting m []]"
    using s(2) answers_snoc(2) [of ?vs ?ms m] assms(4,5) waiting_all [of ?vs ?ms] assms(1) by (simp add: sink_after_def)
  moreover have "if_aggregate (collecting m []) = PipelineResponse [] (Errors []) e"
    using collecting_fresh [OF assms(5)] assms(6) by (simp add: response_aggregate_new_def)
  moreover have "seen_responses e = 0" using assms(5,6) by (simp add: message_ok_def)
  then have "collect_response (Inr (VServerError err)) [] (Errors []) e = Panic"
    using assms(7,8) by (simp add: collect_response_def)
  ultimately have "deliver (Inr (VServerError err)) s = Panic"
    by (simp add: deliver_def)
  then have "run_events E (Arrived (VServerError err) # es') s = Panic" by (simp add: send_result_def)
  with s(1) run_events_append [of E "es @ [Sent m]" "Arrived (VServerError err) # es'" "pipeline_sink_new push_sender cache"]
  show ?thesis unfolding append_assoc by simp
qed

theorem lost_connection_gives_no_partial_answer_witness:
  "\<exists>s. run_bind (run_events list_lru witness_events (pipeline_sink_new True None)) (sink_poll_read list_lru [None]) = Ret (True, s) \<and>
       ps_outputs s = [(1, Inr (VInt 7)), (2, Inr (VArray [VArray [VInt 8]])), (3, Inl closed_connection_error)] \<and>
       ps_pushed s = [(Invalidate, []), push_info_disconnect] \<and> \<not> ps_push_sender s"
proof -
  note ev = witness_events_def message_ok_def needed_def is_reply_def is_server_error_def has_reply_def
  have 1: "\<forall>m \<in> set (sent_messages witness_events). message_ok m" by (simp add: ev)
  have 2: "causal 0 witness_events" by (simp add: ev)
  have 3: "multi_accepted (sent_messages witness_events) (arrived_replies witness_events)" by (simp add: ev)
  have "answers (sent_messages witness_events) (arrived_replies witness_events) =
      [(1, Inr (VInt 7)), (2, Inr (VArray [VArray [VInt 8]]))]"
    by (simp add: ev answer_to_def queue_errors_def indexed_errors_def List.map_filter_simps numeral_2_eq_2)
  moreover have "told_of_loss e (waiting (sent_messages witness_events) (arrived_replies witness_events)) = [(3, Inl e)]" for e
    by (simp add: ev collecting_def told_of_loss_def numeral_2_eq_2)
  moreover have "arrived_pushes witness_events = [(Invalidate, [])]" by (simp add: ev)
  ultimately show ?thesis
    using lost_connection_gives_no_partial_answer [OF 1 2 3, of list_lru True None "[]"] by simp
qed

theorem refused_multi_ends_the_driver_witness:
  "run_events list_lru
     [Sent \<lparr>pm_input = ''b'', pm_output = Some 2, pm_expectation =
        Some \<lparr>skipped_response_count = 2, expected_response_count = 1, pe_is_transaction = True, seen_responses = 0\<rparr>\<rparr>,
      Arrived (VServerError (Extension ''NOAUTH'' None))] (pipeline_sink_new True None) = Panic"
  using refused_multi_ends_the_driver [of "[]"
    "\<lparr>pm_input = ''b'', pm_output = Some 2, pm_expectation =
        Some \<lparr>skipped_response_count = 2, expected_response_count = 1, pe_is_transaction = True, seen_responses = 0\<rparr>\<rparr>"
    "\<lparr>skipped_response_count = 2, expected_response_count = 1, pe_is_transaction = True, seen_responses = 0\<rparr>"
    list_lru "Extension ''NOAUTH'' None" "[]" True None]
  by (simp add: message_ok_def)

section \<open>The blocking and the shared connection\<close>

text \<open>What the driver gives a request that is alone on the connection, when the server sends \<open>vs\<close>.\<close>

definition served_alone :: "'m cache_prims \<Rightarrow> Value list \<Rightarrow> PipelineMessage \<Rightarrow> recv" where
  "served_alone E vs m = (case run_events E (Sent m # map Arrived vs) (pipeline_sink_new False None) of
     Ret s \<Rightarrow> Received (case pm_output m of Some ch \<Rightarrow> map_of (ps_outputs s) ch | None \<Rightarrow> None)
   | Panic \<Rightarrow> Received None)"

lemma arrived_map:
  assumes "\<forall>v \<in> set vs. \<not> is_push v"
  shows "sent_messages (map Arrived vs) = []" and "arrived_replies (map Arrived vs) = vs"
    and "length vs \<le> due \<Longrightarrow> causal due (map Arrived vs)"
proof -
  have "is_reply v" if "v \<in> set vs" for v
    using assms that by (cases v) (force simp: is_push_def is_reply_def)+
  then show "sent_messages (map Arrived vs) = []" "arrived_replies (map Arrived vs) = vs"
    "length vs \<le> due \<Longrightarrow> causal due (map Arrived vs)"
    by (induction vs arbitrary: due) auto
qed

lemma served_alone_pipeline:
  assumes "pm_output m = Some ch" and "message_ok m" and "\<forall>v \<in> set vs. \<not> is_push v" and "length vs = needed m"
    and "multi_accepted [m] vs"
  shows "served_alone E vs m = Received (Some (answer_to m vs))"
proof -
  have "sink_after False [] [] [] (pipeline_sink_new False None)"
    by (simp add: sink_after_def pipeline_sink_new_def)
  from run_events_after [OF this, of "Sent m # map Arrived vs" E] assms
  show ?thesis by (auto simp: served_alone_def sink_after_def arrived_map)
qed

lemma indexed_errors_from: "indexed_errors (v # vs) =
    (case v of VServerError e \<Rightarrow> [(0, e)] | _ \<Rightarrow> []) @ map (\<lambda>(i, e). (i + 1, e)) (indexed_errors vs)"
  by (simp add: indexed_errors_Cons split: Value.splits)

text \<open>C9.  A pipeline is answered alike on the blocking and on the shared connection.  When the server sends the same
  replies, \<open>offset\<close> of them to be skipped, both return the same values, or the same error with the same
  positions of the refused commands.\<close>

theorem shared_connection_answers_like_blocking:
  assumes "cn_reads c = map Inr vs @ rest" and "cn_messages_to_skip c = 0" and "\<not> cn_pubsub c" and "cn_write_errs c = []"
    and "get_packed_pipeline itoa p = Ret bs" and "bs \<noteq> []" and "\<forall>v \<in> set vs. \<not> is_push v"
    and "length vs = offset + n" and "0 < n" and "offset = 0 \<or> is_transaction p \<and> \<not> is_server_error (hd vs)"
  shows "\<exists>r c'. req_packed_commands itoa bs offset n c = Ret (r, c') \<and>
           send_packed_commands itoa E None clocks now (served_alone E vs) ch p offset n = Ret (r, None)"
proof -
  let ?e = "\<lparr>skipped_response_count = offset, expected_response_count = n, pe_is_transaction = is_transaction p, seen_responses = 0\<rparr>"
  let ?m = "\<lparr>pm_input = bs, pm_output = Some ch, pm_expectation = Some ?e\<rparr>"
  have "served_alone E vs ?m = Received (Some (answer_to ?m vs))"
    using assms(7-10) by (intro served_alone_pipeline) (auto simp: message_ok_def needed_def)
  then have send: "send_packed_commands itoa E None clocks now (served_alone E vs) ch p offset n =
      Ret (res_bind (answer_to ?m vs) (\<lambda>v. Inr (case v of VArray values \<Rightarrow> values | _ \<Rightarrow> [v])), None)"
    using assms(5,6) by (simp add: send_packed_commands_def send_recv_def)
  show ?thesis
  proof (cases offset)
    case 0
    let ?c1 = "c\<lparr>cn_sent := cn_sent c @ [bs]\<rparr>"
    have "no_push vs = vs" "vs = [] \<or> \<not> is_push (last vs)" using assms(7) by auto
    then obtain c' where "replies_loop 0 n 0 [] None [] ?c1 = Ret (Inr vs, c')"
      using replies_loop_replies [of ?c1 vs rest 0 0 n "[]" None "[]"] assms(1,2,8) 0 by (auto simp: loop_result_def)
    then show ?thesis using send 0 assms(2-6)
      by (simp add: req_packed_commands_def leave_pubsub_def send_bytes_ok answer_to_def queue_errors_def indexed_errors_def
          List.map_filter_simps)
  next
    case (Suc k)
    then obtain multi ws where vs: "vs = multi # ws" using assms(8) by (cases vs) auto
    define qs xs where "qs = take k ws" and "xs = drop k ws"
    have l: "length qs = k" "length xs = n" "ws = qs @ xs" using assms(8) Suc vs by (simp_all add: qs_def xs_def)
    have multi: "\<nexists>e. multi = VServerError e" using assms(10) Suc vs by (auto simp: is_server_error_def)
    obtain c' where "req_packed_commands itoa bs offset n c =
        Ret (if indexed_errors qs = [] then Inr xs else Inl (TransactionAborted (indexed_errors qs)), c')"
      using replies_after_skipped [of c multi qs xs rest bs itoa] assms(1-4,6,7) vs l Suc multi by auto
    moreover have "queue_errors ?e (take offset vs) = indexed_errors qs"
      using assms(10) Suc vs l multi by (cases multi) (auto simp: queue_errors_def indexed_errors_from comp_def case_prod_beta)
    ultimately show ?thesis using send Suc vs l by (auto simp: answer_to_def Let_def)
  qed
qed

theorem shared_connection_answers_like_blocking_witness:
  "\<exists>bs r c'. get_packed_pipeline show_int (atomic (pipeline_cmd pipeline_new ''PING'')) = Ret bs \<and>
     req_packed_commands show_int bs 2 1
       (fresh_connection [Inr Okay, Inr (SimpleString ''QUEUED''), Inr (VArray [SimpleString ''PONG''])]) = Ret (r, c') \<and>
     send_packed_commands show_int list_lru None (\<lambda>_ _. 0) (\<lambda>_. 0)
       (served_alone list_lru [Okay, SimpleString ''QUEUED'', VArray [SimpleString ''PONG'']]) 1
       (atomic (pipeline_cmd pipeline_new ''PING'')) 2 1 = Ret (r, None)"
proof -
  let ?p = "atomic (pipeline_cmd pipeline_new ''PING'')"
  have p: "commands ?p = [cmd ''PING'']" "transaction_mode ?p" "is_transaction ?p"
    by (simp_all add: atomic_def pipeline_cmd_def add_command_def pipeline_new_def pipeline_with_capacity_def is_transaction_def)
  obtain bs where bs: "get_packed_pipeline show_int ?p = Ret bs" "bs \<noteq> []"
    using encode_pipeline_wf [OF itoa_ok_show_int, of "commands ?p" True] p
    by (simp add: pipeline_cmds_def resp_command_def get_packed_pipeline_def)
  show ?thesis
    using shared_connection_answers_like_blocking [OF _ _ _ _ bs, of
        "fresh_connection [Inr Okay, Inr (SimpleString ''QUEUED''), Inr (VArray [SimpleString ''PONG''])]"
        "[Okay, SimpleString ''QUEUED'', VArray [SimpleString ''PONG'']]" "[]" 2 1 list_lru "\<lambda>_ _. 0" "\<lambda>_. 0" 1] bs(1) p(3)
    by (auto simp: fresh_connection_def is_push_def is_server_error_def)
qed

lemma causal_append:
  assumes "causal due es" and "causal (due + sum_list (map needed (sent_messages es)) - length (arrived_replies es)) fs"
  shows "causal due (es @ fs)"
  using assms by (induction due es rule: causal.induct) (auto simp: add_ac split: if_splits)

lemma multi_accepted_append:
  assumes "length vs = sum_list (map needed ms)"
  shows "multi_accepted (ms @ ms') (vs @ vs') \<longleftrightarrow> multi_accepted ms vs \<and> multi_accepted ms' vs'"
  using assms
proof (induction ms arbitrary: vs)
  case (Cons m ms)
  have "pm_expectation m = Some e \<Longrightarrow> 0 < skipped_response_count e \<Longrightarrow> vs \<noteq> []" for e
    using Cons.prems by (auto simp: needed_def)
  then show ?case using Cons by (auto simp: hd_append split: option.splits)
qed simp

lemma answers_append:
  assumes "length vs = sum_list (map needed ms)"
  shows "answers (ms @ ms') (vs @ vs') = answers ms vs @ answers ms' vs'"
  using assms by (induction ms arbitrary: vs) (auto split: option.splits)

section \<open>Subscribing to several channels\<close>

text \<open>C40.  A subscription to several channels shifts the replies.  The server confirms each channel with a push message
  of its own; all of them count as replies, but the request waits for one.  If another request is
  in flight when the second confirmation arrives, that request is answered with the confirmation, and
  its own reply goes to the request after it.\<close>

theorem second_confirmation_answers_next_request:
  assumes "\<forall>m \<in> set (sent_messages es). message_ok m" and "causal 0 es" and "multi_accepted (sent_messages es) (arrived_replies es)"
    and "sum_list (map needed (sent_messages es)) = length (arrived_replies es)"
    and "has_reply kind" and "is_reply v"
  shows "\<exists>s. run_events E
             (es @ [Sent \<lparr>pm_input = subscribe', pm_output = Some ch1, pm_expectation = None\<rparr>,
                    Sent \<lparr>pm_input = bs2, pm_output = Some ch2, pm_expectation = None\<rparr>,
                    Sent \<lparr>pm_input = bs3, pm_output = Some ch3, pm_expectation = None\<rparr>,
                    Arrived (VPush kind d1), Arrived (VPush kind d2), Arrived v])
             (pipeline_sink_new push_sender cache) = Ret s \<and>
           ps_outputs s = answers (sent_messages es) (arrived_replies es) @
             [(ch1, Inr (VPush kind d1)), (ch2, Inr (VPush kind d2)), (ch3, Inr v)]"
proof -
  let ?m1 = "\<lparr>pm_input = subscribe', pm_output = Some ch1, pm_expectation = None\<rparr>"
  let ?m2 = "\<lparr>pm_input = bs2, pm_output = Some ch2, pm_expectation = None\<rparr>"
  let ?m3 = "\<lparr>pm_input = bs3, pm_output = Some ch3, pm_expectation = None\<rparr>"
  let ?fs = "[Sent ?m1, Sent ?m2, Sent ?m3, Arrived (VPush kind d1), Arrived (VPush kind d2), Arrived v]"
  have r: "is_reply (VPush kind d1)" "is_reply (VPush kind d2)" using assms(5) by (simp_all add: is_reply_def)
  have n: "needed ?m1 = 1" "needed ?m2 = 1" "needed ?m3 = 1" "message_ok ?m1" "message_ok ?m2" "message_ok ?m3"
    by (simp_all add: needed_def message_ok_def)
  have "causal 0 (es @ ?fs)"
    using causal_append [OF assms(2), of ?fs] assms(4,6) r n by simp
  moreover have "multi_accepted (sent_messages (es @ ?fs)) (arrived_replies (es @ ?fs))"
    using multi_accepted_append [OF assms(4) [symmetric], of "sent_messages ?fs" "arrived_replies ?fs"] assms(3,6) r n by simp
  moreover have "sink_after push_sender [] [] [] (pipeline_sink_new push_sender cache)"
    by (simp add: sink_after_def pipeline_sink_new_def)
  ultimately obtain s where "run_events E (es @ ?fs) (pipeline_sink_new push_sender cache) = Ret s"
      "ps_outputs s = answers (sent_messages (es @ ?fs)) (arrived_replies (es @ ?fs))"
    using run_events_after [of push_sender "[]" "[]" "[]" _ "es @ ?fs" E] assms(1) n(4-6) by (auto simp: sink_after_def)
  moreover have "answers (sent_messages (es @ ?fs)) (arrived_replies (es @ ?fs)) =
      answers (sent_messages es) (arrived_replies es) @
        [(ch1, Inr (VPush kind d1)), (ch2, Inr (VPush kind d2)), (ch3, Inr v)]"
    using answers_append [OF assms(4) [symmetric], of "sent_messages ?fs" "arrived_replies ?fs"] assms(6) r n
    by (simp add: answer_to_def)
  ultimately show ?thesis by (intro exI [of _ s] conjI) simp_all
qed

theorem second_confirmation_answers_next_request_witness:
  "\<exists>s. run_events list_lru
         [Sent \<lparr>pm_input = ''SUBSCRIBE a b'', pm_output = Some 1, pm_expectation = None\<rparr>,
          Sent \<lparr>pm_input = ''GET x'', pm_output = Some 2, pm_expectation = None\<rparr>,
          Sent \<lparr>pm_input = ''GET y'', pm_output = Some 3, pm_expectation = None\<rparr>,
          Arrived (VPush Subscribe [BulkString ''a'', VInt 1]), Arrived (VPush Subscribe [BulkString ''b'', VInt 2]),
          Arrived (BulkString ''value of x'')] (pipeline_sink_new True None) = Ret s \<and>
       ps_outputs s = [(1, Inr (VPush Subscribe [BulkString ''a'', VInt 1])),
                       (2, Inr (VPush Subscribe [BulkString ''b'', VInt 2])), (3, Inr (BulkString ''value of x''))]"
  using second_confirmation_answers_next_request [of "[]" Subscribe "BulkString ''value of x''" list_lru "''SUBSCRIBE a b''" 1 "''GET x''" 2
      "''GET y''" 3 "[BulkString ''a'', VInt 1]" "[BulkString ''b'', VInt 2]" True None]
  by (simp add: is_reply_def has_reply_def)

end
