(* ===== verification/Spec2Isabelle.thy ===== *)
theory Spec2Isabelle
  imports Scripts Sync_Replies Cluster_Fanout Multiplexed_Replies
begin

text \<open>
  A verification library for the Redis client \<^verbatim>\<open>redis-rs\<close>.  File names are those under \<^verbatim>\<open>src/redis/src\<close>.

  \<^bold>\<open>The program.\<close>  A command is built from arguments and packed into the bytes of the protocol; the
  replies are parsed into values and converted to Rust types.  Commands are sent one by one or as a pipeline, over a blocking
  connection or over a connection that concurrent requests share, which may answer from a client side cache.  The cluster client
  computes the hash slot of a command, finds the node in a slot map that it refreshes, follows redirections, repeats what failed,
  splits commands over several nodes and puts the answers together.

  \<^bold>\<open>Conventions.\<close>  Bytes are \<open>string\<close>.  A fallible function returns \<open>redis_result\<close>, a sum whose left side is the
  error; an operation that can panic (an assertion, an index, checked arithmetic as in a build with overflow checks) returns \<open>'a run\<close>
  with the value \<open>Panic\<close>.  Mutation is state passing over records, traits are records of their methods, and
  machine words are words where their wrap-around matters.  Other crates and the surroundings are parameters: \<^verbatim>\<open>itoa\<close>, \<^verbatim>\<open>combine\<close>,
  \<^verbatim>\<open>crc16\<close>, \<^verbatim>\<open>rand\<close>, \<^verbatim>\<open>lru\<close>, \<^verbatim>\<open>sha1_smol\<close>, the order of hash maps, the clock, what the socket delivers.  What is
  used of their documentation is a named hypothesis (\<open>itoa_ok\<close>, \<open>combine_ok\<close>, \<open>cache_prims_ok\<close>, \<open>iterates\<close>, ...) which the
  witnesses discharge for a concrete function.

  \<^bold>\<open>Theories, in the order of the code.\<close>
  \<^item> \<open>Redis_Prelude\<close>, \<open>Rust_Std\<close>, \<open>Rust_Float\<close>: the monads, shared lemmas and what is used of the standard library: UTF-8,
    parsing and printing of integers and of 64-bit floats.
  \<^item> \<open>Server_Error\<close>, \<open>Redis_Error\<close> (\<^verbatim>\<open>errors/\<close>) and \<open>Redis_Value\<close> (\<^verbatim>\<open>Value\<close>, \<^verbatim>\<open>PushKind\<close> in \<^verbatim>\<open>types.rs\<close>): data and classification.
  \<^item> \<open>To_Args\<close> (\<^verbatim>\<open>ToRedisArgs\<close>, \<^verbatim>\<open>RedisWrite\<close>) and \<open>From_Value\<close> (\<^verbatim>\<open>FromRedisValue\<close>) of \<^verbatim>\<open>types.rs\<close>.  The locale
    \<open>redis_write\<close> is the contract of a sink of arguments, interpreted for vectors and for commands.  \<open>Arg_Roundtrip\<close> joins the two directions.
  \<^item> \<open>Command\<close> (\<^verbatim>\<open>cmd.rs\<close>): the builder refines a list of arguments, and packing writes exactly their bytes.
    \<open>Command_Properties\<close> has the tables of \<^verbatim>\<open>commands/mod.rs\<close>.
  \<^item> \<open>Resp_Parser\<close>, \<open>Resp_Roundtrip\<close> (\<^verbatim>\<open>parser.rs\<close>): the parser and the codec over chunks; every reply is read back, every
    packed command parses, the depth is bounded.
  \<^item> \<open>Pipelines\<close> (\<^verbatim>\<open>pipeline.rs\<close>) and \<open>Scripts\<close> (\<^verbatim>\<open>script.rs\<close>): packing and completing of pipelines; a script runs once.
  \<^item> \<open>Sync_Connection\<close>, \<open>Sync_Replies\<close> (\<^verbatim>\<open>connection.rs\<close>): set up, requests and replies with time-outs and push messages; each
    request gets its own reply, and where it does not.
  \<^item> \<open>Client_Cache\<close>, \<open>Cache_Transparency\<close> (\<^verbatim>\<open>caching/\<close>): the sharded cache and the requests over it.  \<open>cache_reached\<close> is the step
    relation of caches that serve, store, expire and invalidate while the server changes; they stay coherent, so that answers do
    not change, for commands whose concatenated arguments differ.
  \<^item> \<open>Multiplexed_Connection\<close>, \<open>Multiplexed_Replies\<close> (\<^verbatim>\<open>aio/multiplexed_connection.rs\<close>): the sink that pairs replies with
    requests; its state after any sequence of sending and receiving, the loss of the connection, and that a pipeline is answered as over
    the blocking connection.
  \<^item> \<open>Cluster_Routing\<close>, \<open>Multi_Slot\<close>, \<open>Multi_Slot_Answers\<close> (\<^verbatim>\<open>cluster_handling/routing.rs\<close>): slots, routes, splitting and
    combining.  The locale \<open>routable_request\<close> is interpreted for lists, parsed values and commands.
  \<^item> \<open>Slot_Range_Map\<close>, \<open>Slot_Map\<close>, \<open>Read_Routing\<close> (\<^verbatim>\<open>slot_range_map.rs\<close>, \<^verbatim>\<open>slot_map.rs\<close>, \<^verbatim>\<open>topology.rs\<close>, \<^verbatim>\<open>read_routing/\<close>): which
    nodes serve a slot.  The locales \<open>slot_lookup\<close> and \<open>read_strategy\<close> are the contracts of the map and of a strategy.
  \<^item> \<open>Subscription_Tracker\<close> (\<^verbatim>\<open>subscription_tracker.rs\<close>): replaying the subscriptions restores those of the server.
  \<^item> \<open>Cluster_Request\<close>, \<open>Cluster_Loop\<close>, \<open>Cluster_Nodes\<close>, \<open>Cluster_Fanout\<close> (\<^verbatim>\<open>cluster_handling/async_connection/\<close>): a request with its retries; the
    event loop as a step relation, in which requests are never lost, are answered, and work ends; the connections to the
    nodes, their refresh and repair; requests on one or several nodes, redirections, and the answers.

  \<^bold>\<open>Bounds and termination.\<close>  The parser recurses at most \<open>MAX_RECURSE_DEPTH\<close> deep, which is its own bound.  Loops over data
  are structural.  The repair of a connection has the limit on attempts that the configuration gives; without a limit the
  code never gives up, and the theorem on its end assumes one.  The event loop is a relation over polls; that its work ends is
  proved by a measure and that a request is answered by the number of its retries.  Waiting times are proved for parameters whose product
  does not overflow; the overflow panics in the model.

  \<^bold>\<open>What the theorems show to go wrong.\<close>  The properties of kind error are defects: replies shifted after a time-out, by
  several confirmations of a subscription; underflow when MULTI is refused; panics on a discarded transaction; an MSET sent in
  part; hidden errors of nodes; subscriptions that come back; and, for the cache, commands that share a reply, replies that outlive
  writes, and transactions that fail when all is cached.

  \<^bold>\<open>Not modelled.\<close>
  \<^item> Sockets, TLS, DNS, runtimes, pools (\<^verbatim>\<open>io/\<close>, \<^verbatim>\<open>aio/runtime.rs\<close>, \<^verbatim>\<open>tls.rs\<close>, \<^verbatim>\<open>r2d2.rs\<close>, \<^verbatim>\<open>bb8.rs\<close>) and \<^verbatim>\<open>client.rs\<close>: input and
    output without logic of the protocol.
  \<^item> The tasks that poll the sink, the connection manager, pub/sub and monitor streams of \<^verbatim>\<open>aio/\<close>: scheduling of futures.  Opening a
    multiplexed connection is set up as in \<open>Sync_Connection\<close> and is not repeated.
  \<^item> The loop of the blocking cluster client (\<^verbatim>\<open>sync_connection/\<close>); what it shares with the asynchronous one is modelled.
  \<^item> \<^verbatim>\<open>sentinel.rs\<close> and authentication (\<^verbatim>\<open>auth.rs\<close>, \<^verbatim>\<open>entra_id.rs\<close>): they drive connections and token services.
  \<^item> The constructors of single commands (\<^verbatim>\<open>commands/\<close>, \<^verbatim>\<open>bloom.rs\<close>): each appends fixed words and arguments to a \<open>Cmd\<close>.
  \<^item> \<^verbatim>\<open>InfoDict\<close>, \<^verbatim>\<open>Role\<close>, conversions of optional crates, the text of errors, URL parsing, and the scan iterators.
\<close>

end
